(* ===== verification/Prelude.thy ===== *)
theory Prelude
  imports Main "HOL-Library.Word" "HOL-Library.Char_ord" "HOL-Library.List_Lexorder"
begin

text \<open>
  What every component shares: machine types, the exceptions of the library as values of
  one error type, sequencing of fallible steps, the pieces of \<open>std::string\<close> the code uses,
  and the collections of rewrite rules the component proofs draw on.

  A \<open>std::string\<close> is a list of bytes, so it is HOL's \<open>string\<close> (a \<open>char\<close> is a byte);
  \<open>std::uint8_t\<close>, \<open>std::uint32_t\<close>, \<open>std::uint64_t\<close> and \<open>std::int64_t\<close> are words, the last
  one read with \<open>sint\<close>.
\<close>

unbundle bit_operations_syntax

section \<open>Rewrite collections\<close>

named_theorems err_simps \<open>sequencing of fallible steps\<close>
named_theorems str_simps \<open>the string functions of the standard library\<close>
named_theorems map_simps \<open>lookups after updates in maps and JSON objects\<close>
named_theorems wire_simps \<open>reading a field back from the JSON that was written\<close>

section \<open>Machine types\<close>

type_synonym byte = "8 word"
type_synonym uint32 = "32 word"
type_synonym uint64 = "64 word"
type_synonym int64 = "64 word"

definition byte_of :: "char \<Rightarrow> byte" where
  "byte_of c = word_of_nat (of_char c)"

definition chr_of :: "byte \<Rightarrow> char" where
  "chr_of b = char_of (unat b)"

abbreviation bytes_of :: "string \<Rightarrow> byte list" where
  "bytes_of s \<equiv> map byte_of s"

abbreviation string_of :: "byte list \<Rightarrow> string" where
  "string_of bs \<equiv> map chr_of bs"

lemma of_char_less [simp]: "of_char c < (256 :: nat)"
proof -
  have "of_char c = (of_char (char_of (of_char c :: nat)) :: nat)" by simp
  also have "\<dots> = of_char c mod 256" by (rule of_char_of)
  finally show ?thesis by simp
qed

lemma unat_byte_of [simp]: "unat (byte_of c) = of_char c"
  by (simp add: byte_of_def unat_of_nat)

lemma chr_of_byte_of [simp]: "chr_of (byte_of c) = c"
  by (simp add: chr_of_def)

lemma byte_of_chr_of [simp]: "byte_of (chr_of b) = b"
proof -
  have "unat b < 256" using unsigned_less [of b] by simp
  then show ?thesis by (simp add: byte_of_def chr_of_def)
qed

lemma string_of_bytes_of [simp]: "string_of (bytes_of s) = s"
  by (simp add: comp_def)

lemma bytes_of_string_of [simp]: "bytes_of (string_of bs) = bs"
  by (simp add: comp_def)

lemma chr_byte_comp [simp]: "chr_of \<circ> byte_of = id" "byte_of \<circ> chr_of = id"
  by (simp_all add: fun_eq_iff)

section \<open>Exceptions as values\<close>

text \<open>
  The three exception classes of \<^verbatim>\<open>include/jwt/jwt_errors.hpp\<close>, and what else can leave a
  function of the library: an exception of nkeys (carrying its text), an exception of
  nlohmann::json (its documented numeric id), \<open>std::out_of_range\<close> from \<open>std::stoi\<close>, the text
  of a \<open>std::runtime_error\<close>, and, as a value of its own that no handler catches, undefined
  behaviour of the program.
\<close>

datatype json_exn = Json_exn nat

datatype exn =
    MalformedTokenError string
  | InvalidClaimsError string
  | SignatureError string
  | NkeysError string
  | JsonException json_exn
  | StdOutOfRange
  | RuntimeError string
  | UndefinedBehaviour string

text \<open>The class \<open>jwt::Error\<close> the three errors of the library derive from.\<close>

fun is_jwt_error :: "exn \<Rightarrow> bool" where
  "is_jwt_error (MalformedTokenError _) = True"
| "is_jwt_error (InvalidClaimsError _) = True"
| "is_jwt_error (SignatureError _) = True"
| "is_jwt_error _ = False"

text \<open>What a \<open>catch (...)\<close> or \<open>catch (const std::exception&)\<close> can see.\<close>

fun is_cpp_exception :: "exn \<Rightarrow> bool" where
  "is_cpp_exception (UndefinedBehaviour _) = False"
| "is_cpp_exception _ = True"

section \<open>Sequencing\<close>

fun bindE :: "'e + 'a \<Rightarrow> ('a \<Rightarrow> 'e + 'b) \<Rightarrow> 'e + 'b" where
  "bindE (Inl e) f = Inl e"
| "bindE (Inr x) f = f x"

declare bindE.simps [err_simps]

text \<open>An early \<open>throw\<close> under a condition.\<close>

definition throw_if :: "bool \<Rightarrow> 'e \<Rightarrow> 'e + unit" where
  "throw_if b e = (if b then Inl e else Inr ())"

text \<open>A loop that stops at the first throw, collecting the results.\<close>

fun mapE :: "('a \<Rightarrow> 'e + 'b) \<Rightarrow> 'a list \<Rightarrow> 'e + 'b list" where
  "mapE f [] = Inr []"
| "mapE f (x # xs) = bindE (f x) (\<lambda>y. bindE (mapE f xs) (\<lambda>ys. Inr (y # ys)))"

text \<open>A loop that updates a state and stops at the first throw.\<close>

fun foldE :: "('s \<Rightarrow> 'a \<Rightarrow> 'e + 's) \<Rightarrow> 's \<Rightarrow> 'a list \<Rightarrow> 'e + 's" where
  "foldE f s [] = Inr s"
| "foldE f s (x # xs) = bindE (f s x) (\<lambda>s'. foldE f s' xs)"

lemma bindE_cong [fundef_cong]:
  assumes "m = m'" and "\<And>x. m' = Inr x \<Longrightarrow> f x = g x"
  shows "bindE m f = bindE m' g"
  using assms by (cases m') auto

lemma bindE_Inr_iff: "bindE m f = Inr y \<longleftrightarrow> (\<exists>x. m = Inr x \<and> f x = Inr y)"
  by (cases m) auto

lemma bindE_Inl_iff: "bindE m f = Inl e \<longleftrightarrow> m = Inl e \<or> (\<exists>x. m = Inr x \<and> f x = Inl e)"
  by (cases m) auto

lemma bindE_InrE [elim]:
  assumes "bindE m f = Inr y"
  obtains x where "m = Inr x" and "f x = Inr y"
  using assms by (cases m) auto

lemma bindE_assoc [err_simps]: "bindE (bindE m f) g = bindE m (\<lambda>x. bindE (f x) g)"
  by (cases m) auto

lemma throw_if_simps [simp, err_simps]:
  "throw_if True e = Inl e" "throw_if False e = Inr ()"
  by (simp_all add: throw_if_def)

lemma throw_if_Inr_iff [simp]: "throw_if b e = Inr u \<longleftrightarrow> \<not> b"
  by (auto simp: throw_if_def)

lemma throw_if_Inl_iff [simp]: "throw_if b e = Inl e' \<longleftrightarrow> b \<and> e' = e"
  by (auto simp: throw_if_def)

lemma bindE_if_Inl [simp]:
  "bindE (if b then Inl e else m) f = (if b then Inl e else bindE m f)"
  by simp

lemma mapE_Inr_map: "(\<And>x. x \<in> set xs \<Longrightarrow> f x = Inr (g x)) \<Longrightarrow> mapE f xs = Inr (map g xs)"
  by (induction xs) auto

lemma mapE_map [simp]: "mapE f (map g xs) = mapE (\<lambda>x. f (g x)) xs"
  by (induction xs) auto

lemma mapE_Inr [simp]: "mapE Inr xs = Inr xs"
  by (induction xs) auto

lemma mapE_length: "mapE f xs = Inr ys \<Longrightarrow> length ys = length xs"
  by (induction xs arbitrary: ys) (auto simp: bindE_Inr_iff)

lemma foldE_invariant:
  assumes "foldE f s xs = Inr s'" and "P s"
    and "\<And>s x s'. x \<in> set xs \<Longrightarrow> P s \<Longrightarrow> f s x = Inr s' \<Longrightarrow> P s'"
  shows "P s'"
  using assms by (induction xs arbitrary: s) (auto simp: bindE_Inr_iff)

section \<open>Strings\<close>

text \<open>\<open>s.find(c)\<close> and \<open>s.find(c, pos)\<close>: the first index from \<open>pos\<close> on, or \<open>npos\<close>.\<close>

fun find_char :: "char \<Rightarrow> string \<Rightarrow> nat option" where
  "find_char c [] = None"
| "find_char c (x # xs) = (if x = c then Some 0 else map_option Suc (find_char c xs))"

definition find_from :: "char \<Rightarrow> string \<Rightarrow> nat \<Rightarrow> nat option" where
  "find_from c s pos = map_option (\<lambda>k. pos + k) (find_char c (drop pos s))"

text \<open>\<open>s.substr(pos, n)\<close> for \<open>pos <= s.size()\<close>, the only calls the code makes.\<close>

definition substr :: "string \<Rightarrow> nat \<Rightarrow> nat \<Rightarrow> string" where
  "substr s pos n = take n (drop pos s)"

text \<open>\<open>s.find(pat)\<close> for a string pattern.\<close>

fun find_str :: "string \<Rightarrow> string \<Rightarrow> nat option" where
  "find_str pat s =
     (if take (length pat) s = pat then Some 0
      else (case s of [] \<Rightarrow> None | _ # s' \<Rightarrow> map_option Suc (find_str pat s')))"

declare find_str.simps [simp del]

text \<open>\<open>s.compare(s.size() - suf.size(), suf.size(), suf) == 0\<close> after the size test.\<close>

definition ends_with :: "string \<Rightarrow> string \<Rightarrow> bool" where
  "ends_with s suf \<longleftrightarrow> length suf \<le> length s \<and> drop (length s - length suf) s = suf"

definition starts_with :: "string \<Rightarrow> string \<Rightarrow> bool" where
  "starts_with s pre \<longleftrightarrow> take (length pre) s = pre"

text \<open>\<open>std::tolower\<close> and \<open>std::toupper\<close> in the "C" locale.\<close>

definition to_lower :: "char \<Rightarrow> char" where
  "to_lower c = (let n = of_char c :: nat in if 65 \<le> n \<and> n \<le> 90 then char_of (n + 32) else c)"

definition to_upper :: "char \<Rightarrow> char" where
  "to_upper c = (let n = of_char c :: nat in if 97 \<le> n \<and> n \<le> 122 then char_of (n - 32) else c)"

definition is_digit :: "char \<Rightarrow> bool" where
  "is_digit c \<longleftrightarrow> CHR ''0'' \<le> c \<and> c \<le> CHR ''9''"

text \<open>The value \<open>std::stoi\<close> and \<open>std::strtol\<close> read from a string of digits.\<close>

definition digits_value :: "string \<Rightarrow> nat" where
  "digits_value s = foldl (\<lambda>n c. 10 * n + (of_char c - 48)) 0 s"

text \<open>\<open>std::to_string\<close>.\<close>

fun nat_to_string :: "nat \<Rightarrow> string" where
  "nat_to_string n =
     (if n < 10 then [char_of (48 + n)] else nat_to_string (n div 10) @ [char_of (48 + n mod 10)])"

declare nat_to_string.simps [simp del]

definition int_to_string :: "int \<Rightarrow> string" where
  "int_to_string i = (if i < 0 then ''-'' @ nat_to_string (nat (- i)) else nat_to_string (nat i))"

definition quoted :: "string \<Rightarrow> string" where
  "quoted s = CHR 34 # s @ [CHR 34]"

definition squoted :: "string \<Rightarrow> string" where
  "squoted s = CHR 39 # s @ [CHR 39]"

subsection \<open>Facts about strings\<close>

lemma find_char_None_iff [str_simps]: "find_char c s = None \<longleftrightarrow> c \<notin> set s"
  by (induction s) auto

lemma find_char_append [str_simps]: "c \<notin> set s \<Longrightarrow> find_char c (s @ c # t) = Some (length s)"
  by (induction s) auto

lemma find_char_SomeD:
  assumes "find_char c s = Some i"
  shows "s = take i s @ c # drop (Suc i) s" and "c \<notin> set (take i s)" and "i < length s"
proof -
  have "s = take i s @ c # drop (Suc i) s \<and> c \<notin> set (take i s) \<and> i < length s"
    using assms
  proof (induction s arbitrary: i)
    case Nil
    then show ?case by simp
  next
    case (Cons x s)
    then show ?case by (cases i) (auto split: if_splits)
  qed
  then show "s = take i s @ c # drop (Suc i) s" and "c \<notin> set (take i s)" and "i < length s"
    by blast+
qed

lemma append_sep_inj [str_simps]:
  "c \<notin> set x \<Longrightarrow> c \<notin> set x' \<Longrightarrow> x @ c # y = x' @ c # y' \<longleftrightarrow> x = x' \<and> y = y'"
proof (induction x arbitrary: x')
  case Nil
  then show ?case by (cases x') auto
next
  case (Cons d x)
  then show ?case by (cases x') auto
qed

lemma find_from_0 [str_simps]: "find_from c s 0 = find_char c s"
  by (cases "find_char c s") (simp_all add: find_from_def)

lemma find_from_append [str_simps]:
  "find_from c (s @ c # t) (Suc (length s)) = map_option (\<lambda>k. Suc (length s) + k) (find_char c t)"
  by (simp add: find_from_def)

lemma of_char_inj [simp]: "(of_char c :: nat) = of_char d \<longleftrightarrow> c = d"
  by (metis char_of_char)

lemma to_lower_idem [simp]: "to_lower (to_lower c) = to_lower c"
  by (auto simp: to_lower_def Let_def)

end
