(* ===== verification/StdMap.thy ===== *)
theory StdMap
  imports Prelude
begin

text \<open>
  \<open>std::map<std::string, V>\<close>: an association list kept in key order (byte-wise
  lexicographic, as \<open>std::less<std::string>\<close> compares), because the code iterates over its
  maps and the order in which it finds problems is visible in its reports.
  nlohmann::json keeps its objects in the same kind of map.

  The interface the clients rely on is the locale \<open>string_map\<close>; \<open>ordered_map\<close> adds the
  order. Both are interpreted on the operations below.
\<close>

section \<open>The interface\<close>

locale string_map =
  fixes empty :: 'm
    and put :: "string \<Rightarrow> 'v \<Rightarrow> 'm \<Rightarrow> 'm"
    and del :: "string \<Rightarrow> 'm \<Rightarrow> 'm"
    and get :: "'m \<Rightarrow> string \<Rightarrow> 'v option"
  assumes get_empty: "get empty k = None"
    and get_put: "get (put k v m) k' = (if k = k' then Some v else get m k')"
    and get_del: "get (del k m) k' = (if k = k' then None else get m k')"
begin

definition count :: "'m \<Rightarrow> string \<Rightarrow> nat" where
  "count m k = (if get m k = None then 0 else 1)"

lemma get_put_same: "get (put k v m) k = Some v"
  by (simp add: get_put)

lemma get_put_other: "k \<noteq> k' \<Longrightarrow> get (put k v m) k' = get m k'"
  by (simp add: get_put)

lemma get_put_put: "get (put k v (put k w m)) k' = get (put k v m) k'"
  by (simp add: get_put)

lemma get_put_swap:
  "k \<noteq> l \<Longrightarrow> get (put k v (put l w m)) k' = get (put l w (put k v m)) k'"
  by (auto simp: get_put)

lemma get_del_put: "get (del k (put k v m)) k' = get (del k m) k'"
  by (simp add: get_put get_del)

text \<open>Loading a list of entries: the last entry for a key wins.\<close>

lemma get_fold_put:
  "get (fold (\<lambda>(k, v). put k v) kvs m) k =
     (case map_of (rev kvs) k of None \<Rightarrow> get m k | Some v \<Rightarrow> Some v)"
  by (induction kvs arbitrary: m) (auto simp: get_put map_add_def split: option.splits)

end

locale ordered_map = string_map empty put del get
  for empty :: 'm and put :: "string \<Rightarrow> 'v \<Rightarrow> 'm \<Rightarrow> 'm" and del get +
  fixes ok :: "'m \<Rightarrow> bool"
    and items :: "'m \<Rightarrow> (string \<times> 'v) list"
  assumes ok_empty: "ok empty"
    and ok_put: "ok m \<Longrightarrow> ok (put k v m)"
    and ok_del: "ok m \<Longrightarrow> ok (del k m)"
    and get_items: "get m k = map_of (items m) k"
    and items_sorted: "ok m \<Longrightarrow> sorted_wrt (<) (map fst (items m))"
    and items_inj: "items m = items m' \<Longrightarrow> m = m'"
begin

lemma items_distinct: "ok m \<Longrightarrow> distinct (map fst (items m))"
  using items_sorted strict_sorted_iff by blast

lemma in_items_iff: "ok m \<Longrightarrow> (k, v) \<in> set (items m) \<longleftrightarrow> get m k = Some v"
  by (simp add: get_items items_distinct)

text \<open>A map is determined by its lookups.\<close>

lemma map_eqI:
  assumes "ok m" "ok m'" and eq: "\<And>k. get m k = get m' k"
  shows "m = m'"
proof -
  have sets: "set (items m) = set (items m')"
    using assms in_items_iff by (metis subsetI subset_antisym surj_pair)
  have inj: "inj_on fst (set (items m) \<union> set (items m'))"
    using items_distinct [OF assms(1)] sets by (simp add: distinct_map)
  have "items m = items m'"
    using inj _ items_distinct [OF assms(1)] _ items_distinct [OF assms(2)] sets
    by (rule map_sorted_distinct_set_unique)
       (use items_sorted assms(1,2) strict_sorted_iff in blast)+
  then show ?thesis by (rule items_inj)
qed

end

section \<open>The sorted association list\<close>

type_synonym 'v smap = "(string \<times> 'v) list"

definition smap_empty :: "'v smap" where
  "smap_empty = []"

fun smap_put :: "string \<Rightarrow> 'v \<Rightarrow> 'v smap \<Rightarrow> 'v smap" where
  "smap_put k v [] = [(k, v)]"
| "smap_put k v ((k', v') # m) =
     (if k = k' then (k, v) # m
      else if k < k' then (k, v) # (k', v') # m
      else (k', v') # smap_put k v m)"

fun smap_del :: "string \<Rightarrow> 'v smap \<Rightarrow> 'v smap" where
  "smap_del k [] = []"
| "smap_del k ((k', v') # m) = (if k = k' then smap_del k m else (k', v') # smap_del k m)"

definition smap_get :: "'v smap \<Rightarrow> string \<Rightarrow> 'v option" where
  "smap_get m k = map_of m k"

definition smap_has :: "'v smap \<Rightarrow> string \<Rightarrow> bool" where
  "smap_has m k \<longleftrightarrow> smap_get m k \<noteq> None"

definition smap_ok :: "'v smap \<Rightarrow> bool" where
  "smap_ok m \<longleftrightarrow> sorted_wrt (<) (map fst m)"

lemma smap_get_Nil [simp, map_simps]: "smap_get [] k = None"
  by (simp add: smap_get_def)

lemma smap_get_Cons [map_simps]:
  "smap_get ((k', v) # m) k = (if k' = k then Some v else smap_get m k)"
  by (simp add: smap_get_def)

lemma smap_get_put [simp, map_simps]:
  "smap_get (smap_put k v m) k' = (if k = k' then Some v else smap_get m k')"
  by (induction k v m rule: smap_put.induct) (auto simp: smap_get_def)

lemma smap_get_del [simp, map_simps]:
  "smap_get (smap_del k m) k' = (if k = k' then None else smap_get m k')"
  by (induction k m rule: smap_del.induct) (auto simp: smap_get_def)

text \<open>The same, with the looked-up key on the left, for unfolding long chains of updates.\<close>

lemma smap_get_put2: "smap_get (smap_put k v m) l = (if l = k then Some v else smap_get m l)"
  by auto

lemma smap_get_del2: "smap_get (smap_del k m) l = (if l = k then None else smap_get m l)"
  by auto

lemma smap_ok_sorted: "smap_ok m \<Longrightarrow> sorted_wrt (<) (map fst m)"
  by (simp add: smap_ok_def)

lemma set_smap_put: "set (smap_put k v m) \<subseteq> insert (k, v) (set m)"
  by (induction k v m rule: smap_put.induct) auto

lemma fst_set_smap_put: "fst ` set (smap_put k v m) = insert k (fst ` set m)"
  by (induction k v m rule: smap_put.induct) auto

lemma set_smap_del: "set (smap_del k m) \<subseteq> set m"
  by (induction k m rule: smap_del.induct) auto

lemma smap_ok_Nil [simp]: "smap_ok []"
  by (simp add: smap_ok_def)

lemma smap_ok_put: "smap_ok m \<Longrightarrow> smap_ok (smap_put k v m)"
proof (induction k v m rule: smap_put.induct)
  case (1 k v)
  show ?case by (simp add: smap_ok_def)
next
  case (2 k v k' v' m)
  have IH: "smap_ok (smap_put k v m)" if "k' < k"
    using 2 that by (simp add: smap_ok_def)
  have "k' < x" if "k' < k" "x \<in> fst ` set (smap_put k v m)" for x
    using that 2(2) by (auto simp: fst_set_smap_put smap_ok_def)
  with IH 2(2) show ?case
    by (auto simp: smap_ok_def)
qed

lemma smap_ok_del: "smap_ok m \<Longrightarrow> smap_ok (smap_del k m)"
  unfolding smap_ok_def
proof (induction k m rule: smap_del.induct)
  case (2 k k' v' m)
  have "k' < fst p" if "p \<in> set (smap_del k m)" for p
    using that set_smap_del [of k m] 2(3) by auto
  with 2 show ?case by auto
qed simp

interpretation smap: ordered_map smap_empty smap_put smap_del smap_get smap_ok "\<lambda>m. m"
  by unfold_locales
     (simp_all add: smap_empty_def smap_ok_Nil smap_ok_put smap_ok_del smap_ok_sorted,
      simp add: smap_get_def)

lemmas smap_eqI = smap.map_eqI

lemma smap_has_put [simp, map_simps]: "smap_has (smap_put k v m) k' \<longleftrightarrow> k = k' \<or> smap_has m k'"
  by (simp add: smap_has_def)

lemma smap_has_del [simp, map_simps]: "smap_has (smap_del k m) k' \<longleftrightarrow> k \<noteq> k' \<and> smap_has m k'"
  by (simp add: smap_has_def)

text \<open>Building a map from entries, as a brace initializer does.\<close>

definition smap_of :: "(string \<times> 'v) list \<Rightarrow> 'v smap" where
  "smap_of kvs = fold (\<lambda>(k, v). smap_put k v) kvs []"

lemma smap_ok_of: "smap_ok (smap_of kvs)"
proof -
  have "smap_ok (fold (\<lambda>(k, v). smap_put k v) kvs m)" if "smap_ok m" for m
    using that by (induction kvs arbitrary: m) (auto simp: smap_ok_put)
  then show ?thesis by (simp add: smap_of_def)
qed

lemma smap_get_of: "smap_get (smap_of kvs) k = map_of (rev kvs) k"
  using smap.get_fold_put [of kvs "[]" k]
  by (simp add: smap_of_def split: option.splits)

text \<open>Mapping the values keeps the keys and their order.\<close>

abbreviation smap_map :: "('v \<Rightarrow> 'w) \<Rightarrow> 'v smap \<Rightarrow> 'w smap" where
  "smap_map f m \<equiv> map (\<lambda>(k, v). (k, f v)) m"

lemma smap_get_map [simp, map_simps]: "smap_get (smap_map f m) k = map_option f (smap_get m k)"
  by (induction m) (auto simp: smap_get_def)

lemma smap_ok_map [simp]: "smap_ok (smap_map f m) = smap_ok m"
proof -
  have "map fst (smap_map f m) = map fst m" by (induction m) auto
  then show ?thesis by (simp only: smap_ok_def)
qed

lemma smap_put_map: "smap_map f (smap_put k v m) = smap_put k (f v) (smap_map f m)"
  by (induction k v m rule: smap_put.induct) auto

text \<open>Putting the entries of a sorted map one by one rebuilds it.\<close>

lemma smap_of_self: "smap_ok m \<Longrightarrow> smap_of m = m"
proof (rule smap_eqI)
  assume m: "smap_ok m"
  show "smap_ok (smap_of m)" by (rule smap_ok_of)
  show "smap_ok m" by (rule m)
  have d: "distinct (map fst m)" by (rule smap.items_distinct [OF m])
  have "map_of (rev m) = map_of m"
    using d by (intro map_of_inject_set [THEN iffD2]) (simp_all add: rev_map [symmetric])
  then show "smap_get (smap_of m) k = smap_get m k" for k
    unfolding smap_get_of by (simp add: smap_get_def)
qed

text \<open>Building a map adds no entries and loses no keys.\<close>

lemma set_smap_of: "set (smap_of kvs) \<subseteq> set kvs"
proof -
  have "set (fold (\<lambda>(k, v). smap_put k v) kvs m) \<subseteq> set kvs \<union> set m" for m
    by (induction kvs arbitrary: m) (use set_smap_put in fastforce)+
  from this [of "[]"] show ?thesis by (simp add: smap_of_def)
qed

lemma smap_has_of [simp]: "smap_has (smap_of kvs) k \<longleftrightarrow> smap_has kvs k"
proof -
  have "map_of (rev kvs) k = None \<longleftrightarrow> map_of kvs k = None" by (simp add: map_of_eq_None_iff)
  then show ?thesis by (simp add: smap_has_def smap_get_of) (simp add: smap_get_def)
qed

lemma smap_of_Nil_iff [simp]: "smap_of kvs = [] \<longleftrightarrow> kvs = []"
proof
  assume "smap_of kvs = []"
  then have "\<not> smap_has kvs k" for k using smap_has_of [of kvs k] by (simp add: smap_has_def smap_get_def)
  then have "map_of kvs (fst (hd kvs)) = None" by (simp add: smap_has_def smap_get_def)
  then show "kvs = []" by (cases kvs) auto
qed (simp add: smap_of_def)

text \<open>Mapping the values commutes with building the map.\<close>

lemma smap_of_map: "smap_of (smap_map f m) = smap_map f (smap_of m)"
proof -
  have "fold (\<lambda>(k, v). smap_put k v) (smap_map f m) (smap_map f acc) =
      smap_map f (fold (\<lambda>(k, v). smap_put k v) m acc)" for acc
    by (induction m arbitrary: acc) (auto simp flip: smap_put_map)
  from this [of "[]"] show ?thesis by (simp add: smap_of_def)
qed

lemma smap_of_smap_of [simp]: "smap_of (smap_of m) = smap_of m"
  by (rule smap_of_self, rule smap_ok_of)

end
