(* ===== verification/Json.thy ===== *)
theory Json
  imports StdMap
begin

text \<open>
  The JSON values the code handles and the environment it runs in.

  nlohmann::json and nkeys are not part of the repository. Their values appear here as
  data: a JSON value is one of the kinds nlohmann::json documents (null, boolean, unsigned and
  signed integer of 64 bits, float, string, array, object in a \<open>std::map\<close>), with the documented
  exceptions of its accessors (302 for a wrong type, 306 for \<open>value()\<close> on a non-object). Parsing and
  printing JSON, every key check and every key operation are parameters: the record \<open>lib\<close>
  holds them, and every definition that uses one of them takes it as an argument.

  The strict field readers of \<^verbatim>\<open>src/jwt_utils.cpp\<close> (\<open>intField\<close>, \<open>uintField\<close>, \<open>arrayField\<close>,
  \<open>objectField\<close>) are translated from their source.
\<close>

section \<open>Values\<close>

text \<open>A float's payload is never looked at by the code; it is kept as its 64 bits.\<close>

datatype json =
    JNull
  | JBool bool
  | JUnsigned uint64
  | JInteger int64
  | JFloat "64 word"
  | JString string
  | JArray "json list"
  | JObject "(string \<times> json) list"

abbreviation type_error :: "nat \<Rightarrow> exn" where
  "type_error n \<equiv> JsonException (Json_exn n)"

fun is_object :: "json \<Rightarrow> bool" where
  "is_object (JObject _) = True"
| "is_object _ = False"

fun is_string :: "json \<Rightarrow> bool" where
  "is_string (JString _) = True"
| "is_string _ = False"

text \<open>\<open>j.find(k)\<close>; nothing for a value that is not an object.\<close>

fun jget :: "json \<Rightarrow> string \<Rightarrow> json option" where
  "jget (JObject o') k = smap_get o' k"
| "jget _ k = None"

definition contains :: "json \<Rightarrow> string \<Rightarrow> bool" where
  "contains j k \<longleftrightarrow> jget j k \<noteq> None"

fun get_string :: "json \<Rightarrow> exn + string" where
  "get_string (JString s) = Inr s"
| "get_string _ = Inl (type_error 302)"

fun get_bool :: "json \<Rightarrow> exn + bool" where
  "get_bool (JBool b) = Inr b"
| "get_bool _ = Inl (type_error 302)"

fun get_strings :: "json \<Rightarrow> exn + string list" where
  "get_strings (JArray xs) = mapE get_string xs"
| "get_strings _ = Inl (type_error 302)"

fun get_string_lists :: "json \<Rightarrow> exn + string list list" where
  "get_string_lists (JArray xs) = mapE get_strings xs"
| "get_string_lists _ = Inl (type_error 302)"

text \<open>\<open>j.value(k, d)\<close>.\<close>

fun value_string :: "json \<Rightarrow> string \<Rightarrow> string \<Rightarrow> exn + string" where
  "value_string (JObject o') k d =
     (case smap_get o' k of None \<Rightarrow> Inr d | Some v \<Rightarrow> get_string v)"
| "value_string _ k d = Inl (type_error 306)"

fun value_bool :: "json \<Rightarrow> string \<Rightarrow> bool \<Rightarrow> exn + bool" where
  "value_bool (JObject o') k d =
     (case smap_get o' k of None \<Rightarrow> Inr d | Some v \<Rightarrow> get_bool v)"
| "value_bool _ k d = Inl (type_error 306)"

abbreviation json_strings :: "string list \<Rightarrow> json" where
  "json_strings ss \<equiv> JArray (map JString ss)"

text \<open>
  What a value looks like after it was printed and parsed: nlohmann's parser stores an
  integer that is not negative as unsigned, whatever it was before.
\<close>

fun json_norm :: "json \<Rightarrow> json" where
  "json_norm (JInteger n) = (if 0 \<le> sint n then JUnsigned n else JInteger n)"
| "json_norm (JArray xs) = JArray (map json_norm xs)"
| "json_norm (JObject o') = JObject (map (\<lambda>(k, v). (k, json_norm v)) o')"
| "json_norm j = j"

section \<open>The libraries under the code\<close>

text \<open>A key pair of nkeys: its public key text, its signing and its verifying method.\<close>

record keypair =
  publicString :: string
  kp_sign :: "byte list \<Rightarrow> exn + byte list"
  kp_verify :: "byte list \<Rightarrow> byte list \<Rightarrow> bool"

record curvepair =
  curve_open :: "byte list \<Rightarrow> string \<Rightarrow> exn + byte list"
  curve_seal :: "byte list \<Rightarrow> string \<Rightarrow> exn + byte list"

record lib =
  json_parse :: "string \<Rightarrow> json_exn + json"
  json_dump :: "json \<Rightarrow> json_exn + string"
  json_what :: "json_exn \<Rightarrow> string"
  IsValidPublicOperatorKey :: "string \<Rightarrow> bool"
  IsValidPublicAccountKey :: "string \<Rightarrow> bool"
  IsValidPublicUserKey :: "string \<Rightarrow> bool"
  IsValidPublicServerKey :: "string \<Rightarrow> bool"
  IsValidPublicCurveKey :: "string \<Rightarrow> bool"
  IsValidPublicKey :: "string \<Rightarrow> bool"
  FromPublicKey :: "string \<Rightarrow> exn + keypair"
  FromSeed :: "string \<Rightarrow> exn + keypair"
  FromCurveSeed :: "string \<Rightarrow> exn + curvepair"
  ParseDecoratedJWT :: "string \<Rightarrow> exn + string"
  ParseDecoratedNKey :: "string \<Rightarrow> exn + keypair"
  ParseDecoratedUserNKey :: "string \<Rightarrow> exn + keypair"
  inet_pton :: "bool \<Rightarrow> string \<Rightarrow> bool"
  stoi_what :: string

text \<open>\<open>e.what()\<close>; the text of a \<open>std::out_of_range\<close> is the C++ library's choice.\<close>

fun exn_what :: "lib \<Rightarrow> exn \<Rightarrow> string" where
  "exn_what L (MalformedTokenError m) = m"
| "exn_what L (InvalidClaimsError m) = m"
| "exn_what L (SignatureError m) = m"
| "exn_what L (NkeysError m) = m"
| "exn_what L (JsonException e) = json_what L e"
| "exn_what L StdOutOfRange = stoi_what L"
| "exn_what L (RuntimeError m) = m"
| "exn_what L (UndefinedBehaviour m) = m"

text \<open>\<open>json::parse\<close> and \<open>dump\<close> as steps that may throw.\<close>

definition parse_json :: "lib \<Rightarrow> string \<Rightarrow> exn + json" where
  "parse_json L s = (case json_parse L s of Inl e \<Rightarrow> Inl (JsonException e) | Inr j \<Rightarrow> Inr j)"

definition dump_json :: "lib \<Rightarrow> json \<Rightarrow> exn + string" where
  "dump_json L j = (case json_dump L j of Inl e \<Rightarrow> Inl (JsonException e) | Inr s \<Rightarrow> Inr s)"

text \<open>
  The one thing the code relies on in the JSON library: what it prints for a value parses
  back to that value.
\<close>

definition json_faithful :: "lib \<Rightarrow> json \<Rightarrow> bool" where
  "json_faithful L j \<longleftrightarrow>
     (case json_dump L j of Inl _ \<Rightarrow> True | Inr s \<Rightarrow> json_parse L s = Inr (json_norm j))"

lemma dump_json_Inr_iff [simp]: "dump_json L j = Inr s \<longleftrightarrow> json_dump L j = Inr s"
  by (auto simp: dump_json_def split: sum.splits)

lemma parse_json_Inr_iff [simp]: "parse_json L s = Inr j \<longleftrightarrow> json_parse L s = Inr j"
  by (auto simp: parse_json_def split: sum.splits)

lemma json_faithfulD:
  "json_faithful L j \<Longrightarrow> json_dump L j = Inr s \<Longrightarrow> json_parse L s = Inr (json_norm j)"
  by (simp add: json_faithful_def)

text \<open>\<open>guardJson\<close>: a JSON exception inside a decoder body becomes a malformed token.\<close>

definition guardJson :: "lib \<Rightarrow> exn + 'a \<Rightarrow> exn + 'a" where
  "guardJson L m =
     (case m of
        Inl (JsonException e) \<Rightarrow> Inl (MalformedTokenError (''Invalid JWT payload: '' @ json_what L e))
      | _ \<Rightarrow> m)"

lemma guardJson_Inr [simp, err_simps]: "guardJson L (Inr x) = Inr x"
  by (simp add: guardJson_def)

lemma guardJson_Inr_iff [simp]: "guardJson L m = Inr x \<longleftrightarrow> m = Inr x"
  by (auto simp: guardJson_def split: sum.splits exn.splits)

lemma guardJson_not_json: "guardJson L m \<noteq> Inl (JsonException e)"
  by (auto simp: guardJson_def split: sum.splits exn.splits)

section \<open>Strict field readers\<close>

definition field_what :: "string \<Rightarrow> string \<Rightarrow> string" where
  "field_what key problem = ''field '' @ squoted key @ '' '' @ problem"

fun intValue :: "json \<Rightarrow> string \<Rightarrow> exn + int64" where
  "intValue (JUnsigned u) what =
     (if uint u > 2 ^ 63 - 1 then Inl (MalformedTokenError (field_what what ''is out of range''))
      else Inr u)"
| "intValue (JInteger i) what = Inr i"
| "intValue v what = Inl (MalformedTokenError (field_what what ''must be an integer''))"

definition intField :: "json \<Rightarrow> string \<Rightarrow> int64 \<Rightarrow> exn + int64" where
  "intField j key def =
     (case jget j key of
        None \<Rightarrow> Inr def
      | Some JNull \<Rightarrow> Inr def
      | Some v \<Rightarrow> intValue v key)"

definition uintField :: "json \<Rightarrow> string \<Rightarrow> uint64 \<Rightarrow> uint64 \<Rightarrow> exn + uint64" where
  "uintField j key def max' =
     (let bad = Inl (MalformedTokenError (field_what key ''must be a non-negative integer''));
          checked = (\<lambda>u. if u > max'
                         then Inl (MalformedTokenError (field_what key ''is out of range''))
                         else Inr u)
      in case jget j key of
        None \<Rightarrow> Inr def
      | Some JNull \<Rightarrow> Inr def
      | Some (JUnsigned u) \<Rightarrow> checked u
      | Some (JInteger i) \<Rightarrow> if sint i < 0 then bad else checked i
      | Some _ \<Rightarrow> bad)"

text \<open>A pointer result: \<open>None\<close> is \<open>nullptr\<close>.\<close>

definition arrayField :: "json \<Rightarrow> string \<Rightarrow> exn + json list option" where
  "arrayField j key =
     (case jget j key of
        None \<Rightarrow> Inr None
      | Some JNull \<Rightarrow> Inr None
      | Some (JArray xs) \<Rightarrow> Inr (Some xs)
      | Some _ \<Rightarrow> Inl (MalformedTokenError (field_what key ''must be an array'')))"

definition objectField :: "json \<Rightarrow> string \<Rightarrow> exn + json option" where
  "objectField j key =
     (case jget j key of
        None \<Rightarrow> Inr None
      | Some JNull \<Rightarrow> Inr None
      | Some (JObject o') \<Rightarrow> Inr (Some (JObject o'))
      | Some _ \<Rightarrow> Inl (MalformedTokenError (field_what key ''must be an object'')))"

text \<open>\<open>if (const auto* a = arrayField(j, key)) x = a->get<std::vector<std::string>>();\<close>\<close>

definition stringsField :: "json \<Rightarrow> string \<Rightarrow> exn + string list" where
  "stringsField j key =
     bindE (arrayField j key) (\<lambda>a.
       case a of None \<Rightarrow> Inr [] | Some xs \<Rightarrow> mapE get_string xs)"

subsection \<open>The readers accept exactly the integers of their type\<close>

lemma sint_uint64_cases:
  "sint (u :: int64) = uint u \<and> uint u < 2 ^ 63 \<or> sint u = uint u - 2 ^ 64 \<and> 2 ^ 63 \<le> uint u"
proof -
  have "take_bit 64 (uint u) = uint u"
    using uint_bounded [of u] by (simp add: take_bit_int_eq_self)
  then have "sint u = uint u - 2 ^ 64 * of_bool (bit (uint u) 63)"
    by (simp add: sint_uint signed_take_bit_eq_take_bit_minus)
  moreover have "- (2 ^ 63) \<le> sint u" and "sint u < 2 ^ 63"
    using sint_ge [of u] sint_lt [of u] by simp_all
  moreover have "0 \<le> uint u" and "uint u < 2 ^ 64"
    using uint_bounded [of u] by simp_all
  ultimately show ?thesis by (cases "bit (uint u) 63") auto
qed

lemma sint_nonneg_iff: "0 \<le> sint (u :: int64) \<longleftrightarrow> uint u \<le> 2 ^ 63 - 1"
  using sint_uint64_cases [of u] uint_bounded [of u] by auto

lemma uint_sint_nonneg: "0 \<le> sint (u :: int64) \<Longrightarrow> uint u = sint u"
  using sint_uint64_cases [of u] uint_bounded [of u] by auto

lemma intValue_cases:
  "intValue v what = Inr n \<longleftrightarrow> v = JInteger n \<or> v = JUnsigned n \<and> 0 \<le> sint n"
  by (cases v) (auto simp: sint_nonneg_iff)

text \<open>What was written as an integer is read back as that integer.\<close>

lemma intValue_norm [simp, wire_simps]: "intValue (json_norm (JInteger n)) what = Inr n"
  by (simp add: sint_nonneg_iff)

lemma jget_norm [simp, wire_simps]: "jget (json_norm j) k = map_option json_norm (jget j k)"
  by (cases j) auto

lemma contains_norm [simp, wire_simps]: "contains (json_norm j) k = contains j k"
  by (simp add: contains_def)

lemma intField_norm [wire_simps]:
  "intField (json_norm j) k d =
     (case jget j k of
        None \<Rightarrow> Inr d
      | Some JNull \<Rightarrow> Inr d
      | Some v \<Rightarrow> intValue (json_norm v) k)"
  by (auto simp: intField_def split: option.splits json.splits)

lemma intField_written:
  "jget j k = Some (JInteger n) \<Longrightarrow> intField (json_norm j) k d = Inr n"
  by (simp add: intField_norm del: json_norm.simps)

lemma intField_absent: "jget j k = None \<Longrightarrow> intField (json_norm j) k d = Inr d"
  by (simp add: intField_norm)

lemma get_string_norm [simp, wire_simps]: "get_string (json_norm v) = get_string v"
  by (cases v) auto

lemma get_bool_norm [simp, wire_simps]: "get_bool (json_norm v) = get_bool v"
  by (cases v) auto

lemma mapE_get_string_norm [simp]: "mapE get_string (map json_norm xs) = mapE get_string xs"
  by simp

lemma get_strings_norm [simp, wire_simps]: "get_strings (json_norm v) = get_strings v"
  by (cases v) auto

lemma value_string_norm [simp, wire_simps]: "value_string (json_norm j) k d = value_string j k d"
  by (cases j) (auto split: option.splits)

lemma value_bool_norm [simp, wire_simps]: "value_bool (json_norm j) k d = value_bool j k d"
  by (cases j) (auto split: option.splits)

lemma arrayField_norm [wire_simps]:
  "arrayField (json_norm j) k =
     (case arrayField j k of Inl e \<Rightarrow> Inl e | Inr a \<Rightarrow> Inr (map_option (map json_norm) a))"
  by (auto simp: arrayField_def split: option.splits json.splits)

lemma objectField_norm [wire_simps]:
  "objectField (json_norm j) k =
     (case objectField j k of Inl e \<Rightarrow> Inl e | Inr a \<Rightarrow> Inr (map_option json_norm a))"
  by (auto simp: objectField_def split: option.splits json.splits)

lemma stringsField_norm [simp, wire_simps]: "stringsField (json_norm j) k = stringsField j k"
  by (cases "arrayField j k") (auto simp: stringsField_def arrayField_norm split: option.splits)

lemma mapE_get_string_json [simp, wire_simps]: "mapE get_string (map JString ss) = Inr ss"
  by (induction ss) auto

lemma get_strings_json [wire_simps]: "get_strings (json_strings ss) = Inr ss"
  by simp

lemma get_string_lists_json [wire_simps]:
  "get_string_lists (JArray (map json_strings sss)) = Inr sss"
  by (induction sss) auto

text \<open>The loop \<open>for (const auto& [k, v] : o->items()) m[k] = read(v);\<close>\<close>

definition readItems :: "(json \<Rightarrow> exn + 'a) \<Rightarrow> json smap \<Rightarrow> exn + 'a smap" where
  "readItems rd items = foldE (\<lambda>m (k, v). bindE (rd v) (\<lambda>x. Inr (smap_put k x m))) [] items"

lemma readItems_map:
  assumes "\<And>k v. (k, v) \<in> set m \<Longrightarrow> rd (f v) = Inr (g v)"
  shows "readItems rd (smap_map f m) = Inr (smap_of (smap_map g m))"
proof -
  have "foldE (\<lambda>m (k, v). bindE (rd v) (\<lambda>x. Inr (smap_put k x m))) acc (smap_map f m) =
      Inr (fold (\<lambda>(k, v). smap_put k v) (smap_map g m) acc)" for acc
    using assms
  proof (induction m arbitrary: acc)
    case (Cons p m)
    obtain k v where p: "p = (k, v)" by (cases p)
    have "rd (f v) = Inr (g v)" by (rule Cons.prems [of k]) (simp add: p)
    have "rd (f v') = Inr (g v')" if "(k', v') \<in> set m" for k' v'
      by (rule Cons.prems [of k']) (simp add: that)
    from Cons.IH [OF this] show ?case using \<open>rd (f v) = Inr (g v)\<close> p by simp
  qed simp
  then show ?thesis by (simp add: readItems_def smap_of_def)
qed

section \<open>The interface of a JSON codec\<close>

text \<open>
  A writer and a reader of one kind of value, across printing and parsing. Reading back gives a
  normal form of what was written (omitted fields take their defaults); a normal form is read back as
  it is.
\<close>

locale json_codec =
  fixes wr :: "'a \<Rightarrow> json"
    and rd :: "json \<Rightarrow> exn + 'a"
    and nf :: "'a \<Rightarrow> 'a"
  assumes reread: "rd (json_norm (wr x)) = Inr (nf x)"
    and stable: "nf (nf x) = nf x"
begin

lemma second_pass: "rd (json_norm (wr x)) = Inr y \<Longrightarrow> rd (json_norm (wr y)) = Inr y"
  by (auto simp: reread stable)

lemma reread_list: "mapE rd (map json_norm (map wr xs)) = Inr (map nf xs)"
  by (induction xs) (simp_all add: reread)

text \<open>A map of such values, written as an object.\<close>

lemma reread_items:
  "readItems rd (smap_map json_norm (smap_of (smap_map wr m))) = Inr (smap_of (smap_map nf m))"
proof -
  have "readItems rd (smap_map (\<lambda>x. json_norm (wr x)) (smap_of m)) = Inr (smap_of (smap_map nf (smap_of m)))"
    by (rule readItems_map) (rule reread)
  then show ?thesis unfolding smap_of_map by (simp add: smap_of_map [symmetric] comp_def case_prod_unfold)
qed

end

end
