(* ===== verification/Base64Url.thy ===== *)
theory Base64Url
  imports Json
begin

text \<open>
  Unpadded base64url (\<^verbatim>\<open>src/base64url.cpp\<close>): the lookup table, the encoder and the decoder, on
  the 32-bit values the code computes with. The code walks the input with an index; here the loop
  is the recursion on what is left of the input.

  The lemmas show that decoding inverts encoding, exactly which texts are refused and with
  which error, the lengths, and which texts are \<^emph>\<open>not\<close> the encoding of what they decode to
  (the decoder ignores the unused low bits of the last character).
\<close>

section \<open>The code\<close>

definition alphabet :: string where
  "alphabet = ''ABCDEFGHIJKLMNOPQRSTUVWXYZabcdefghijklmnopqrstuvwxyz0123456789-_''"

definition createDecodeLookup :: "byte list" where
  "createDecodeLookup =
     fold (\<lambda>i lookup. lookup[of_char (alphabet ! i) := word_of_nat i]) [0..<64] (replicate 256 0xFF)"

definition decode_lookup :: "char \<Rightarrow> byte" where
  "decode_lookup c = createDecodeLookup ! of_char c"

definition triple :: "byte \<Rightarrow> byte \<Rightarrow> byte \<Rightarrow> uint32" where
  "triple a b c = push_bit 16 (ucast a) OR push_bit 8 (ucast b) OR ucast c"

definition quad :: "byte \<Rightarrow> byte \<Rightarrow> byte \<Rightarrow> byte \<Rightarrow> uint32" where
  "quad a b c d =
     push_bit 18 (ucast a) OR push_bit 12 (ucast b) OR push_bit 6 (ucast c) OR ucast d"

definition sextet_char :: "nat \<Rightarrow> uint32 \<Rightarrow> char" where
  "sextet_char n w = alphabet ! unat (drop_bit n w AND 0x3F)"

definition octet :: "nat \<Rightarrow> uint32 \<Rightarrow> byte" where
  "octet n w = ucast (drop_bit n w AND 0xFF)"

fun base64url_encode :: "byte list \<Rightarrow> string" where
  "base64url_encode [] = []"
| "base64url_encode [a] =
     (let remaining = push_bit 16 (ucast a)
      in [sextet_char 18 remaining, sextet_char 12 remaining])"
| "base64url_encode [a, b] =
     (let remaining = push_bit 16 (ucast a) OR push_bit 8 (ucast b)
      in [sextet_char 18 remaining, sextet_char 12 remaining, sextet_char 6 remaining])"
| "base64url_encode (a # b # c # rest) =
     (let t = triple a b c
      in sextet_char 18 t # sextet_char 12 t # sextet_char 6 t # sextet_char 0 t
         # base64url_encode rest)"

abbreviation bad_character :: exn where
  "bad_character \<equiv> MalformedTokenError ''Invalid Base64 URL character in input''"

abbreviation bad_length :: exn where
  "bad_length \<equiv> MalformedTokenError ''Invalid Base64 URL input length''"

fun base64url_decode :: "string \<Rightarrow> exn + byte list" where
  "base64url_decode [] = Inr []"
| "base64url_decode [w] = Inl bad_length"
| "base64url_decode [w, x] =
     (let a = decode_lookup w; b = decode_lookup x
      in if a = 0xFF \<or> b = 0xFF then Inl bad_character
         else Inr [octet 16 (push_bit 18 (ucast a) OR push_bit 12 (ucast b))])"
| "base64url_decode [w, x, y] =
     (let a = decode_lookup w; b = decode_lookup x; c = decode_lookup y
      in if a = 0xFF \<or> b = 0xFF then Inl bad_character
         else let partial = push_bit 18 (ucast a) OR push_bit 12 (ucast b)
              in if c = 0xFF then Inl bad_character
                 else Inr [octet 16 partial, octet 8 (partial OR push_bit 6 (ucast c))])"
| "base64url_decode (w # x # y # z # rest) =
     (let a = decode_lookup w; b = decode_lookup x; c = decode_lookup y; d = decode_lookup z
      in if a = 0xFF \<or> b = 0xFF \<or> c = 0xFF \<or> d = 0xFF then Inl bad_character
         else let q = quad a b c d
              in bindE (base64url_decode rest)
                   (\<lambda>bs. Inr (octet 16 q # octet 8 q # octet 0 q # bs)))"

section \<open>The lookup table inverts the alphabet\<close>

lemma fold_update_length [simp]:
  "length (fold (\<lambda>i t. t[f i := g i]) is t) = length t"
  by (induction "is" arbitrary: t) auto

lemma fold_update_other:
  "k \<notin> f ` set is \<Longrightarrow> fold (\<lambda>i t. t[f i := g i]) is t ! k = t ! k"
  by (induction "is" arbitrary: t) auto

lemma fold_update_at:
  "i \<in> set is \<Longrightarrow> inj_on f (set is) \<Longrightarrow> f i < length t \<Longrightarrow>
     fold (\<lambda>i t. t[f i := g i]) is t ! f i = g i"
proof (induction "is" arbitrary: t)
  case (Cons j js)
  show ?case
  proof (cases "i \<in> set js")
    case True
    with Cons show ?thesis by simp
  next
    case False
    with Cons.prems have "i = j" and "f j \<notin> f ` set js"
      by (auto simp: inj_on_def)
    with Cons.prems show ?thesis by (simp add: fold_update_other)
  qed
qed simp

lemma length_alphabet [simp]: "length alphabet = 64"
  by (simp add: alphabet_def)

lemma distinct_alphabet: "distinct alphabet"
  by (simp add: alphabet_def)

lemma dot_not_in_alphabet: "CHR ''.'' \<notin> set alphabet"
  by (simp add: alphabet_def)

lemma pad_not_in_alphabet: "CHR ''='' \<notin> set alphabet"
  by (simp add: alphabet_def)

lemma inj_alphabet: "inj_on (\<lambda>i. of_char (alphabet ! i) :: nat) (set [0..<64])"
  using distinct_alphabet by (auto simp: inj_on_def nth_eq_iff_index_eq)

lemma decode_lookup_alphabet [simp]: "v < 64 \<Longrightarrow> decode_lookup (alphabet ! v) = word_of_nat v"
  unfolding decode_lookup_def createDecodeLookup_def
  by (rule fold_update_at [OF _ inj_alphabet]) simp_all

lemma decode_lookup_other: "c \<notin> set alphabet \<Longrightarrow> decode_lookup c = 0xFF"
proof -
  assume c: "c \<notin> set alphabet"
  have "of_char c \<notin> (\<lambda>i. of_char (alphabet ! i) :: nat) ` set [0..<64]"
  proof
    assume "of_char c \<in> (\<lambda>i. of_char (alphabet ! i) :: nat) ` set [0..<64]"
    then obtain i where "i < 64" and "c = alphabet ! i" by auto
    with c nth_mem [of i alphabet] show False by simp
  qed
  then show ?thesis
    by (simp add: decode_lookup_def createDecodeLookup_def fold_update_other)
qed

lemma word_of_nat_64_neq: "v < 64 \<Longrightarrow> (word_of_nat v :: byte) \<noteq> 0xFF"
proof
  assume "v < 64" and "(word_of_nat v :: byte) = 0xFF"
  then have "unat (word_of_nat v :: byte) = unat (0xFF :: byte)" by simp
  with \<open>v < 64\<close> show False by (simp add: unat_of_nat)
qed

lemma decode_lookup_cases:
  obtains (sextet) v where "v < 64" "c = alphabet ! v" "decode_lookup c = word_of_nat v"
        "decode_lookup c \<noteq> 0xFF" "c \<in> set alphabet"
    | (invalid) "c \<notin> set alphabet" "decode_lookup c = 0xFF"
proof (cases "c \<in> set alphabet")
  case True
  then obtain v where "v < 64" "c = alphabet ! v" by (auto simp: in_set_conv_nth)
  with True word_of_nat_64_neq show ?thesis by (intro sextet) simp_all
next
  case False
  then show ?thesis by (intro invalid decode_lookup_other)
qed

lemma decode_lookup_invalid_iff: "decode_lookup c = 0xFF \<longleftrightarrow> c \<notin> set alphabet"
  by (cases c rule: decode_lookup_cases) auto

section \<open>Bits of a group\<close>

lemma sextet_mask: "(x :: uint32) AND 0x3F = take_bit 6 x"
  by (simp add: take_bit_eq_mask mask_eq_exp_minus_1)

lemma octet_bits: "octet n w = ucast (take_bit 8 (drop_bit n w))"
  by (simp add: octet_def take_bit_eq_mask mask_eq_exp_minus_1)

lemma unat_sextet_less: "unat (drop_bit n w AND 0x3F :: uint32) < 64"
proof -
  have "unat (take_bit 6 (drop_bit n w) :: uint32) = take_bit 6 (unat (drop_bit n w))"
    by (simp add: unsigned_take_bit_eq)
  also have "\<dots> < 2 ^ 6" by (rule take_bit_nat_less_exp)
  finally show ?thesis by (simp add: sextet_mask)
qed

text \<open>What the decoder's lookup gives for a character the encoder wrote.\<close>

lemma lookup_sextet_char [simp]:
  "decode_lookup (sextet_char n w) = ucast (take_bit 6 (drop_bit n w))"
  and lookup_sextet_valid [simp]: "decode_lookup (sextet_char n w) \<noteq> 0xFF"
proof -
  let ?v = "unat (drop_bit n w AND 0x3F)"
  have "decode_lookup (sextet_char n w) = word_of_nat ?v"
    unfolding sextet_char_def by (rule decode_lookup_alphabet) (rule unat_sextet_less)
  also have "\<dots> = ucast (take_bit 6 (drop_bit n w))"
    by (simp add: sextet_mask)
  finally show "decode_lookup (sextet_char n w) = ucast (take_bit 6 (drop_bit n w))" .
  show "decode_lookup (sextet_char n w) \<noteq> 0xFF"
    unfolding decode_lookup_invalid_iff sextet_char_def
    using unat_sextet_less nth_mem [of ?v alphabet] by simp
qed

lemma sextet_char_in_alphabet [simp]: "sextet_char n w \<in> set alphabet"
  using lookup_sextet_valid [of n w] by (simp only: decode_lookup_invalid_iff not_not)

lemma sextet_not_255 [simp]: "ucast (take_bit 6 x :: uint32) \<noteq> (0xFF :: byte)"
proof
  assume "ucast (take_bit 6 x) = (0xFF :: byte)"
  then have "bit (ucast (take_bit 6 x) :: byte) 7 = bit (0xFF :: byte) 7" by simp
  then show False by (simp add: bit_simps)
qed

lemma ucast_sextet [simp]:
  "(ucast (ucast (take_bit 6 x :: uint32) :: byte) :: uint32) = take_bit 6 x"
  by (rule bit_word_eqI) (auto simp: bit_simps)

lemma quad_of_sextets:
  "push_bit 18 (take_bit 6 (drop_bit 18 t)) OR push_bit 12 (take_bit 6 (drop_bit 12 t)) OR
   push_bit 6 (take_bit 6 (drop_bit 6 t)) OR take_bit 6 t = (take_bit 24 t :: uint32)"
  (is "?l = ?r")
proof (rule bit_word_eqI)
  fix n :: nat
  consider "n < 6" | "6 \<le> n" "n < 12" | "12 \<le> n" "n < 18" | "18 \<le> n" by linarith
  then show "bit ?l n = bit ?r n" by cases (auto simp: bit_simps)
qed

lemma octets_of_triple:
  "octet 16 (take_bit 24 (triple a b c)) = a"
  "octet 8 (take_bit 24 (triple a b c)) = b"
  "octet 0 (take_bit 24 (triple a b c)) = c"
  unfolding triple_def octet_bits
  by (rule bit_word_eqI, auto simp: bit_simps dest: bit_imp_le_length)+

section \<open>Decoding inverts encoding\<close>

lemma take_bit_24_pushed [simp]:
  "take_bit 24 (push_bit 16 (ucast (a :: byte)) :: uint32) = push_bit 16 (ucast a)"
  "take_bit 24 (push_bit 8 (ucast (b :: byte)) :: uint32) = push_bit 8 (ucast b)"
  by (rule bit_word_eqI, auto simp: bit_simps dest: bit_imp_le_length)+

lemma octet_partial_one:
  "octet 16 (push_bit 18 (take_bit 6 (drop_bit 18 t)) OR push_bit 12 (take_bit 6 (drop_bit 12 t))) =
     octet 16 (take_bit 24 t)"
  unfolding octet_bits by (rule bit_word_eqI) (auto simp: bit_simps not_less le_less_Suc_eq)

lemma octet_partial_two:
  "octet 8 (push_bit 18 (take_bit 6 (drop_bit 18 t)) OR push_bit 12 (take_bit 6 (drop_bit 12 t)) OR
            push_bit 6 (take_bit 6 (drop_bit 6 t))) = octet 8 (take_bit 24 t)"
  (is "?l = ?r")
  unfolding octet_bits
proof (rule bit_word_eqI)
  fix n :: nat assume "n < LENGTH(8)"
  then consider "n < 4" | "4 \<le> n" "n < 8" by (simp, linarith)
  then show "bit (ucast (take_bit 8 (drop_bit 8 (push_bit 18 (take_bit 6 (drop_bit 18 t)) OR
      push_bit 12 (take_bit 6 (drop_bit 12 t)) OR push_bit 6 (take_bit 6 (drop_bit 6 t))))) :: byte) n
    = bit (ucast (take_bit 8 (drop_bit 8 (take_bit 24 t))) :: byte) n"
    by cases (auto simp: bit_simps)
qed

lemma octets_of_one_two:
  "octet 16 (push_bit 16 (ucast (a :: byte))) = a"
  "octet 16 (push_bit 16 (ucast (a :: byte)) OR push_bit 8 (ucast (b :: byte))) = a"
  "octet 8 (push_bit 16 (ucast (a :: byte)) OR push_bit 8 (ucast (b :: byte))) = b"
  unfolding octet_bits
  by (rule bit_word_eqI, auto simp: bit_simps dest: bit_imp_le_length)+

text \<open>Decoding the characters of one group of 24 bits.\<close>

lemmas decode_steps = base64url_decode.simps Let_def lookup_sextet_valid if_False simp_thms
  lookup_sextet_char ucast_sextet sextet_not_255

lemma decode_group2:
  "base64url_decode [sextet_char 18 t, sextet_char 12 t] = Inr [octet 16 (take_bit 24 t)]"
  by (simp only: decode_steps octet_partial_one)

lemma decode_group3:
  "base64url_decode [sextet_char 18 t, sextet_char 12 t, sextet_char 6 t] =
     Inr [octet 16 (take_bit 24 t), octet 8 (take_bit 24 t)]"
  by (simp only: decode_steps octet_partial_one octet_partial_two or.assoc)

lemma decode_group4:
  "base64url_decode (sextet_char 18 t # sextet_char 12 t # sextet_char 6 t # sextet_char 0 t # rest) =
     bindE (base64url_decode rest) (\<lambda>bs. Inr (octet 16 (take_bit 24 t) # octet 8 (take_bit 24 t) #
       octet 0 (take_bit 24 t) # bs))"
proof -
  have "quad (ucast (take_bit 6 (drop_bit 18 t))) (ucast (take_bit 6 (drop_bit 12 t)))
      (ucast (take_bit 6 (drop_bit 6 t))) (ucast (take_bit 6 (drop_bit 0 t))) = take_bit 24 t"
    using quad_of_sextets [of t] by (simp add: quad_def)
  then show ?thesis by (simp only: decode_steps)
qed

lemma decode_encode: "base64url_decode (base64url_encode d) = Inr d"
  by (induction d rule: base64url_encode.induct)
     (simp_all add: Let_def decode_group2 decode_group3 decode_group4 octets_of_triple
        octets_of_one_two del: base64url_decode.simps(3-5))

text \<open>The encoder's output: its characters and its length.\<close>

lemma encode_chars: "set (base64url_encode d) \<subseteq> set alphabet"
  by (induction d rule: base64url_encode.induct)
     (auto simp: Let_def)

lemma encode_length: "length (base64url_encode d) = (4 * length d + 2) div 3"
  by (induction d rule: base64url_encode.induct) (simp_all add: Let_def)

lemma encode_eq_Nil [simp]: "base64url_encode d = [] \<longleftrightarrow> d = []"
  by (cases d rule: base64url_encode.cases) (simp_all add: Let_def)

lemma encode_no_dot: "CHR ''.'' \<notin> set (base64url_encode d)"
  using encode_chars dot_not_in_alphabet by blast

section \<open>What the decoder accepts\<close>

lemma decode_error_kind:
  "base64url_decode s = Inl e \<Longrightarrow> e = bad_character \<or> e = bad_length"
  by (induction s rule: base64url_decode.induct)
     (auto simp: Let_def bindE_Inl_iff split: if_splits)

lemma decode_accepts_iff:
  "(\<exists>d. base64url_decode s = Inr d) \<longleftrightarrow> set s \<subseteq> set alphabet \<and> length s mod 4 \<noteq> 1"
  by (induction s rule: base64url_decode.induct)
     (auto simp: Let_def bindE_Inr_iff decode_lookup_invalid_iff)

lemma decode_length: "base64url_decode s = Inr d \<Longrightarrow> length d = 3 * length s div 4"
  by (induction s arbitrary: d rule: base64url_decode.induct)
     (auto simp: Let_def bindE_Inr_iff split: if_splits)

section \<open>Which texts are the encoding of what they decode to\<close>

text \<open>
  A text of length 2 modulo 4 carries 4 bits more than whole bytes, one of length 3 modulo 4 carries
  2 bits more. The encoder writes zeros there, the decoder drops whatever is there.
\<close>

definition spare_bits :: "string \<Rightarrow> nat" where
  "spare_bits s = (if length s mod 4 = 2 then 4 else if length s mod 4 = 3 then 2 else 0)"

definition canonical_tail :: "string \<Rightarrow> bool" where
  "canonical_tail s \<longleftrightarrow> take_bit (spare_bits s) (decode_lookup (last s)) = 0"

lemma decode_lookup_six_bits: "c \<in> set alphabet \<Longrightarrow> bit (decode_lookup c) n \<Longrightarrow> n < 6"
proof (rule ccontr)
  assume c: "c \<in> set alphabet" and b: "bit (decode_lookup c) n" and "\<not> n < 6"
  then obtain v where v: "v < 64" "decode_lookup c = word_of_nat v"
    by (cases c rule: decode_lookup_cases) auto
  from b have "n < 8" by (auto dest: bit_imp_le_length)
  from v b have "bit v n" by (simp add: bit_simps)
  moreover have "take_bit 6 v = v" using v by (simp add: take_bit_nat_eq_self)
  ultimately have "bit (take_bit 6 v) n" by simp
  with \<open>\<not> n < 6\<close> show False by (simp add: bit_simps)
qed

lemma sextet_char_eq_iff:
  assumes "c \<in> set alphabet"
  shows "sextet_char n w = c \<longleftrightarrow> ucast (take_bit 6 (drop_bit n w)) = decode_lookup c"
proof
  assume "sextet_char n w = c"
  then show "ucast (take_bit 6 (drop_bit n w)) = decode_lookup c"
    using lookup_sextet_char [of n w] by simp
next
  assume eq: "ucast (take_bit 6 (drop_bit n w)) = decode_lookup c"
  from assms obtain v where v: "v < 64" "c = alphabet ! v" "decode_lookup c = word_of_nat v"
    by (cases c rule: decode_lookup_cases) auto
  let ?u = "unat (drop_bit n w AND 0x3F)"
  have u: "?u < 64" by (rule unat_sextet_less)
  have "decode_lookup (alphabet ! ?u) = word_of_nat v"
    using eq v lookup_sextet_char [of n w] by (simp add: sextet_char_def)
  then have "(word_of_nat ?u :: byte) = word_of_nat v"
    using decode_lookup_alphabet [OF u] by (simp only:)
  then have "unat (word_of_nat ?u :: byte) = unat (word_of_nat v :: byte)"
    by (simp only:)
  moreover have "unat (word_of_nat k :: byte) = k" if "k < 64" for k
    using that by (simp add: unat_of_nat)
  ultimately have "?u = v" using u v(1) by (simp only:)
  with v show "sextet_char n w = c" by (simp add: sextet_char_def)
qed

text \<open>Reading back the four characters of a full group.\<close>

lemma triple_of_quad:
  "triple (octet 16 q) (octet 8 q) (octet 0 q) = take_bit 24 q" (is "?l = ?r")
proof (rule bit_word_eqI)
  fix n :: nat
  consider "n < 8" | "8 \<le> n" "n < 16" | "16 \<le> n" by linarith
  then show "bit ?l n = bit ?r n"
    by cases (auto simp: triple_def octet_bits bit_simps)
qed

lemma quad_sextets:
  assumes "\<And>n. bit a n \<Longrightarrow> n < 6" "\<And>n. bit b n \<Longrightarrow> n < 6"
    and "\<And>n. bit c n \<Longrightarrow> n < 6" "\<And>n. bit d n \<Longrightarrow> n < 6"
  shows "ucast (take_bit 6 (drop_bit 18 (take_bit 24 (quad a b c d)))) = a"
    and "ucast (take_bit 6 (drop_bit 12 (take_bit 24 (quad a b c d)))) = b"
    and "ucast (take_bit 6 (drop_bit 6 (take_bit 24 (quad a b c d)))) = c"
    and "ucast (take_bit 6 (drop_bit 0 (take_bit 24 (quad a b c d)))) = d"
  unfolding quad_def
  by (rule bit_word_eqI, auto simp: bit_simps dest: assms)+

lemma tail2_sextets:
  fixes a b :: byte
  assumes "\<And>n. bit a n \<Longrightarrow> n < 6" "\<And>n. bit b n \<Longrightarrow> n < 6"
  defines "p \<equiv> push_bit 16 (ucast (octet 16 (push_bit 18 (ucast a) OR push_bit 12 (ucast b)))) :: uint32"
  shows "ucast (take_bit 6 (drop_bit 18 p)) = a"
    and "ucast (take_bit 6 (drop_bit 12 p)) = b AND NOT (mask 4)"
  unfolding p_def octet_bits
  by (rule bit_word_eqI, auto simp: bit_simps dest: assms(1,2))+

lemma tail3_sextets:
  fixes a b c :: byte
  assumes "\<And>n. bit a n \<Longrightarrow> n < 6" "\<And>n. bit b n \<Longrightarrow> n < 6" "\<And>n. bit c n \<Longrightarrow> n < 6"
  defines "p \<equiv> push_bit 18 (ucast a) OR push_bit 12 (ucast b)"
  defines "q \<equiv> push_bit 16 (ucast (octet 16 p)) OR
     push_bit 8 (ucast (octet 8 (p OR push_bit 6 (ucast c)))) :: uint32"
  shows "ucast (take_bit 6 (drop_bit 18 q)) = a"
    and "ucast (take_bit 6 (drop_bit 12 q)) = b"
    and "ucast (take_bit 6 (drop_bit 6 q)) = c AND NOT (mask 2)"
proof -
  have two: "Suc (Suc (n - 2)) = n" if "2 \<le> n" for n :: nat using that by simp
  have two': "\<not> n < 2 \<longleftrightarrow> 2 \<le> n" for n :: nat by linarith
  show "ucast (take_bit 6 (drop_bit 18 q)) = a" and "ucast (take_bit 6 (drop_bit 12 q)) = b"
    unfolding p_def q_def octet_bits
    by (rule bit_word_eqI, auto simp: bit_simps dest: assms(1,2,3))+
  show "ucast (take_bit 6 (drop_bit 6 q)) = c AND NOT (mask 2)"
    unfolding p_def q_def octet_bits
    by (rule bit_word_eqI) (auto simp: bit_simps two two' dest: assms(1,2,3))
qed

lemma clear_low_bits_iff: "(b :: byte) AND NOT (mask n) = b \<longleftrightarrow> take_bit n b = 0"
proof
  assume "b AND NOT (mask n) = b"
  then have "take_bit n b = take_bit n (b AND NOT (mask n))" by simp
  also have "\<dots> = 0" by (simp add: take_bit_eq_mask bit.conj_disj_distribs ac_simps)
  finally show "take_bit n b = 0" .
next
  assume z: "take_bit n b = 0"
  show "b AND NOT (mask n) = b"
  proof (rule bit_word_eqI)
    fix k
    have "bit (take_bit n b) k = False" using z by simp
    then show "bit (b AND NOT (mask n)) k = bit b k"
      by (auto simp: bit_simps dest: bit_imp_le_length)
  qed
qed

lemma encode_decode_iff:
  "base64url_decode s = Inr d \<Longrightarrow> base64url_encode d = s \<longleftrightarrow> canonical_tail s"
proof (induction s arbitrary: d rule: base64url_decode.induct)
  case (3 w x)
  then have v: "w \<in> set alphabet" "x \<in> set alphabet"
    by (auto simp: Let_def decode_lookup_invalid_iff split: if_splits)
  note six = decode_lookup_six_bits [OF v(1)] decode_lookup_six_bits [OF v(2)]
  let ?p = "push_bit 18 (ucast (decode_lookup w)) OR push_bit 12 (ucast (decode_lookup x)) :: uint32"
  let ?t = "push_bit 16 (ucast (octet 16 ?p))"
  from 3 v have d: "d = [octet 16 ?p]"
    by (simp add: Let_def decode_lookup_invalid_iff)
  have "sextet_char 18 ?t = w"
    and "sextet_char 12 ?t = x \<longleftrightarrow> take_bit 4 (decode_lookup x) = 0"
    using v by (simp_all only: sextet_char_eq_iff tail2_sextets [OF six] clear_low_bits_iff)
  then show ?case by (simp add: d Let_def canonical_tail_def spare_bits_def)
next
  case (4 w x y)
  then have v: "w \<in> set alphabet" "x \<in> set alphabet" "y \<in> set alphabet"
    by (auto simp: Let_def decode_lookup_invalid_iff split: if_splits)
  note six = decode_lookup_six_bits [OF v(1)] decode_lookup_six_bits [OF v(2)]
    decode_lookup_six_bits [OF v(3)]
  let ?p = "push_bit 18 (ucast (decode_lookup w)) OR push_bit 12 (ucast (decode_lookup x)) :: uint32"
  let ?r = "?p OR push_bit 6 (ucast (decode_lookup y))"
  let ?t = "push_bit 16 (ucast (octet 16 ?p)) OR push_bit 8 (ucast (octet 8 ?r))"
  from 4 v have d: "d = [octet 16 ?p, octet 8 ?r]"
    by (simp add: Let_def decode_lookup_invalid_iff)
  have "sextet_char 18 ?t = w" and "sextet_char 12 ?t = x"
    and "sextet_char 6 ?t = y \<longleftrightarrow> take_bit 2 (decode_lookup y) = 0"
    using v by (simp_all only: sextet_char_eq_iff tail3_sextets [OF six] clear_low_bits_iff)
  then show ?case by (simp add: d Let_def canonical_tail_def spare_bits_def)
next
  case (5 w x y z rest)
  then have v: "w \<in> set alphabet" "x \<in> set alphabet" "y \<in> set alphabet" "z \<in> set alphabet"
    by (auto simp: Let_def decode_lookup_invalid_iff split: if_splits)
  note six = decode_lookup_six_bits [OF v(1)] decode_lookup_six_bits [OF v(2)]
    decode_lookup_six_bits [OF v(3)] decode_lookup_six_bits [OF v(4)]
  let ?q = "quad (decode_lookup w) (decode_lookup x) (decode_lookup y) (decode_lookup z)"
  from 5(2) v obtain bs where bs: "base64url_decode rest = Inr bs"
    and d: "d = octet 16 ?q # octet 8 ?q # octet 0 ?q # bs"
    by (auto simp: Let_def decode_lookup_invalid_iff bindE_Inr_iff)
  have group: "sextet_char 18 (take_bit 24 ?q) = w" "sextet_char 12 (take_bit 24 ?q) = x"
      "sextet_char 6 (take_bit 24 ?q) = y" "sextet_char 0 (take_bit 24 ?q) = z"
    using v by (simp_all only: sextet_char_eq_iff quad_sextets [OF six])
  have IH: "base64url_encode bs = rest \<longleftrightarrow> canonical_tail rest"
    using 5(1) v bs by (simp add: decode_lookup_invalid_iff)
  have "length (w # x # y # z # rest) mod 4 = length rest mod 4"
    using mod_add_self1 [of 4 "length rest"] by simp
  then have "spare_bits (w # x # y # z # rest) = spare_bits rest"
    by (simp only: spare_bits_def)
  then have "canonical_tail (w # x # y # z # rest) = canonical_tail rest"
    by (cases "rest = []") (simp_all add: canonical_tail_def spare_bits_def)
  with IH group show ?case by (simp add: d Let_def triple_of_quad)
qed (simp_all add: canonical_tail_def spare_bits_def)

text \<open>
  Hence a text whose length is 2 modulo 4 (the 86 characters of a 64-byte signature) shares its value
  with others: any last character with the same two high bits decodes alike.
\<close>

lemma octet_high_bits:
  fixes b b' :: byte
  assumes "drop_bit 4 b = drop_bit 4 b'"
  shows "octet 16 (push_bit 18 (ucast a) OR push_bit 12 (ucast b)) =
         octet 16 (push_bit 18 (ucast a) OR push_bit 12 (ucast b'))"
proof -
  have "bit b (4 + n) = bit b' (4 + n)" for n
    using assms by (metis bit_drop_bit_eq comp_apply)
  then show ?thesis
    unfolding octet_bits by (intro bit_word_eqI) (auto simp: bit_simps)
qed

lemma decode_respelled:
  assumes "base64url_decode s = Inr d" and "length s mod 4 = 2" and "c \<in> set alphabet"
    and "drop_bit 4 (decode_lookup c) = drop_bit 4 (decode_lookup (last s))"
  shows "base64url_decode (butlast s @ [c]) = Inr d"
  using assms
proof (induction s arbitrary: d rule: base64url_decode.induct)
  case (3 w x)
  then show ?case
    using octet_high_bits [of "decode_lookup c" "decode_lookup x" "decode_lookup w"]
    by (auto simp: Let_def decode_lookup_invalid_iff split: if_splits)
next
  case (5 w x y z rest)
  from 5(3) have len: "length rest mod 4 = 2"
    using mod_add_self1 [of 4 "length rest"] by simp
  then have "rest \<noteq> []" by auto
  with 5 len show ?case
    by (auto simp: Let_def bindE_Inr_iff split: if_splits)
qed simp_all

text \<open>There always is such another character: flip the lowest bit.\<close>

lemma other_spelling:
  assumes "base64url_decode s = Inr d" and "length s mod 4 = 2"
  shows "\<exists>c \<in> set alphabet. butlast s @ [c] \<noteq> s \<and> base64url_decode (butlast s @ [c]) = Inr d"
proof -
  have "s \<noteq> []" using assms(2) by auto
  have "last s \<in> set alphabet"
    using decode_accepts_iff [of s] assms(1) \<open>s \<noteq> []\<close> last_in_set by blast
  then obtain v where v: "v < 64" "last s = alphabet ! v" "decode_lookup (last s) = word_of_nat v"
    by (cases "last s" rule: decode_lookup_cases) auto
  define u where "u = (if even v then v + 1 else v - 1)"
  have u: "u < 64" "u \<noteq> v" and "u div 2 = v div 2"
    using v(1) unfolding u_def by (auto elim!: oddE evenE)
  then have u16: "u div 16 = v div 16"
    by (metis div_mult2_eq mult_numeral_left_semiring_numeral num_double numeral_times_numeral)
  let ?c = "alphabet ! u"
  have "?c \<noteq> last s"
    using u v distinct_alphabet by (simp add: nth_eq_iff_index_eq)
  have "drop_bit 4 (word_of_nat n :: byte) = word_of_nat (n div 16)" if "n < 64" for n
  proof -
    have "unat (drop_bit 4 (word_of_nat n :: byte)) = drop_bit 4 (unat (word_of_nat n :: byte))"
      by (rule unat_drop_bit_eq)
    also have "\<dots> = unat (word_of_nat (n div 16) :: byte)"
      using that by (simp add: unat_of_nat drop_bit_eq_div)
    finally show ?thesis by (rule unsigned_word_eqI)
  qed
  then have "drop_bit 4 (decode_lookup ?c) = drop_bit 4 (decode_lookup (last s))"
    using u(1) u16 v by (simp only: decode_lookup_alphabet)
  then have "base64url_decode (butlast s @ [?c]) = Inr d"
    using decode_respelled assms u(1) by simp
  moreover have "butlast s @ [?c] \<noteq> s"
    using \<open>?c \<noteq> last s\<close> by (metis last_snoc)
  moreover have "?c \<in> set alphabet" using u(1) by simp
  ultimately show ?thesis by blast
qed

section \<open>The codec as an interface\<close>

text \<open>What assembling and splitting a token needs of the text encoding of its chunks.\<close>

locale text_codec =
  fixes enc :: "'a list \<Rightarrow> string"
    and dec :: "string \<Rightarrow> exn + 'a list"
  assumes dec_enc: "dec (enc x) = Inr x"
    and enc_no_dot: "CHR ''.'' \<notin> set (enc x)"
    and enc_nonempty: "x \<noteq> [] \<Longrightarrow> enc x \<noteq> []"
begin

lemma enc_inj: "enc x = enc y \<Longrightarrow> x = y"
  by (metis dec_enc sum.inject(2))

text \<open>Three chunks joined with dots fall apart in one way only.\<close>

lemma enc_split:
  "enc a @ CHR ''.'' # enc b @ CHR ''.'' # s = enc a' @ CHR ''.'' # enc b' @ CHR ''.'' # s' \<longleftrightarrow>
     a = a' \<and> b = b' \<and> s = s'"
  using enc_inj by (auto simp: append_sep_inj enc_no_dot)

end

interpretation b64: text_codec base64url_encode base64url_decode
  by unfold_locales (simp_all add: decode_encode encode_no_dot)

section \<open>Properties\<close>

lemma bad_length_iff:
  "base64url_decode s = Inl bad_length \<longleftrightarrow> length s mod 4 = 1 \<and> set (butlast s) \<subseteq> set alphabet"
  by (induction s rule: base64url_decode.induct)
     (auto simp: Let_def bindE_Inl_iff decode_lookup_invalid_iff decode_accepts_iff split: if_splits)

text \<open>
  C12: Decoding what the encoder wrote gives the bytes back; the encoder writes only characters of the
  URL alphabet, never padding, and the number of them that unpadded base64 prescribes.
\<close>

theorem base64url_round_trip:
  "base64url_decode (base64url_encode d) = Inr d \<and>
   set (base64url_encode d) \<subseteq> set alphabet \<and> length (base64url_encode d) = (4 * length d + 2) div 3"
  by (simp add: decode_encode encode_chars encode_length)

text \<open>
  The decoder is total, and its outcome is determined by the text: it succeeds, with three bytes
  for every four characters, exactly on texts over the alphabet whose length is not 1 modulo 4; it
  reports a bad length exactly when the one character left over is the only thing wrong, and
  otherwise a bad character. Every error is a malformed-token error.
\<close>

lemma base64url_decode_outcome:
  "case base64url_decode s of
     Inr d \<Rightarrow> set s \<subseteq> set alphabet \<and> length s mod 4 \<noteq> 1 \<and> length d = 3 * length s div 4
   | Inl e \<Rightarrow> e = (if length s mod 4 = 1 \<and> set (butlast s) \<subseteq> set alphabet
                   then bad_length else bad_character)
             \<and> \<not> (set s \<subseteq> set alphabet \<and> length s mod 4 \<noteq> 1)"
proof (cases "base64url_decode s")
  case (Inl e)
  with decode_error_kind [OF Inl] bad_length_iff [of s] decode_accepts_iff [of s] show ?thesis
    by auto
next
  case (Inr d)
  with decode_accepts_iff [of s] decode_length [OF Inr] show ?thesis by auto
qed

text \<open>
  Which texts the decoder accepts are the encoding of what they decode to: those whose last
  character has zeros in its unused low bits. The decoder does not look at these bits, so every text
  outside this set decodes like the canonical one, and the comment in the source that a token
  has exactly one valid spelling does not hold.
\<close>

lemma base64url_canonical_iff:
  "(\<exists>d. base64url_decode s = Inr d \<and> base64url_encode d = s) \<longleftrightarrow>
     set s \<subseteq> set alphabet \<and> length s mod 4 \<noteq> 1 \<and> canonical_tail s"
  using decode_accepts_iff [of s] encode_decode_iff by auto

end
