(* ===== verification/Sha2.thy ===== *)
theory Sha2
  imports Prelude
begin

text \<open>
  The vendored hashes of \<^verbatim>\<open>src/jwt_utils.cpp\<close>: SHA-512/256 (claim ids) and SHA-256 (the
  activation hash), with the two base32 encoders that print their digests.

  Each digest is a streaming loop over full blocks and one or two last blocks assembled in a
  buffer. The locale \<open>block_hash\<close> shows once, for both, that this computes the iteration of the
  compression function over the padded message of FIPS 180-4. The base32 loop, which shifts bytes
  through a 32-bit buffer, is shown to write the bits of its input five at a time.
\<close>

section \<open>SHA-512/256\<close>

definition K512 :: "uint64 list" where
  "K512 =
     [0x428A2F98D728AE22, 0x7137449123EF65CD, 0xB5C0FBCFEC4D3B2F, 0xE9B5DBA58189DBBC,
      0x3956C25BF348B538, 0x59F111F1B605D019, 0x923F82A4AF194F9B, 0xAB1C5ED5DA6D8118,
      0xD807AA98A3030242, 0x12835B0145706FBE, 0x243185BE4EE4B28C, 0x550C7DC3D5FFB4E2,
      0x72BE5D74F27B896F, 0x80DEB1FE3B1696B1, 0x9BDC06A725C71235, 0xC19BF174CF692694,
      0xE49B69C19EF14AD2, 0xEFBE4786384F25E3, 0x0FC19DC68B8CD5B5, 0x240CA1CC77AC9C65,
      0x2DE92C6F592B0275, 0x4A7484AA6EA6E483, 0x5CB0A9DCBD41FBD4, 0x76F988DA831153B5,
      0x983E5152EE66DFAB, 0xA831C66D2DB43210, 0xB00327C898FB213F, 0xBF597FC7BEEF0EE4,
      0xC6E00BF33DA88FC2, 0xD5A79147930AA725, 0x06CA6351E003826F, 0x142929670A0E6E70,
      0x27B70A8546D22FFC, 0x2E1B21385C26C926, 0x4D2C6DFC5AC42AED, 0x53380D139D95B3DF,
      0x650A73548BAF63DE, 0x766A0ABB3C77B2A8, 0x81C2C92E47EDAEE6, 0x92722C851482353B,
      0xA2BFE8A14CF10364, 0xA81A664BBC423001, 0xC24B8B70D0F89791, 0xC76C51A30654BE30,
      0xD192E819D6EF5218, 0xD69906245565A910, 0xF40E35855771202A, 0x106AA07032BBD1B8,
      0x19A4C116B8D2D0C8, 0x1E376C085141AB53, 0x2748774CDF8EEB99, 0x34B0BCB5E19B48A8,
      0x391C0CB3C5C95A63, 0x4ED8AA4AE3418ACB, 0x5B9CCA4F7763E373, 0x682E6FF3D6B2B8A3,
      0x748F82EE5DEFB2FC, 0x78A5636F43172F60, 0x84C87814A1F0AB72, 0x8CC702081A6439EC,
      0x90BEFFFA23631E28, 0xA4506CEBDE82BDE9, 0xBEF9A3F7B2C67915, 0xC67178F2E372532B,
      0xCA273ECEEA26619C, 0xD186B8C721C0C207, 0xEADA7DD6CDE0EB1E, 0xF57D4F7FEE6ED178,
      0x06F067AA72176FBA, 0x0A637DC5A2C898A6, 0x113F9804BEF90DAE, 0x1B710B35131C471B,
      0x28DB77F523047D84, 0x32CAAB7B40C72493, 0x3C9EBE0A15C9BEBC, 0x431D67C49C100D4C,
      0x4CC5D4BECB3E42B6, 0x597F299CFC657E2A, 0x5FCB6FAB3AD6FAEC, 0x6C44198C4A475817]"

definition rotr64 :: "uint64 \<Rightarrow> nat \<Rightarrow> uint64" where
  "rotr64 x n = drop_bit n x OR push_bit (64 - n) x"

definition load64 :: "byte list \<Rightarrow> nat \<Rightarrow> uint64" where
  "load64 block i =
     foldl (\<lambda>w b. push_bit 8 w OR ucast (block ! (8 * i + b))) 0 [0..<8]"

definition extend64 :: "uint64 list \<Rightarrow> nat \<Rightarrow> uint64 list" where
  "extend64 w i =
     (let s0 = rotr64 (w ! (i - 15)) 1 XOR rotr64 (w ! (i - 15)) 8 XOR drop_bit 7 (w ! (i - 15));
          s1 = rotr64 (w ! (i - 2)) 19 XOR rotr64 (w ! (i - 2)) 61 XOR drop_bit 6 (w ! (i - 2))
      in w @ [w ! (i - 16) + s0 + w ! (i - 7) + s1])"

text \<open>The eight working variables.\<close>

type_synonym 'w working = "'w \<times> 'w \<times> 'w \<times> 'w \<times> 'w \<times> 'w \<times> 'w \<times> 'w"

definition round64 :: "uint64 list \<Rightarrow> uint64 working \<Rightarrow> nat \<Rightarrow> uint64 working" where
  "round64 w st i =
     (case st of (a, b, c, d, e, f, g, hh) \<Rightarrow>
        let S1 = rotr64 e 14 XOR rotr64 e 18 XOR rotr64 e 41;
            ch = (e AND f) XOR (NOT e AND g);
            t1 = hh + S1 + ch + K512 ! i + w ! i;
            S0 = rotr64 a 28 XOR rotr64 a 34 XOR rotr64 a 39;
            maj = (a AND b) XOR (a AND c) XOR (b AND c);
            t2 = S0 + maj
        in (t1 + t2, a, b, c, d + t1, e, f, g))"

definition add_working :: "('w::plus) list \<Rightarrow> 'w working \<Rightarrow> 'w list" where
  "add_working h st =
     (case st of (a, b, c, d, e, f, g, hh) \<Rightarrow>
        [h ! 0 + a, h ! 1 + b, h ! 2 + c, h ! 3 + d, h ! 4 + e, h ! 5 + f, h ! 6 + g, h ! 7 + hh])"

definition working_of :: "'w list \<Rightarrow> 'w working" where
  "working_of h = (h ! 0, h ! 1, h ! 2, h ! 3, h ! 4, h ! 5, h ! 6, h ! 7)"

definition compress512 :: "uint64 list \<Rightarrow> byte list \<Rightarrow> uint64 list" where
  "compress512 h block =
     (let w = foldl extend64 (map (load64 block) [0..<16]) [16..<80]
      in add_working h (foldl (round64 w) (working_of h) [0..<80]))"

definition H512_256 :: "uint64 list" where
  "H512_256 =
     [0x22312194FC2BF72C, 0x9F555FA3C84C64C2, 0x2393B86B6F53B151, 0x963877195940EABD,
      0x96283EE2A88EFFE3, 0xBE5E1E2553863992, 0x2B0199FC2C85B8AA, 0x0EB72DDC81C52CA2]"

text \<open>\<open>while (len - off >= 128) \<dots>\<close>; the result is the state and the bytes that remain.\<close>

function absorb512 :: "uint64 list \<Rightarrow> byte list \<Rightarrow> uint64 list \<times> byte list" where
  "absorb512 h msg =
     (if 128 \<le> length msg then absorb512 (compress512 h (take 128 msg)) (drop 128 msg)
      else (h, msg))"
  by pat_completeness auto
termination by (relation "measure (\<lambda>(h, msg). length msg)") auto

declare absorb512.simps [simp del]

text \<open>
  The last block or two: a zeroed buffer of two blocks, the remaining bytes, the 0x80 byte, and
  the bit length in the last eight bytes of the first or of the second block.
\<close>

definition last_buffer :: "nat \<Rightarrow> nat \<Rightarrow> byte list \<Rightarrow> uint64 \<Rightarrow> byte list" where
  "last_buffer block_size total_size rem bitlen =
     foldl (\<lambda>b i. b[total_size - 1 - i := ucast (drop_bit (8 * i) bitlen)])
       ((rem @ replicate (2 * block_size - length rem) 0)[length rem := 0x80]) [0..<8]"

definition finish512 :: "uint64 list \<Rightarrow> byte list \<Rightarrow> uint64 \<Rightarrow> uint64 list" where
  "finish512 h rem bitlen =
     (let total_size = if length rem + 1 + 16 \<le> 128 then 128 else 256;
          block = last_buffer 128 total_size rem bitlen;
          h1 = compress512 h (take 128 block)
      in if total_size = 256 then compress512 h1 (drop 128 block) else h1)"

definition digest512_256 :: "byte list \<Rightarrow> byte list" where
  "digest512_256 msg =
     (case absorb512 H512_256 msg of (h, rem) \<Rightarrow>
        let h' = finish512 h rem (word_of_nat (length msg) * 8)
        in concat (map (\<lambda>i. map (\<lambda>b. ucast (drop_bit (56 - 8 * b) (h' ! i))) [0..<8]) [0..<4]))"

section \<open>SHA-256\<close>

definition K256 :: "uint32 list" where
  "K256 =
     [0x428A2F98, 0x71374491, 0xB5C0FBCF, 0xE9B5DBA5, 0x3956C25B, 0x59F111F1, 0x923F82A4, 0xAB1C5ED5,
      0xD807AA98, 0x12835B01, 0x243185BE, 0x550C7DC3, 0x72BE5D74, 0x80DEB1FE, 0x9BDC06A7, 0xC19BF174,
      0xE49B69C1, 0xEFBE4786, 0x0FC19DC6, 0x240CA1CC, 0x2DE92C6F, 0x4A7484AA, 0x5CB0A9DC, 0x76F988DA,
      0x983E5152, 0xA831C66D, 0xB00327C8, 0xBF597FC7, 0xC6E00BF3, 0xD5A79147, 0x06CA6351, 0x14292967,
      0x27B70A85, 0x2E1B2138, 0x4D2C6DFC, 0x53380D13, 0x650A7354, 0x766A0ABB, 0x81C2C92E, 0x92722C85,
      0xA2BFE8A1, 0xA81A664B, 0xC24B8B70, 0xC76C51A3, 0xD192E819, 0xD6990624, 0xF40E3585, 0x106AA070,
      0x19A4C116, 0x1E376C08, 0x2748774C, 0x34B0BCB5, 0x391C0CB3, 0x4ED8AA4A, 0x5B9CCA4F, 0x682E6FF3,
      0x748F82EE, 0x78A5636F, 0x84C87814, 0x8CC70208, 0x90BEFFFA, 0xA4506CEB, 0xBEF9A3F7, 0xC67178F2]"

definition rotr32 :: "uint32 \<Rightarrow> nat \<Rightarrow> uint32" where
  "rotr32 x n = drop_bit n x OR push_bit (32 - n) x"

definition load32 :: "byte list \<Rightarrow> nat \<Rightarrow> uint32" where
  "load32 block i =
     push_bit 24 (ucast (block ! (4 * i))) OR push_bit 16 (ucast (block ! (4 * i + 1))) OR
     push_bit 8 (ucast (block ! (4 * i + 2))) OR ucast (block ! (4 * i + 3))"

definition extend32 :: "uint32 list \<Rightarrow> nat \<Rightarrow> uint32 list" where
  "extend32 w i =
     (let s0 = rotr32 (w ! (i - 15)) 7 XOR rotr32 (w ! (i - 15)) 18 XOR drop_bit 3 (w ! (i - 15));
          s1 = rotr32 (w ! (i - 2)) 17 XOR rotr32 (w ! (i - 2)) 19 XOR drop_bit 10 (w ! (i - 2))
      in w @ [w ! (i - 16) + s0 + w ! (i - 7) + s1])"

definition round32 :: "uint32 list \<Rightarrow> uint32 working \<Rightarrow> nat \<Rightarrow> uint32 working" where
  "round32 w st i =
     (case st of (a, b, c, d, e, f, g, hh) \<Rightarrow>
        let S1 = rotr32 e 6 XOR rotr32 e 11 XOR rotr32 e 25;
            ch = (e AND f) XOR (NOT e AND g);
            t1 = hh + S1 + ch + K256 ! i + w ! i;
            S0 = rotr32 a 2 XOR rotr32 a 13 XOR rotr32 a 22;
            maj = (a AND b) XOR (a AND c) XOR (b AND c);
            t2 = S0 + maj
        in (t1 + t2, a, b, c, d + t1, e, f, g))"

definition compress256 :: "uint32 list \<Rightarrow> byte list \<Rightarrow> uint32 list" where
  "compress256 h block =
     (let w = foldl extend32 (map (load32 block) [0..<16]) [16..<64]
      in add_working h (foldl (round32 w) (working_of h) [0..<64]))"

definition H256 :: "uint32 list" where
  "H256 =
     [0x6A09E667, 0xBB67AE85, 0x3C6EF372, 0xA54FF53A,
      0x510E527F, 0x9B05688C, 0x1F83D9AB, 0x5BE0CD19]"

function absorb256 :: "uint32 list \<Rightarrow> byte list \<Rightarrow> uint32 list \<times> byte list" where
  "absorb256 h msg =
     (if 64 \<le> length msg then absorb256 (compress256 h (take 64 msg)) (drop 64 msg)
      else (h, msg))"
  by pat_completeness auto
termination by (relation "measure (\<lambda>(h, msg). length msg)") auto

declare absorb256.simps [simp del]

definition finish256 :: "uint32 list \<Rightarrow> byte list \<Rightarrow> uint64 \<Rightarrow> uint32 list" where
  "finish256 h rem bitlen =
     (let total_size = if length rem + 1 + 8 \<le> 64 then 64 else 128;
          block = last_buffer 64 total_size rem bitlen;
          h1 = compress256 h (take 64 block)
      in if total_size = 128 then compress256 h1 (drop 64 block) else h1)"

definition sha256 :: "byte list \<Rightarrow> byte list" where
  "sha256 msg =
     (case absorb256 H256 msg of (h, rem) \<Rightarrow>
        let h' = finish256 h rem (word_of_nat (length msg) * 8)
        in concat (map (\<lambda>i. map (\<lambda>b. ucast (drop_bit (24 - 8 * b) (h' ! i))) [0..<4]) [0..<8]))"

section \<open>Base32\<close>

definition base32_alphabet :: string where
  "base32_alphabet = ''ABCDEFGHIJKLMNOPQRSTUVWXYZ234567''"

definition base32_char :: "uint32 \<Rightarrow> char" where
  "base32_char w = base32_alphabet ! unat (w AND 0x1F)"

text \<open>The inner \<open>while (bits >= 5)\<close>: what it appends, and the bits left over.\<close>

fun drain :: "uint32 \<Rightarrow> nat \<Rightarrow> string \<times> nat" where
  "drain buffer bits =
     (if 5 \<le> bits
      then (case drain buffer (bits - 5) of (out, bits') \<Rightarrow>
              (base32_char (drop_bit (bits - 5) buffer) # out, bits'))
      else ([], bits))"

declare drain.simps [simp del]

fun base32_loop :: "uint32 \<Rightarrow> nat \<Rightarrow> byte list \<Rightarrow> string" where
  "base32_loop buffer bits [] =
     (if 0 < bits then [base32_char (push_bit (5 - bits) buffer)] else [])"
| "base32_loop buffer bits (byte # bytes) =
     (let buffer' = push_bit 8 buffer OR ucast byte
      in case drain buffer' (bits + 8) of (out, bits') \<Rightarrow> out @ base32_loop buffer' bits' bytes)"

text \<open>\<open>while (out.size() % 8) out.push_back('=');\<close>\<close>

function pad8 :: "string \<Rightarrow> string" where
  "pad8 out = (if length out mod 8 = 0 then out else pad8 (out @ ''=''))"
  by pat_completeness auto
termination by (relation "measure (\<lambda>out. (8 - length out mod 8) mod 8)")
  (auto simp: mod_Suc)

declare pad8.simps [simp del]

definition base32StdPadded :: "byte list \<Rightarrow> string" where
  "base32StdPadded bytes = pad8 (base32_loop 0 0 bytes)"

definition computeJti :: "string \<Rightarrow> string" where
  "computeJti payloadJsonWithoutJti =
     base32_loop 0 0 (digest512_256 (bytes_of payloadJsonWithoutJti))"

section \<open>The padded message\<close>

text \<open>
  FIPS 180-4: the message, the byte 0x80, the least number of zero bytes that completes a block
  with the length field, and the length in bits, big-endian. The field has \<open>L\<close> bytes, of which the
  code only ever fills the last eight.
\<close>

definition be64 :: "uint64 \<Rightarrow> byte list" where
  "be64 n = map (\<lambda>i. ucast (drop_bit (8 * i) n)) (rev [0..<8])"

definition sha_padding :: "nat \<Rightarrow> nat \<Rightarrow> nat \<Rightarrow> uint64 \<Rightarrow> byte list" where
  "sha_padding B L len n = 0x80 # replicate (L - 8 + (B - (len + 1 + L) mod B) mod B) 0 @ be64 n"

definition sha_pad :: "nat \<Rightarrow> nat \<Rightarrow> byte list \<Rightarrow> byte list" where
  "sha_pad B L msg = msg @ sha_padding B L (length msg) (word_of_nat (length msg) * 8)"

text \<open>The compression function iterated over the blocks of a message.\<close>

function fold_blocks :: "('h \<Rightarrow> byte list \<Rightarrow> 'h) \<Rightarrow> nat \<Rightarrow> 'h \<Rightarrow> byte list \<Rightarrow> 'h" where
  "fold_blocks f B h xs =
     (if B = 0 \<or> length xs < B then h else fold_blocks f B (f h (take B xs)) (drop B xs))"
  by pat_completeness auto
termination by (relation "measure (\<lambda>(f, B, h, xs). length xs)") auto

declare fold_blocks.simps [simp del]

lemma fold_blocks_short: "length xs < B \<Longrightarrow> fold_blocks f B h xs = h"
  by (simp add: fold_blocks.simps)

lemma fold_blocks_append:
  "0 < B \<Longrightarrow> length xs = B \<Longrightarrow> fold_blocks f B h (xs @ ys) = fold_blocks f B (f h xs) ys"
  by (subst fold_blocks.simps) simp

lemma length_be64 [simp]: "length (be64 n) = 8"
  by (simp add: be64_def)

lemma write_backwards:
  "length zs = k \<Longrightarrow> length A + k = T \<Longrightarrow>
     foldl (\<lambda>b i. b[T - 1 - i := g i]) (A @ zs @ C) [0..<k] = A @ map g (rev [0..<k]) @ C"
proof (induction k arbitrary: A zs)
  case (Suc k)
  then obtain z zs' where zs: "zs = z # zs'" and len: "length zs' = k"
    by (cases zs) auto
  have "foldl (\<lambda>b i. b[T - 1 - i := g i]) ((A @ [z]) @ zs' @ C) [0..<k] =
          (A @ [z]) @ map g (rev [0..<k]) @ C"
    by (rule Suc.IH) (use len Suc.prems in auto)
  moreover have "T - 1 - k = length A" using Suc.prems by simp
  ultimately show ?case by (simp add: zs)
qed simp

lemma last_buffer_eq:
  assumes "length rest + 9 \<le> T" and "T \<le> 2 * B"
  shows "last_buffer B T rest n =
    rest @ 0x80 # replicate (T - length rest - 9) 0 @ be64 n @ replicate (2 * B - T) 0"
proof -
  let ?A = "rest @ 0x80 # replicate (T - length rest - 9) 0"
  have "replicate (2 * B - length rest) (0 :: byte) =
          0 # replicate (T - length rest - 9) 0 @ replicate 8 0 @ replicate (2 * B - T) 0"
    using assms by (simp flip: replicate_add replicate_Suc)
  then have "(rest @ replicate (2 * B - length rest) 0)[length rest := 0x80] =
          ?A @ replicate 8 0 @ replicate (2 * B - T) 0"
    by simp
  then show ?thesis
    unfolding last_buffer_def be64_def
    using assms write_backwards [of "replicate 8 0" 8 ?A T]
    by (simp del: upt_rec_numeral)
qed

section \<open>The streaming loop hashes the padded message\<close>

locale block_hash =
  fixes compress :: "'h \<Rightarrow> byte list \<Rightarrow> 'h"
    and absorb :: "'h \<Rightarrow> byte list \<Rightarrow> 'h \<times> byte list"
    and finish :: "'h \<Rightarrow> byte list \<Rightarrow> uint64 \<Rightarrow> 'h"
    and B L :: nat
  assumes sizes: "8 \<le> L" "L < B"
    and absorb: "absorb h msg =
      (if B \<le> length msg then absorb (compress h (take B msg)) (drop B msg) else (h, msg))"
    and finish: "finish h rest n =
      (let total_size = if length rest + 1 + L \<le> B then B else 2 * B;
           block = last_buffer B total_size rest n;
           h1 = compress h (take B block)
       in if total_size = 2 * B then compress h1 (drop B block) else h1)"
begin

lemma finish_blocks:
  assumes "length rest < B"
  shows "finish h rest n = fold_blocks compress B h (rest @ sha_padding B L (length rest) n)"
proof (cases "length rest + 1 + L \<le> B")
  case True
  let ?p = "rest @ 0x80 # replicate (B - length rest - 9) 0 @ be64 n"
  have "(B - (length rest + 1 + L) mod B) mod B = B - (length rest + 1 + L)"
    using True sizes by (cases "length rest + 1 + L = B") auto
  then have "L - 8 + (B - (length rest + 1 + L) mod B) mod B = B - length rest - 9"
    using True sizes by simp
  then have pad: "rest @ sha_padding B L (length rest) n = ?p"
    by (simp add: sha_padding_def)
  have len: "length ?p = B" using True sizes by simp
  have "last_buffer B B rest n = ?p @ replicate (2 * B - B) 0"
    using True sizes by (subst last_buffer_eq) auto
  then have "take B (last_buffer B B rest n) = ?p"
    using len by (simp only: append_eq_conv_conj [of ?p, symmetric] take_append) simp
  then have "finish h rest n = compress h ?p"
    using True sizes by (simp add: finish Let_def)
  also have "\<dots> = fold_blocks compress B h (?p @ [])"
    using len sizes by (subst fold_blocks_append) (simp_all add: fold_blocks_short)
  finally show ?thesis by (simp add: pad)
next
  case False
  let ?p = "rest @ 0x80 # replicate (2 * B - length rest - 9) 0 @ be64 n"
  have "(length rest + 1 + L) mod B = length rest + 1 + L - B"
    using False assms sizes by (subst le_mod_geq) auto
  then have "L - 8 + (B - (length rest + 1 + L) mod B) mod B = 2 * B - length rest - 9"
    using False sizes assms by auto
  then have pad: "rest @ sha_padding B L (length rest) n = ?p"
    by (simp add: sha_padding_def)
  have len: "length ?p = 2 * B" using assms sizes by simp
  have buf: "last_buffer B (2 * B) rest n = ?p"
    using assms sizes by (subst last_buffer_eq) auto
  have "finish h rest n = compress (compress h (take B ?p)) (drop B ?p)"
    using False by (simp add: finish Let_def buf del: take_append drop_append)
  also have "\<dots> = fold_blocks compress B h (take B ?p @ drop B ?p @ [])"
    using len sizes by (simp add: fold_blocks_append fold_blocks_short del: append_take_drop_id
        take_append drop_append append_Nil2)
  finally show ?thesis by (simp only: pad append_Nil2 append_take_drop_id)
qed

lemma streaming:
  "(case absorb h msg of (h', rest) \<Rightarrow> finish h' rest n) =
     fold_blocks compress B h (msg @ sha_padding B L (length msg) n)"
proof (induction "length msg" arbitrary: h msg rule: less_induct)
  case less
  show ?case
  proof (cases "B \<le> length msg")
    case True
    let ?d = "drop B msg"
    have "(length ?d + 1 + L + B) mod B = (length ?d + 1 + L) mod B"
      by (rule mod_add_self2)
    moreover have "length ?d + 1 + L + B = length msg + 1 + L" using True by simp
    ultimately have "sha_padding B L (length msg) n = sha_padding B L (length ?d) n"
      unfolding sha_padding_def by (simp only:)
    then have "fold_blocks compress B h (msg @ sha_padding B L (length msg) n) =
        fold_blocks compress B (compress h (take B msg)) (?d @ sha_padding B L (length ?d) n)"
      using True sizes fold_blocks_append
        [of B "take B msg" compress h "?d @ sha_padding B L (length msg) n"]
      by (simp flip: append_assoc)
    moreover have "absorb h msg = absorb (compress h (take B msg)) ?d"
      using True by (subst absorb) simp
    ultimately show ?thesis using True sizes less [of ?d "compress h (take B msg)"] by simp
  next
    case False
    then have "absorb h msg = (h, msg)" by (subst absorb) simp
    with False finish_blocks show ?thesis by simp
  qed
qed

end

interpretation h512: block_hash compress512 absorb512 finish512 128 16
  by unfold_locales (simp, simp, rule absorb512.simps, simp add: finish512_def)

interpretation h256: block_hash compress256 absorb256 finish256 64 8
  by unfold_locales (simp, simp, rule absorb256.simps, simp add: finish256_def)

text \<open>Hence both digests are those of the standard, up to the printing of the state.\<close>

lemma digest512_256_blocks:
  "digest512_256 msg =
     (let h = fold_blocks compress512 128 H512_256 (sha_pad 128 16 msg)
      in concat (map (\<lambda>i. map (\<lambda>b. ucast (drop_bit (56 - 8 * b) (h ! i))) [0..<8]) [0..<4]))"
  using h512.streaming [of "word_of_nat (length msg) * 8" H512_256 msg]
  by (simp add: digest512_256_def sha_pad_def Let_def split: prod.splits)

lemma sha256_blocks:
  "sha256 msg =
     (let h = fold_blocks compress256 64 H256 (sha_pad 64 8 msg)
      in concat (map (\<lambda>i. map (\<lambda>b. ucast (drop_bit (24 - 8 * b) (h ! i))) [0..<4]) [0..<8]))"
  using h256.streaming [of "word_of_nat (length msg) * 8" H256 msg]
  by (simp add: sha256_def sha_pad_def Let_def split: prod.splits)

lemma length_digest512_256: "length (digest512_256 msg) = 32"
  by (simp add: digest512_256_def Let_def length_concat comp_def sum_list_triv split: prod.splits)

lemma length_sha256: "length (sha256 msg) = 32"
  by (simp add: sha256_def Let_def length_concat comp_def sum_list_triv split: prod.splits)

lemma sha_pad_length: "8 \<le> L \<Longrightarrow> 0 < B \<Longrightarrow> B dvd length (sha_pad B L msg)"
proof -
  assume L: "8 \<le> L" "0 < B"
  let ?m = "length msg + 1 + L"
  have "B dvd ?m + (B - ?m mod B) mod B"
  proof (cases "?m mod B = 0")
    case False
    then have "(B - ?m mod B) mod B = B - ?m mod B" using L by simp
    moreover have "?m + (B - ?m mod B) = ?m div B * B + B"
      using mod_less_divisor [of B ?m] div_mult_mod_eq [of ?m B] L by linarith
    ultimately show ?thesis by simp
  qed auto
  moreover have "length (sha_pad B L msg) = ?m + (B - ?m mod B) mod B"
    using L by (simp add: sha_pad_def sha_padding_def)
  ultimately show ?thesis by simp
qed

section \<open>Base32 writes the bits of its input five at a time\<close>

text \<open>The bits of a word, the most significant of the low \<open>n\<close> first.\<close>

definition msb_bits :: "nat \<Rightarrow> 'a::len word \<Rightarrow> bool list" where
  "msb_bits n w = map (bit w) (rev [0..<n])"

definition bits_value :: "bool list \<Rightarrow> nat" where
  "bits_value bs = horner_sum of_bool 2 (rev bs)"

text \<open>RFC 4648: groups of five bits, the last one filled with zeros, index the alphabet.\<close>

function base32_of_bits :: "bool list \<Rightarrow> string" where
  "base32_of_bits bs =
     (if bs = [] then []
      else base32_alphabet ! bits_value (take 5 (bs @ replicate 4 False))
           # base32_of_bits (drop 5 bs))"
  by pat_completeness auto
termination by (relation "measure length") auto

declare base32_of_bits.simps [simp del]

lemma length_msb_bits [simp]: "length (msb_bits n w) = n"
  by (simp add: msb_bits_def)

lemma msb_bits_0 [simp]: "msb_bits 0 w = []"
  by (simp add: msb_bits_def)

lemma msb_bits_split: "msb_bits (n + m) w = msb_bits m (drop_bit n w) @ msb_bits n w"
proof -
  have "[0..<n + m] = [0..<n] @ map (\<lambda>i. n + i) [0..<m]"
    using map_add_upt [of n m] upt_add_eq_append [of 0 n m] by (simp add: add.commute)
  then show ?thesis
    by (simp add: msb_bits_def rev_map bit_simps comp_def add.commute)
qed

lemma bits_value_msb: "bits_value (msb_bits n w) = unat (take_bit n w)"
proof -
  have "rev (msb_bits n w) = map (bit (unat w)) [0..<n]"
    by (simp add: msb_bits_def rev_map bit_simps)
  then show ?thesis
    by (simp add: bits_value_def horner_sum_bit_eq_take_bit unsigned_take_bit_eq)
qed

lemma base32_char_msb: "base32_char w = base32_alphabet ! bits_value (msb_bits 5 w)"
proof -
  have "w AND 0x1F = take_bit 5 w" by (simp add: take_bit_eq_mask mask_eq_exp_minus_1)
  then show ?thesis by (simp only: base32_char_def bits_value_msb)
qed

lemma base32_of_bits_5:
  "length g = 5 \<Longrightarrow> base32_of_bits (g @ bs) = base32_alphabet ! bits_value g # base32_of_bits bs"
  by (subst base32_of_bits.simps) auto

lemma drain_spec:
  assumes "drain buffer n = (out, k)"
  shows "k < 5 \<and>
    base32_of_bits (msb_bits n buffer @ bs) = out @ base32_of_bits (msb_bits k buffer @ bs)"
  using assms
proof (induction n arbitrary: out rule: less_induct)
  case (less n)
  show ?case
  proof (cases "5 \<le> n")
    case True
    then obtain out' where out': "drain buffer (n - 5) = (out', k)"
      and out: "out = base32_char (drop_bit (n - 5) buffer) # out'"
      using less.prems by (subst (asm) drain.simps) (auto split: prod.splits)
    have "msb_bits n buffer = msb_bits 5 (drop_bit (n - 5) buffer) @ msb_bits (n - 5) buffer"
      using msb_bits_split [of "n - 5" 5 buffer] True by simp
    then show ?thesis
      using less.IH [OF _ out'] True by (simp add: out base32_of_bits_5 base32_char_msb)
  next
    case False
    with less.prems show ?thesis by (subst (asm) drain.simps) auto
  qed
qed

lemma push_byte_bits:
  assumes "k \<le> 24"
  shows "msb_bits (k + 8) (push_bit 8 buffer OR ucast (b :: byte) :: uint32) =
           msb_bits k buffer @ msb_bits 8 b"
proof -
  have "msb_bits k (drop_bit 8 (push_bit 8 buffer OR ucast b :: uint32)) = msb_bits k buffer"
    using assms by (auto simp: msb_bits_def bit_simps dest: bit_imp_le_length)
  moreover have "msb_bits 8 (push_bit 8 buffer OR ucast b :: uint32) = msb_bits 8 b"
    by (auto simp: msb_bits_def bit_simps)
  moreover have "msb_bits (8 + k) w = msb_bits k (drop_bit 8 w) @ msb_bits 8 w" for w :: uint32
    by (rule msb_bits_split)
  ultimately show ?thesis by (simp only: add.commute [of k 8])
qed

lemma base32_last:
  assumes "0 < k" "k < 5"
  shows "base32_of_bits (msb_bits k (w :: uint32)) = [base32_char (push_bit (5 - k) w)]"
proof -
  have "msb_bits (5 - k) (push_bit (5 - k) w) = replicate (5 - k) False"
    by (rule nth_equalityI) (auto simp: msb_bits_def bit_simps rev_nth)
  moreover have "msb_bits k (drop_bit (5 - k) (push_bit (5 - k) w)) = msb_bits k w"
    using assms by (auto simp: msb_bits_def bit_simps dest: bit_imp_le_length)
  ultimately have "msb_bits 5 (push_bit (5 - k) w) = msb_bits k w @ replicate (5 - k) False"
    using msb_bits_split [of "5 - k" k "push_bit (5 - k) w"] assms by simp
  moreover have "take 5 (msb_bits k w @ replicate 4 False) = msb_bits k w @ replicate (5 - k) False"
    using assms by (simp add: take_replicate min_def)
  moreover have "msb_bits k w \<noteq> []" using assms by (simp flip: length_greater_0_conv)
  ultimately show ?thesis
    using assms
    by (subst base32_of_bits.simps) (simp add: base32_char_msb base32_of_bits.simps [of "[]"])
qed

lemma base32_loop_spec:
  "k < 5 \<Longrightarrow>
     base32_loop buffer k bytes = base32_of_bits (msb_bits k buffer @ concat (map (msb_bits 8) bytes))"
proof (induction bytes arbitrary: buffer k)
  case Nil
  then show ?case by (simp add: base32_last base32_of_bits.simps [of "[]"])
next
  case (Cons b bytes)
  let ?buf = "push_bit 8 buffer OR ucast b"
  obtain out k' where d: "drain ?buf (k + 8) = (out, k')" by fastforce
  note spec = drain_spec [OF d, of "concat (map (msb_bits 8) bytes)"]
  have "base32_loop buffer k (b # bytes) = out @ base32_loop ?buf k' bytes"
    by (simp add: d)
  also have "\<dots> = base32_of_bits (msb_bits (k + 8) ?buf @ concat (map (msb_bits 8) bytes))"
    using spec Cons.IH by simp
  finally show ?case using Cons.prems by (simp add: push_byte_bits)
qed

text \<open>Length and alphabet of the output, and that no two byte strings share it.\<close>

lemma length_base32_of_bits: "length (base32_of_bits bs) = (length bs + 4) div 5"
proof (induction bs rule: base32_of_bits.induct)
  case (1 bs)
  show ?case
  proof (cases "bs = []")
    case False
    have "length (base32_of_bits bs) = Suc (length (base32_of_bits (drop 5 bs)))"
      using False by (subst base32_of_bits.simps) simp
    also have "\<dots> = Suc ((length bs - 5 + 4) div 5)" using 1 [OF False] by simp
    also have "\<dots> = (length bs + 4) div 5"
      using False by (cases "5 \<le> length bs") (simp_all add: Suc_leI less_eq_Suc_le div_if)
    finally show ?thesis .
  qed (simp add: base32_of_bits.simps)
qed

lemma bits_value_less: "bits_value bs < 2 ^ length bs"
proof -
  have "horner_sum of_bool 2 bs < (2 :: nat) ^ length bs" for bs :: "bool list"
    by (induction bs) auto
  from this [of "rev bs"] show ?thesis by (simp add: bits_value_def)
qed

lemma base32_of_bits_alphabet: "set (base32_of_bits bs) \<subseteq> set base32_alphabet"
proof (induction bs rule: base32_of_bits.induct)
  case (1 bs)
  have "bits_value (take 5 (bs @ replicate 4 False)) < 2 ^ 5" if "bs \<noteq> []"
    by (rule order_less_le_trans [OF bits_value_less power_increasing]) simp_all
  moreover have "length base32_alphabet = 32" by (simp add: base32_alphabet_def)
  ultimately have
    "base32_alphabet ! bits_value (take 5 (bs @ replicate 4 False)) \<in> set base32_alphabet"
    if "bs \<noteq> []"
    using that by (simp add: nth_mem)
  with 1 show ?case by (subst base32_of_bits.simps) auto
qed

lemma length_concat_octets [simp]:
  "length (concat (map (msb_bits 8) bytes)) = 8 * length bytes"
  by (induction bytes) auto

lemma base32_loop_bytes:
  "base32_loop 0 0 bytes = base32_of_bits (concat (map (msb_bits 8) bytes))"
  by (simp add: base32_loop_spec)

lemma length_base32_loop: "length (base32_loop 0 0 bytes) = (8 * length bytes + 4) div 5"
  by (simp add: base32_loop_bytes length_base32_of_bits)

text \<open>The claim id: 52 characters of the alphabet.\<close>

lemma computeJti_format:
  "length (computeJti s) = 52 \<and> set (computeJti s) \<subseteq> set base32_alphabet"
  unfolding computeJti_def
  by (intro conjI, simp add: length_base32_loop length_digest512_256)
     (simp add: base32_loop_bytes base32_of_bits_alphabet)

lemma pad8_eq: "pad8 out = out @ replicate ((8 - length out mod 8) mod 8) CHR ''=''"
proof (induction out rule: pad8.induct)
  case (1 out)
  show ?case
  proof (cases "length out mod 8 = 0")
    case False
    then have "(8 - length out mod 8) mod 8 = Suc ((8 - length (out @ ''='') mod 8) mod 8)"
      by (auto simp: mod_Suc Suc_diff_Suc)
    with 1 False show ?thesis by (subst pad8.simps) simp
  qed (simp add: pad8.simps)
qed

lemma base32StdPadded_eq:
  "base32StdPadded bytes =
     (let out = base32_of_bits (concat (map (msb_bits 8) bytes))
      in out @ replicate ((8 - length out mod 8) mod 8) CHR ''='')"
  by (simp add: base32StdPadded_def base32_loop_bytes pad8_eq Let_def)

section \<open>Properties\<close>

text \<open>
  C14: Both digests, computed block by block with the last block or two assembled in a buffer, are the
  compression function iterated over the message padded as FIPS 180-4 prescribes (0x80, the least
  number of zeros, the bit length), for messages of every length; the padded message is a whole
  number of blocks and the digest has 32 bytes. The bit length is the code's, a 64-bit number, which is the
  standard's for messages of fewer than \<open>2 ^ 61\<close> bytes.
\<close>

theorem sha2_digests_standard:
  "digest512_256 msg =
     (let h = fold_blocks compress512 128 H512_256 (sha_pad 128 16 msg)
      in concat (map (\<lambda>i. map (\<lambda>b. ucast (drop_bit (56 - 8 * b) (h ! i))) [0..<8]) [0..<4])) \<and>
   sha256 msg =
     (let h = fold_blocks compress256 64 H256 (sha_pad 64 8 msg)
      in concat (map (\<lambda>i. map (\<lambda>b. ucast (drop_bit (24 - 8 * b) (h ! i))) [0..<4]) [0..<8])) \<and>
   128 dvd length (sha_pad 128 16 msg) \<and> 64 dvd length (sha_pad 64 8 msg) \<and>
   length (digest512_256 msg) = 32 \<and> length (sha256 msg) = 32"
  using digest512_256_blocks sha256_blocks length_digest512_256 length_sha256 by (simp add: sha_pad_length)

text \<open>
  The padded base32 text is the bits of the input, five at a time, as indices into the alphabet
  (the last group filled with zeros), followed by the least number of pad characters that makes
  the length a multiple of eight; and a claim id is always 52 characters of that alphabet.
\<close>

lemma base32_rfc4648:
  "(let out = base32_of_bits (concat (map (msb_bits 8) bytes))
    in base32StdPadded bytes = out @ replicate ((8 - length out mod 8) mod 8) CHR ''='' \<and>
       length out = (8 * length bytes + 4) div 5) \<and>
   length (computeJti s) = 52 \<and> set (computeJti s) \<subseteq> set base32_alphabet"
  using base32StdPadded_eq [of bytes] length_base32_loop [of bytes] computeJti_format [of s]
  by (simp add: base32_loop_bytes Let_def)

end
