(* ===== verification/Results.thy ===== *)
theory Results
  imports Prelude
begin

text \<open>
  The validation report (\<^verbatim>\<open>include/jwt/validation_results.hpp\<close>): a list of issues in the order they
  were added, each blocking, a time check, or a warning; and the two helpers of
  \<^verbatim>\<open>src/jwt_utils.cpp\<close> that build the throwing \<open>validate()\<close> and the expiry checks on it.

  Every \<open>validate(ValidationResults&)\<close> of the library only appends. The locale \<open>reporter\<close> states this
  contract and what follows from it; the components interpret it on their own checks.
\<close>

record issue =
  description :: string
  blocking :: bool
  timeCheck :: bool

type_synonym results = "issue list"

definition add :: "results \<Rightarrow> issue \<Rightarrow> results" where
  "add vr i = vr @ [i]"

definition addError :: "results \<Rightarrow> string \<Rightarrow> results" where
  "addError vr d = add vr \<lparr>description = d, blocking = True, timeCheck = False\<rparr>"

definition addTimeCheck :: "results \<Rightarrow> string \<Rightarrow> results" where
  "addTimeCheck vr d = add vr \<lparr>description = d, blocking = False, timeCheck = True\<rparr>"

definition addWarning :: "results \<Rightarrow> string \<Rightarrow> results" where
  "addWarning vr d = add vr \<lparr>description = d, blocking = False, timeCheck = False\<rparr>"

fun isBlocking :: "results \<Rightarrow> bool \<Rightarrow> bool" where
  "isBlocking [] includeTimeChecks = False"
| "isBlocking (i # is) includeTimeChecks =
     (if blocking i then True
      else if includeTimeChecks \<and> timeCheck i then True
      else isBlocking is includeTimeChecks)"

definition isEmpty :: "results \<Rightarrow> bool" where
  "isEmpty vr \<longleftrightarrow> vr = []"

definition errors :: "results \<Rightarrow> string list" where
  "errors vr = map description (filter blocking vr)"

definition warnings :: "results \<Rightarrow> string list" where
  "warnings vr = map description (filter (\<lambda>i. \<not> blocking i) vr)"

text \<open>\<open>if (c) vr.addError(d);\<close>\<close>

definition error_if :: "bool \<Rightarrow> string \<Rightarrow> results \<Rightarrow> results" where
  "error_if c d vr = (if c then addError vr d else vr)"

definition warning_if :: "bool \<Rightarrow> string \<Rightarrow> results \<Rightarrow> results" where
  "warning_if c d vr = (if c then addWarning vr d else vr)"

fun throwFirstBlocking :: "results \<Rightarrow> exn + unit" where
  "throwFirstBlocking [] = Inr ()"
| "throwFirstBlocking (i # is) =
     (if blocking i then Inl (InvalidClaimsError (description i)) else throwFirstBlocking is)"

text \<open>The clock is read once; the instant is a parameter.\<close>

definition addTimeChecks :: "int64 \<Rightarrow> results \<Rightarrow> int64 \<Rightarrow> int64 \<Rightarrow> results" where
  "addTimeChecks now vr exp nbf =
     (let vr1 = (if 0 < sint exp \<and> sint exp < sint now then addTimeCheck vr ''claim is expired'' else vr)
      in if 0 < sint nbf \<and> sint now < sint nbf then addTimeCheck vr1 ''claim is not yet valid'' else vr1)"

section \<open>What a report says\<close>

lemma isBlocking_iff:
  "isBlocking vr inc \<longleftrightarrow> (\<exists>i \<in> set vr. blocking i \<or> inc \<and> timeCheck i)"
  by (induction vr) auto

lemma isBlocking_append [simp]: "isBlocking (vr @ is) inc \<longleftrightarrow> isBlocking vr inc \<or> isBlocking is inc"
  by (auto simp: isBlocking_iff)

lemma isBlocking_False_errors: "isBlocking vr False \<longleftrightarrow> errors vr \<noteq> []"
  by (auto simp: isBlocking_iff errors_def filter_empty_conv)

lemma errors_append [simp]: "errors (vr @ is) = errors vr @ errors is"
  by (simp add: errors_def)

lemma warnings_append [simp]: "warnings (vr @ is) = warnings vr @ warnings is"
  by (simp add: warnings_def)

lemma throwFirstBlocking_eq:
  "throwFirstBlocking vr =
     (case errors vr of [] \<Rightarrow> Inr () | d # _ \<Rightarrow> Inl (InvalidClaimsError d))"
  by (induction vr) (auto simp: errors_def)

lemma throwFirstBlocking_append:
  "throwFirstBlocking (vr @ is) = bindE (throwFirstBlocking vr) (\<lambda>_. throwFirstBlocking is)"
  by (induction vr) auto

lemma throwFirstBlocking_Inr_iff: "throwFirstBlocking vr = Inr u \<longleftrightarrow> \<not> isBlocking vr False"
  by (induction vr) auto

named_theorems report_simps \<open>the findings a check appends\<close>

lemma errors_add [simp, report_simps]:
  "errors (addError vr d) = errors vr @ [d]"
  "errors (addWarning vr d) = errors vr"
  "errors (addTimeCheck vr d) = errors vr"
  "errors [] = []"
  by (simp_all add: errors_def addError_def addWarning_def addTimeCheck_def add_def)

lemma errors_error_if [simp, report_simps]:
  "errors (error_if c d vr) = errors vr @ (if c then [d] else [])"
  "errors (warning_if c d vr) = errors vr"
  by (simp_all add: error_if_def warning_if_def)

lemma errors_addTimeChecks [simp, report_simps]: "errors (addTimeChecks now vr exp nbf) = errors vr"
  by (simp add: addTimeChecks_def Let_def)

section \<open>The contract of a check\<close>

locale reporter =
  fixes run :: "results \<Rightarrow> results"
  assumes appends: "run vr = vr @ run []"
begin

lemma keeps_findings: "set vr \<subseteq> set (run vr)"
  using appends [of vr] by (metis Un_upper1 set_append)

lemma blocking_iff: "isBlocking (run vr) inc \<longleftrightarrow> isBlocking vr inc \<or> isBlocking (run []) inc"
  by (metis appends isBlocking_append)

lemma errors_run: "errors (run vr) = errors vr @ errors (run [])"
  by (metis appends errors_append)

text \<open>What the throwing form reports does not depend on what another check would have added after.\<close>

lemma first_error_wins:
  "throwFirstBlocking vr = Inl e \<Longrightarrow> throwFirstBlocking (run vr) = Inl e"
  by (metis appends throwFirstBlocking_append bindE.simps(1))

end

text \<open>Reporters compose: running one after the other, or over a list.\<close>

definition appending :: "(results \<Rightarrow> results) \<Rightarrow> bool" where
  "appending f \<longleftrightarrow> (\<forall>vr. f vr = vr @ f [])"

named_theorems appending_intros \<open>checks that only append\<close>

lemma appendingD: "appending f \<Longrightarrow> f vr = vr @ f []"
  unfolding appending_def by blast

lemma reporterI: "appending f \<Longrightarrow> reporter f"
  by unfold_locales (rule appendingD)

lemma appending_id [appending_intros]: "appending (\<lambda>vr. vr)"
  by (simp add: appending_def)

lemma appending_comp:
  assumes "appending f" "appending g"
  shows "appending (\<lambda>vr. f (g vr))"
  unfolding appending_def
proof
  fix vr
  have "f (g vr) = (vr @ g []) @ f []" using appendingD [OF assms(1)] appendingD [OF assms(2)] by metis
  also have "\<dots> = vr @ f (g [])" using appendingD [OF assms(1), of "g []"] by simp
  finally show "f (g vr) = vr @ f (g [])" .
qed

lemma appending_prims [simp]:
  "appending (\<lambda>vr. addError vr d)" "appending (\<lambda>vr. addWarning vr d)"
  "appending (\<lambda>vr. addTimeCheck vr d)"
  by (simp_all add: appending_def addError_def addWarning_def addTimeCheck_def add_def)

lemma appending_add [appending_intros]:
  "appending f \<Longrightarrow> appending (\<lambda>vr. addError (f vr) d)"
  "appending f \<Longrightarrow> appending (\<lambda>vr. addWarning (f vr) d)"
  "appending f \<Longrightarrow> appending (\<lambda>vr. addTimeCheck (f vr) d)"
  using appending_comp [OF appending_prims(1)] appending_comp [OF appending_prims(2)]
    appending_comp [OF appending_prims(3)] by blast+

lemma appending_if [appending_intros]:
  "appending f \<Longrightarrow> appending g \<Longrightarrow> appending (\<lambda>vr. if c then f vr else g vr)"
  by (cases c) simp_all

lemma appending_error_if [appending_intros]:
  "appending f \<Longrightarrow> appending (\<lambda>vr. error_if c d (f vr))"
  "appending f \<Longrightarrow> appending (\<lambda>vr. warning_if c d (f vr))"
  unfolding error_if_def warning_if_def by (cases c; simp add: appending_add)+

lemma appending_fold [appending_intros]:
  assumes "\<And>x. x \<in> set xs \<Longrightarrow> appending (g x)" and "appending f"
  shows "appending (\<lambda>vr. fold g xs (f vr))"
  using assms
proof (induction xs arbitrary: f)
  case (Cons x xs)
  have "appending (\<lambda>vr. g x (f vr))"
    by (rule appending_comp) (use Cons.prems in simp_all)
  from Cons.IH [OF _ this] Cons.prems show ?case by simp
qed simp

text \<open>Checks that may throw: whether they do and what they append does not depend on the report so far.\<close>

definition appendingE :: "(results \<Rightarrow> exn + results) \<Rightarrow> bool" where
  "appendingE f \<longleftrightarrow> (\<forall>vr. f vr = (case f [] of Inl e \<Rightarrow> Inl e | Inr is \<Rightarrow> Inr (vr @ is)))"

lemma appendingE_eq: "appendingE f \<Longrightarrow> f vr = (case f [] of Inl e \<Rightarrow> Inl e | Inr is \<Rightarrow> Inr (vr @ is))"
  unfolding appendingE_def by blast

lemma appendingE_D: "appendingE f \<Longrightarrow> f vr = Inr vr' \<Longrightarrow> \<exists>is. vr' = vr @ is"
  using appendingE_eq [of f vr] by (auto split: sum.splits)

lemma appendingE_Inr [appending_intros]: "appending f \<Longrightarrow> appendingE (\<lambda>vr. Inr (f vr))"
  by (auto simp: appendingE_def dest: appendingD)

lemma appendingE_Inl [appending_intros]: "appendingE (\<lambda>vr. Inl e)"
  by (simp add: appendingE_def)

lemma appendingE_bind [appending_intros]:
  assumes "appendingE f" and "appendingE g"
  shows "appendingE (\<lambda>vr. bindE (f vr) g)"
  unfolding appendingE_def
proof
  fix vr
  show "bindE (f vr) g = (case bindE (f []) g of Inl e \<Rightarrow> Inl e | Inr is \<Rightarrow> Inr (vr @ is))"
  proof (cases "f []")
    case (Inr found)
    have "g (vr @ found) = (case g found of Inl e \<Rightarrow> Inl e | Inr is \<Rightarrow> Inr (vr @ is))"
      using appendingE_eq [OF assms(2), of "vr @ found"] appendingE_eq [OF assms(2), of found]
      by (simp split: sum.splits)
    then show ?thesis using appendingE_eq [OF assms(1), of vr] Inr by simp
  qed (simp add: appendingE_eq [OF assms(1), of vr])
qed

lemma appendingE_if [appending_intros]:
  "appendingE f \<Longrightarrow> appendingE g \<Longrightarrow> appendingE (\<lambda>vr. if c then f vr else g vr)"
  by (cases c) simp_all

lemma appendingE_comp:
  assumes "appendingE f" and "appending g"
  shows "appendingE (\<lambda>vr. f (g vr))"
  unfolding appendingE_def
proof
  fix vr
  show "f (g vr) = (case f (g []) of Inl e \<Rightarrow> Inl e | Inr is \<Rightarrow> Inr (vr @ is))"
    using appendingE_eq [OF assms(1), of "g vr"] appendingE_eq [OF assms(1), of "g []"]
      appendingD [OF assms(2), of vr] by (simp split: sum.splits)
qed

text \<open>A check that may throw accepts: it returns, with nothing blocking.\<close>

definition accepts :: "(results \<Rightarrow> exn + results) \<Rightarrow> bool" where
  "accepts f \<longleftrightarrow> (case f [] of Inl e \<Rightarrow> False | Inr is \<Rightarrow> \<not> isBlocking is False)"

lemma appendingE_accepts:
  "appendingE f \<Longrightarrow> (\<exists>vr'. f vr = Inr vr' \<and> \<not> isBlocking vr' False) \<longleftrightarrow> \<not> isBlocking vr False \<and> accepts f"
  by (subst appendingE_eq) (auto simp: accepts_def split: sum.splits)

lemma accepts_bind:
  assumes "appendingE g"
  shows "accepts (\<lambda>vr. bindE (f vr) g) \<longleftrightarrow> accepts f \<and> accepts g"
proof (cases "f []")
  case (Inr found)
  then show ?thesis using appendingE_eq [OF assms, of found] by (auto simp: accepts_def split: sum.splits)
qed (simp add: accepts_def)

lemma accepts_Inr: "accepts (\<lambda>vr. Inr (f vr)) \<longleftrightarrow> \<not> isBlocking (f []) False"
  by (simp add: accepts_def)

lemma appending_blocking:
  "appending f \<Longrightarrow> isBlocking (f vr) inc \<longleftrightarrow> isBlocking vr inc \<or> isBlocking (f []) inc"
  by (metis appendingD isBlocking_append)

lemma error_if_blocking:
  "isBlocking (error_if c d vr) False \<longleftrightarrow> c \<or> isBlocking vr False"
  "isBlocking (warning_if c d vr) False \<longleftrightarrow> isBlocking vr False"
  "isBlocking (addError vr d) False"
  "isBlocking (addTimeChecks now vr exp nbf) False \<longleftrightarrow> isBlocking vr False"
  by (auto simp: isBlocking_False_errors)

lemma appending_blockingI: "appending f \<Longrightarrow> isBlocking vr inc \<Longrightarrow> isBlocking (f vr) inc"
  using appending_blocking by blast

lemma appending_fold_blocking:
  assumes "\<And>x. appending (g x)"
  shows "isBlocking (fold g xs vr) inc \<longleftrightarrow> isBlocking vr inc \<or> (\<exists>x \<in> set xs. isBlocking (g x []) inc)"
proof (induction xs arbitrary: vr)
  case (Cons x xs)
  then show ?case using appending_blocking [OF assms, of x vr] by auto
qed simp

lemma appending_addTimeChecks: "appending (\<lambda>vr. addTimeChecks now vr exp nbf)"
  unfolding addTimeChecks_def Let_def by (intro appending_intros)

interpretation time_checks: reporter "\<lambda>vr. addTimeChecks now vr exp nbf"
  by (rule reporterI, rule appending_addTimeChecks)

end
