(* ===== verification/Subjects.thy ===== *)
theory Subjects
  imports Results
begin

text \<open>
  The rules on subjects (\<^verbatim>\<open>src/subject_utils.hpp\<close>, and \<open>cleanSubject\<close> of \<^verbatim>\<open>src/jwt_utils.cpp\<close>):
  validity, wildcards, containment, renaming subjects, info URLs and permission entries.

  The code works on characters; the lemmas relate each rule to the tokens of the subject: what
  \<open>splitOn\<close> returns, which subjects pass, when containment is inclusion of the sets of matching
  subjects, and when a renaming subject makes \<open>std::stoi\<close> throw.
\<close>

section \<open>The code\<close>

function splitOn :: "string \<Rightarrow> char \<Rightarrow> string list" where
  "splitOn s sep =
     (case find_char sep s of
        None \<Rightarrow> [s]
      | Some next \<Rightarrow> take next s # splitOn (drop (Suc next) s) sep)"
  by pat_completeness auto
termination
  by (relation "measure (\<lambda>(s, sep). length s)") (auto dest: find_char_SomeD(3))

declare splitOn.simps [simp del]

definition validateSubject :: "string \<Rightarrow> results \<Rightarrow> results" where
  "validateSubject v vr =
     (if v = [] then addError vr ''subject cannot be empty''
      else
        let vr1 = error_if (find_char CHR '' '' v \<noteq> None)
                    (''subject '' @ quoted v @ '' cannot have spaces'') vr;
            vr2 = error_if (hd v = CHR ''.'' \<or> last v = CHR ''.'')
                    (''subject '' @ quoted v @ '' cannot start or end with a `.`'') vr1
        in error_if (find_str ''..'' v \<noteq> None)
             (''subject '' @ quoted v @ '' cannot contain consecutive `.`'') vr2)"

definition subjectHasWildcards :: "string \<Rightarrow> bool" where
  "subjectHasWildcards v \<longleftrightarrow>
     ends_with v ''.>'' \<or> find_str ''.*.'' v \<noteq> None \<or> ends_with v ''.*'' \<or>
     starts_with v ''*.'' \<or> v = ''*'' \<or> v = ''>''"

definition countTokenWildcards :: "string \<Rightarrow> nat" where
  "countTokenWildcards v =
     (if v = ''*'' then 1
      else fold (\<lambda>t cnt. if t = ''*'' then Suc cnt else cnt) (splitOn v CHR ''.'') 0)"

text \<open>The loop of \<open>subjectIsContainedIn\<close> from index \<open>i\<close> on.\<close>

function contained_loop :: "string list \<Rightarrow> string list \<Rightarrow> nat \<Rightarrow> bool" where
  "contained_loop myArr otherArr i =
     (if i < length otherArr
      then let tok = otherArr ! i
           in if i = length otherArr - 1 \<and> tok = ''>'' then True
              else if tok \<noteq> myArr ! i \<and> tok \<noteq> ''*'' then False
              else contained_loop myArr otherArr (Suc i)
      else True)"
  by pat_completeness auto
termination
  by (relation "measure (\<lambda>(myArr, otherArr, i). length otherArr - i)") auto

declare contained_loop.simps [simp del]

definition subjectIsContainedIn :: "string \<Rightarrow> string \<Rightarrow> bool" where
  "subjectIsContainedIn s other =
     (let otherArr = splitOn other CHR ''.''; myArr = splitOn s CHR ''.''
      in if length otherArr < length myArr \<and> last otherArr \<noteq> ''>'' then False
         else if length myArr < length otherArr then False
         else contained_loop myArr otherArr 0)"

definition isDigits :: "string \<Rightarrow> bool" where
  "isDigits s \<longleftrightarrow> s \<noteq> [] \<and> (\<forall>c \<in> set s. is_digit c)"

text \<open>\<open>std::stoi\<close> on a string of digits: an \<open>int\<close>, or \<open>std::out_of_range\<close>.\<close>

definition stoi :: "string \<Rightarrow> exn + nat" where
  "stoi s = (if digits_value s < 2 ^ 31 then Inr (digits_value s) else Inl StdOutOfRange)"

definition matchesSuffix :: "string \<Rightarrow> bool" where
  "matchesSuffix x \<longleftrightarrow> x = ''>'' \<or> ends_with x ''.>''"

text \<open>One token of the loop of \<open>validateRenamingSubject\<close>; the state is \<open>refCnt\<close> and the report.\<close>

definition renaming_token ::
  "string \<Rightarrow> string \<Rightarrow> nat \<Rightarrow> nat \<times> results \<Rightarrow> string \<Rightarrow> exn + (nat \<times> results)" where
  "renaming_token s from' fromCnt st tk =
     (case st of (refCnt, vr) \<Rightarrow>
        let refCnt1 = (if tk = ''*'' then Suc refCnt else refCnt)
        in if length tk < 2 then Inr (refCnt1, vr)
           else if hd tk = CHR ''$'' \<and> isDigits (tl tk) then
             bindE (stoi (tl tk)) (\<lambda>idx.
               if idx > fromCnt
               then Inr (refCnt1, addError vr (''Reference $'' @ nat_to_string idx @ '' in '' @ quoted s @
                      '' reference * in '' @ quoted from' @ '' that do not exist''))
               else Inr (Suc refCnt1, vr))
           else Inr (refCnt1, vr))"

definition validateRenamingSubject :: "string \<Rightarrow> string \<Rightarrow> results \<Rightarrow> exn + results" where
  "validateRenamingSubject s from' vr =
     (let vr1 = validateSubject s vr;
          vr2 = error_if (from' = []) ''subject cannot be empty'' vr1;
          vr3 = error_if (find_char CHR '' '' s \<noteq> None)
                  (''subject '' @ quoted s @ '' cannot have spaces'') vr2;
          vr4 = error_if (matchesSuffix s \<noteq> matchesSuffix from')
                  ''both, renaming subject and subject, need to end or not end in >'' vr3;
          fromCnt = countTokenWildcards from'
      in bindE (foldE (renaming_token s from' fromCnt) (0, vr4) (splitOn s CHR ''.''))
           (\<lambda>(refCnt, vr5). Inr (error_if (refCnt \<noteq> fromCnt)
              ''subject does not contain enough * or reference wildcards $[0-9]'' vr5)))"

text \<open>The loop that rebuilds the subject; \<open>i\<close> is the index of the first token left.\<close>

fun rename_loop :: "string list \<Rightarrow> nat \<Rightarrow> string \<Rightarrow> string" where
  "rename_loop [] i out = out"
| "rename_loop (tk # tokens) i out =
     (let convert = 1 < length tk \<and> hd tk = CHR ''$'' \<and> isDigits (tl tk);
          out1 = (if 0 < i then out @ ''.'' else out)
      in rename_loop tokens (Suc i) (out1 @ (if convert then ''*'' else tk)))"

definition renamingToSubject :: "string \<Rightarrow> string" where
  "renamingToSubject s =
     (if find_char CHR ''$'' s = None then s else rename_loop (splitOn s CHR ''.'') 0 [])"

text \<open>\<open>rfind(c)\<close> and \<open>find_first_of\<close>.\<close>

definition rfind_char :: "char \<Rightarrow> string \<Rightarrow> nat option" where
  "rfind_char c s = map_option (\<lambda>i. length s - Suc i) (find_char c (rev s))"

definition until_any :: "string \<Rightarrow> string \<Rightarrow> string" where
  "until_any cs s = takeWhile (\<lambda>c. c \<notin> set cs) s"

definition url_host :: "string \<Rightarrow> string" where
  "url_host rest =
     (let authority = until_any ''/?#'' rest;
          authority1 = (case rfind_char CHR ''@'' authority of
                          None \<Rightarrow> authority | Some at \<Rightarrow> drop (Suc at) authority)
      in case rfind_char CHR '':'' authority1 of
           Some colon \<Rightarrow>
             if find_char CHR '']'' authority1 = None then take colon authority1 else authority1
         | None \<Rightarrow> authority1)"

definition MaxInfoLength :: nat where
  "MaxInfoLength = 8 * 1024"

definition validateInfo :: "string \<Rightarrow> string \<Rightarrow> results \<Rightarrow> results" where
  "validateInfo desc infoURL vr =
     (let vr1 = error_if (length desc > MaxInfoLength) ''Description is too long'' vr
      in if infoURL = [] then vr1
         else
           let vr2 = error_if (length infoURL > MaxInfoLength) ''Info URL is too long'' vr1;
               ok = (case find_str ''://'' infoURL of
                       None \<Rightarrow> False
                     | Some sep \<Rightarrow> 0 < sep \<and> url_host (drop (sep + 3) infoURL) \<noteq> [])
           in error_if (\<not> ok) ''error parsing info url: no hostname or scheme'' vr2)"

definition checkPermission :: "bool \<Rightarrow> string \<Rightarrow> results \<Rightarrow> results" where
  "checkPermission permitQueue subj vr =
     (case splitOn subj CHR '' '' of
        [t] \<Rightarrow> validateSubject t vr
      | [t, u] \<Rightarrow>
          error_if (\<not> permitQueue)
            (''Permission Subject '' @ quoted subj @ '' is not allowed to contain queue'')
            (validateSubject u (validateSubject t vr))
      | _ \<Rightarrow> addError vr (''Permission Subject '' @ quoted subj @ '' contains too many spaces''))"

text \<open>\<open>cleanSubject\<close>, the loop from the position \<open>pos\<close> of token number \<open>index\<close>.\<close>

function clean_loop :: "string \<Rightarrow> nat \<Rightarrow> nat \<Rightarrow> string" where
  "clean_loop subject pos index =
     (if pos \<le> length subject
      then let tok = (case find_from CHR ''.'' subject pos of
                        None \<Rightarrow> drop pos subject
                      | Some next \<Rightarrow> substr subject pos (next - pos))
           in if tok = ''*'' \<or> tok = ''>''
              then (if index = 0 then ''_'' else substr subject 0 (pos - 1))
              else (case find_from CHR ''.'' subject pos of
                      None \<Rightarrow> subject
                    | Some next \<Rightarrow> clean_loop subject (next + 1) (Suc index))
      else subject)"
  by pat_completeness auto
termination
  by (relation "measure (\<lambda>(subject, pos, index). Suc (length subject) - pos)")
     (auto simp: find_from_def dest: find_char_SomeD(3))

declare clean_loop.simps [simp del]

definition cleanSubject :: "string \<Rightarrow> string" where
  "cleanSubject subject = clean_loop subject 0 0"

section \<open>Tokens\<close>

fun join :: "char \<Rightarrow> string list \<Rightarrow> string" where
  "join sep [] = []"
| "join sep [t] = t"
| "join sep (t # ts) = t @ sep # join sep ts"

lemma join_Cons: "ts \<noteq> [] \<Longrightarrow> join sep (t # ts) = t @ sep # join sep ts"
  by (cases ts) auto

lemma splitOn_Nil [simp]: "splitOn [] sep = [[]]"
  by (simp add: splitOn.simps)

lemma splitOn_Cons:
  "splitOn (c # s) sep =
     (if c = sep then [] # splitOn s sep else (c # hd (splitOn s sep)) # tl (splitOn s sep))"
  by (subst (1 2 3) splitOn.simps) (auto simp: splitOn.simps [of s] split: option.splits)

lemma splitOn_not_Nil [simp]: "splitOn s sep \<noteq> []"
  by (subst splitOn.simps) (auto split: option.splits)

lemma splitOn_tokens: "t \<in> set (splitOn s sep) \<Longrightarrow> sep \<notin> set t"
proof (induction s arbitrary: t)
  case (Cons c s)
  then show ?case
    using Cons.IH [of "hd (splitOn s sep)"] list.set_sel [of "splitOn s sep"]
    by (auto simp: splitOn_Cons split: if_splits)
qed simp

lemma join_hd_Cons: "ts \<noteq> [] \<Longrightarrow> join sep ((c # hd ts) # tl ts) = c # join sep ts"
  by (cases ts; cases "tl ts") auto

lemma join_splitOn [simp]: "join sep (splitOn s sep) = s"
  by (induction s) (auto simp: splitOn_Cons join_Cons join_hd_Cons)

lemma splitOn_append:
  "sep \<notin> set t \<Longrightarrow> splitOn (t @ sep # s) sep = t # splitOn s sep"
  by (induction t) (auto simp: splitOn_Cons)

lemma splitOn_single: "sep \<notin> set t \<Longrightarrow> splitOn t sep = [t]"
  by (induction t) (auto simp: splitOn_Cons)

lemma splitOn_join:
  "ts \<noteq> [] \<Longrightarrow> (\<And>t. t \<in> set ts \<Longrightarrow> sep \<notin> set t) \<Longrightarrow> splitOn (join sep ts) sep = ts"
  by (induction ts rule: join.induct) (auto simp: splitOn_append splitOn_single)

text \<open>So \<open>splitOn\<close> gives the one way to cut the text at every separator.\<close>

lemma splitOn_unique:
  "splitOn s sep = ts \<longleftrightarrow> ts \<noteq> [] \<and> join sep ts = s \<and> (\<forall>t \<in> set ts. sep \<notin> set t)"
  using splitOn_join splitOn_tokens by fastforce

section \<open>Which subjects are valid\<close>

lemma find_str_iff: "find_str pat s \<noteq> None \<longleftrightarrow> (\<exists>xs ys. s = xs @ pat @ ys)"
proof (induction s)
  case Nil
  then show ?case by (subst find_str.simps) auto
next
  case (Cons c s)
  have "(\<exists>xs ys. c # s = xs @ pat @ ys) \<longleftrightarrow>
      (\<exists>ys. c # s = pat @ ys) \<or> (\<exists>xs ys. s = xs @ pat @ ys)"
    by (metis append_Cons append_Nil list.sel(3) neq_Nil_conv)
  moreover have "(\<exists>ys. c # s = pat @ ys) \<longleftrightarrow> take (length pat) (c # s) = pat"
    by (metis append_eq_conv_conj append_take_drop_id)
  ultimately show ?case using Cons by (subst find_str.simps) auto
qed

lemma find_str_SomeD:
  "find_str pat s = Some i \<Longrightarrow> s = take i s @ pat @ drop (i + length pat) s"
proof (induction s arbitrary: i)
  case Nil
  then show ?case by (subst (asm) find_str.simps) (auto split: if_splits)
next
  case (Cons c s)
  show ?case
  proof (cases "take (length pat) (c # s) = pat")
    case True
    with Cons.prems have "i = 0" by (subst (asm) find_str.simps) simp
    with True show ?thesis by (metis append_Nil append_take_drop_id plus_nat.add_0 take0)
  next
    case False
    with Cons.prems obtain j where "find_str pat s = Some j" "i = Suc j"
      by (subst (asm) find_str.simps) auto
    with Cons.IH show ?thesis by simp
  qed
qed

lemma find_str_append:
  "p \<notin> set xs \<Longrightarrow> find_str (p # pat) (xs @ p # pat @ ys) = Some (length xs)"
proof (induction xs)
  case Nil
  then show ?case by (subst find_str.simps) simp
next
  case (Cons x xs)
  then show ?case by (subst find_str.simps) auto
qed

lemma find_str_Cons_iff:
  "find_str pat (c # s) \<noteq> None \<longleftrightarrow> take (length pat) (c # s) = pat \<or> find_str pat s \<noteq> None"
  by (subst find_str.simps) auto

lemma hd_splitOn_Nil_iff: "hd (splitOn s sep) = [] \<longleftrightarrow> s = [] \<or> hd s = sep"
  by (cases s) (auto simp: splitOn_Cons)

lemma in_splitOn_hd_tl:
  "t \<in> set (splitOn s sep) \<longleftrightarrow> t = hd (splitOn s sep) \<or> t \<in> set (tl (splitOn s sep))"
  by (metis list.collapse set_ConsD list.set_intros splitOn_not_Nil)

lemma find_dots_Cons:
  "find_str ''..'' (c # s) \<noteq> None \<longleftrightarrow>
     c = CHR ''.'' \<and> s \<noteq> [] \<and> hd s = CHR ''.'' \<or> find_str ''..'' s \<noteq> None"
  unfolding find_str_Cons_iff by (cases s) auto

lemma find_str_Nil [simp]: "find_str (p # pat) [] = None"
  by (simp add: find_str.simps)

lemma empty_later_token_iff:
  "[] \<in> set (tl (splitOn s CHR ''.'')) \<longleftrightarrow>
     s \<noteq> [] \<and> (last s = CHR ''.'' \<or> find_str ''..'' s \<noteq> None)"
proof (induction s)
  case (Cons c s)
  have hd: "[] = hd (splitOn s CHR ''.'') \<longleftrightarrow> s = [] \<or> hd s = CHR ''.''"
    using hd_splitOn_Nil_iff [of s "CHR ''.''"] by metis
  show ?case
  proof (cases "c = CHR ''.''")
    case True
    then have "[] \<in> set (tl (splitOn (c # s) CHR ''.'')) \<longleftrightarrow> [] \<in> set (splitOn s CHR ''.'')"
      by (simp add: splitOn_Cons)
    also have "\<dots> \<longleftrightarrow> s = [] \<or> hd s = CHR ''.'' \<or> last s = CHR ''.'' \<or> find_str ''..'' s \<noteq> None"
      unfolding in_splitOn_hd_tl [of "[]"] hd Cons by blast
    finally show ?thesis using True unfolding find_dots_Cons by (cases "s = []") auto
  next
    case False
    then show ?thesis using Cons unfolding find_dots_Cons by (cases "s = []") (auto simp: splitOn_Cons)
  qed
qed simp

lemma empty_token_iff:
  "[] \<in> set (splitOn s CHR ''.'') \<longleftrightarrow>
     s = [] \<or> hd s = CHR ''.'' \<or> last s = CHR ''.'' \<or> find_str ''..'' s \<noteq> None"
  unfolding in_splitOn_hd_tl [of "[]"] empty_later_token_iff
  using hd_splitOn_Nil_iff [of s "CHR ''.''"] by metis

lemma set_splitOn: "set s = (\<Union>t \<in> set (splitOn s sep). set t) \<union> (if sep \<in> set s then {sep} else {})"
proof -
  have "set (join sep ts) = (\<Union>t \<in> set ts. set t) \<union> (if length ts > 1 then {sep} else {})" for ts
    by (induction ts rule: join.induct) auto
  moreover have "sep \<notin> (\<Union>t \<in> set (splitOn s sep). set t)"
    using splitOn_tokens by blast
  ultimately have nosep: "sep \<notin> (\<Union>t \<in> set (splitOn s sep). set t)"
    and eq: "set s = (\<Union>t \<in> set (splitOn s sep). set t) \<union> (if length (splitOn s sep) > 1 then {sep} else {})"
    using join_splitOn [of sep s] by metis+
  show ?thesis unfolding eq using nosep by auto
qed

lemma token_subset: "t \<in> set (splitOn s sep) \<Longrightarrow> set t \<subseteq> set s"
  using set_splitOn [of s sep] by blast

lemma appending_validateSubject: "appending (validateSubject v)"
  unfolding validateSubject_def Let_def by (cases "v = []") (simp_all add: appending_intros)

interpretation subject_report: reporter "validateSubject v"
  by (rule reporterI [OF appending_validateSubject])

text \<open>A subject passes when it has no empty token and no token with a space.\<close>

lemma validateSubject_passes:
  "validateSubject v [] = [] \<longleftrightarrow> (\<forall>t \<in> set (splitOn v CHR ''.''). t \<noteq> [] \<and> CHR '' '' \<notin> set t)"
proof -
  have "(\<forall>t \<in> set (splitOn v CHR ''.''). CHR '' '' \<notin> set t) \<longleftrightarrow> CHR '' '' \<notin> set v"
    using set_splitOn [of v "CHR ''.''"] by (auto split: if_splits)
  moreover have "(\<forall>t \<in> set (splitOn v CHR ''.''). t \<noteq> []) \<longleftrightarrow>
      v \<noteq> [] \<and> hd v \<noteq> CHR ''.'' \<and> last v \<noteq> CHR ''.'' \<and> find_str ''..'' v = None"
    using empty_token_iff [of v] by metis
  moreover have "validateSubject v [] = [] \<longleftrightarrow>
      v \<noteq> [] \<and> CHR '' '' \<notin> set v \<and> hd v \<noteq> CHR ''.'' \<and> last v \<noteq> CHR ''.'' \<and> find_str ''..'' v = None"
    by (auto simp: validateSubject_def Let_def error_if_def addError_def add_def find_char_None_iff)
  ultimately show ?thesis by blast
qed

lemma validateSubject_errors: "errors (validateSubject v []) = [] \<longleftrightarrow> validateSubject v [] = []"
  by (auto simp: validateSubject_def Let_def error_if_def addError_def add_def errors_def)

section \<open>Wildcards\<close>

lemma splitOn_infix:
  "splitOn (xs @ sep # ys) sep = splitOn xs sep @ splitOn ys sep"
  by (induction xs) (auto simp: splitOn_Cons)

lemma ends_with_iff: "ends_with s suf \<longleftrightarrow> (\<exists>xs. s = xs @ suf)"
  unfolding ends_with_def by (metis append_take_drop_id append_eq_conv_conj diff_add_inverse2 le_add2
      length_append)

lemma starts_with_iff: "starts_with s pre \<longleftrightarrow> (\<exists>xs. s = pre @ xs)"
  by (metis append_eq_conv_conj starts_with_def)

text \<open>A token of a text is the whole text, or stands at one of its ends or between separators.\<close>

lemma splitOn_cut:
  assumes "splitOn s sep = as @ bs" "as \<noteq> []" "bs \<noteq> []"
  shows "s = join sep as @ sep # join sep bs"
proof -
  have "join sep (as @ bs) = join sep as @ sep # join sep bs"
    using assms(2)
  proof (induction as)
    case (Cons a as)
    then show ?case using assms(3) by (cases "as = []") (simp_all add: join_Cons)
  qed simp
  then show ?thesis using assms(1) join_splitOn by metis
qed

lemma in_splitOn_iff:
  assumes "sep \<notin> set t"
  shows "t \<in> set (splitOn s sep) \<longleftrightarrow>
     s = t \<or> (\<exists>xs. s = t @ sep # xs) \<or> (\<exists>xs. s = xs @ sep # t) \<or> (\<exists>xs ys. s = xs @ sep # t @ sep # ys)"
    (is "_ \<longleftrightarrow> ?R")
proof
  assume "t \<in> set (splitOn s sep)"
  then obtain as bs where s: "splitOn s sep = as @ t # bs" by (meson split_list)
  show ?R
  proof (cases "as = []")
    case True
    then show ?thesis using s splitOn_cut [of s sep "[t]" bs] join_splitOn [of sep s]
      by (cases "bs = []") auto
  next
    case False
    then have pre: "s = join sep as @ sep # join sep (t # bs)"
      using s by (intro splitOn_cut) auto
    then show ?thesis by (cases "bs = []") (auto simp: join_Cons)
  qed
next
  assume ?R
  then show "t \<in> set (splitOn s sep)"
    using assms by (auto simp: splitOn_infix splitOn_single)
qed

lemma last_splitOn_iff:
  assumes "sep \<notin> set t"
  shows "last (splitOn s sep) = t \<longleftrightarrow> s = t \<or> (\<exists>xs. s = xs @ sep # t)"
proof
  assume l: "last (splitOn s sep) = t"
  show "s = t \<or> (\<exists>xs. s = xs @ sep # t)"
  proof (cases "butlast (splitOn s sep) = []")
    case True
    then have "splitOn s sep = [t]" using l append_butlast_last_id [OF splitOn_not_Nil, of s sep] by simp
    then show ?thesis using join_splitOn [of sep s] by simp
  next
    case False
    have "splitOn s sep = butlast (splitOn s sep) @ [t]"
      using l append_butlast_last_id [OF splitOn_not_Nil] by metis
    with False show ?thesis using splitOn_cut by (metis join.simps(2) not_Cons_self2)
  qed
next
  assume "s = t \<or> (\<exists>xs. s = xs @ sep # t)"
  then show "last (splitOn s sep) = t"
    using assms by (auto simp: splitOn_infix splitOn_single)
qed

lemma subjectHasWildcards_tokens:
  "subjectHasWildcards v \<longleftrightarrow>
     ''*'' \<in> set (splitOn v CHR ''.'') \<or> last (splitOn v CHR ''.'') = ''>''"
  unfolding subjectHasWildcards_def ends_with_iff starts_with_iff find_str_iff
  by (subst in_splitOn_iff, simp, subst last_splitOn_iff, simp) auto

lemma countTokenWildcards_tokens:
  "countTokenWildcards v = count_list (splitOn v CHR ''.'') ''*''"
proof -
  have "fold (\<lambda>t cnt. if t = ''*'' then Suc cnt else cnt) ts n = n + count_list ts ''*''" for ts n
    by (induction ts arbitrary: n) auto
  then show ?thesis by (auto simp: countTokenWildcards_def splitOn_Cons)
qed

section \<open>Containment\<close>

text \<open>Which subjects without wildcards a subject with wildcards matches, token by token.\<close>

fun matches :: "string list \<Rightarrow> string list \<Rightarrow> bool" where
  "matches [] lit = (lit = [])"
| "matches (p # ps) [] = False"
| "matches (p # ps) (t # ts) =
     (if p = ''>'' \<and> ps = [] then True else (p = ''*'' \<or> p = t) \<and> matches ps ts)"

definition literal :: "string list \<Rightarrow> bool" where
  "literal ts \<longleftrightarrow> ''*'' \<notin> set ts \<and> ''>'' \<notin> set ts"

text \<open>The wildcard \<open>>\<close> only as the last token.\<close>

definition well_placed :: "string list \<Rightarrow> bool" where
  "well_placed ts \<longleftrightarrow> ''>'' \<notin> set (butlast ts)"

text \<open>The recursion the index loop amounts to.\<close>

fun contained :: "string list \<Rightarrow> string list \<Rightarrow> bool" where
  "contained ms [] = (ms = [])"
| "contained [] (tok # os) = False"
| "contained (m # ms) (tok # os) =
     (if os = [] \<and> tok = ''>'' then True else (tok = m \<or> tok = ''*'') \<and> contained ms os)"

lemma contained_loop_drop:
  "i \<le> length os \<Longrightarrow> length os \<le> length ms \<Longrightarrow> (length os < length ms \<longrightarrow> last os = ''>'') \<Longrightarrow>
     os \<noteq> [] \<Longrightarrow> (i = length os \<longrightarrow> length ms = length os) \<Longrightarrow>
     contained_loop ms os i = contained (drop i ms) (drop i os)"
proof (induction ms os i rule: contained_loop.induct)
  case (1 ms os i)
  show ?case
  proof (cases "i < length os")
    case True
    then have drops: "drop i ms = ms ! i # drop (Suc i) ms" "drop i os = os ! i # drop (Suc i) os"
      using "1.prems" by (simp_all add: Cons_nth_drop_Suc)
    have last: "i = length os - 1 \<longleftrightarrow> drop (Suc i) os = []" using True by auto
    let ?stop = "i = length os - 1 \<and> os ! i = ''>''"
    let ?miss = "os ! i \<noteq> ms ! i \<and> os ! i \<noteq> ''*''"
    have step: "contained_loop ms os i =
        (if ?stop then True else if ?miss then False else contained_loop ms os (Suc i))"
      using True by (subst contained_loop.simps) (simp add: Let_def)
    have step': "contained (drop i ms) (drop i os) =
        (if ?stop then True else if ?miss then False else contained (drop (Suc i) ms) (drop (Suc i) os))"
      unfolding drops contained.simps last by (simp add: eq_commute [of "ms ! i"])
    have IH: "contained_loop ms os (Suc i) = contained (drop (Suc i) ms) (drop (Suc i) os)"
      if "\<not> ?stop" "\<not> ?miss"
    proof (rule "1.IH" [OF True refl that])
      have "os ! i = last os" if "i = length os - 1"
        using that "1.prems"(4) by (simp add: last_conv_nth)
      then show "Suc i = length os \<longrightarrow> length ms = length os"
        using that(1) "1.prems"(2,3) by fastforce
    qed (use True "1.prems" in auto)
    show ?thesis unfolding step step' using IH by auto
  next
    case False
    then show ?thesis using "1.prems" by (subst contained_loop.simps) auto
  qed
qed

lemma contained_lengths:
  "contained ms os \<Longrightarrow> length os \<le> length ms \<and> (length os < length ms \<longrightarrow> last os = ''>'')"
  by (induction ms os rule: contained.induct) (auto split: if_splits)

lemma subjectIsContainedIn_tokens:
  "subjectIsContainedIn s other = contained (splitOn s CHR ''.'') (splitOn other CHR ''.'')"
  using contained_loop_drop [of 0 "splitOn other CHR ''.''" "splitOn s CHR ''.''"]
    contained_lengths [of "splitOn s CHR ''.''" "splitOn other CHR ''.''"]
  by (auto simp: subjectIsContainedIn_def Let_def)

text \<open>
  The rule compares a final \<open>>\<close> of the contained subject like any other token, so a final \<open>*\<close> of the
  other one absorbs it, although it matches one token only.
\<close>

definition one_token_tail :: "string list \<Rightarrow> string list \<Rightarrow> string list" where
  "one_token_tail ms os = (if last ms = ''>'' \<and> last os \<noteq> ''>'' then butlast ms @ [''*''] else ms)"

lemma contained_sound:
  "contained ms os \<Longrightarrow> well_placed ms \<Longrightarrow> last ms = ''>'' \<longrightarrow> last os = ''>'' \<Longrightarrow> matches ms lit \<Longrightarrow>
     matches os lit"
proof (induction ms os arbitrary: lit rule: contained.induct)
  case (3 m ms tok os)
  from "3.prems"(4) obtain t ts where lit: "lit = t # ts" by (cases lit) auto
  show ?case
  proof (cases "os = [] \<and> tok = ''>''")
    case False
    then have tok: "tok = m \<or> tok = ''*''" and cont: "contained ms os" using "3.prems"(1) by auto
    have nil: "ms = [] \<longleftrightarrow> os = []" using cont contained_lengths [OF cont] by (cases ms; cases os) auto
    have "m \<noteq> ''>''"
    proof
      assume m: "m = ''>''"
      show False
      proof (cases "ms = []")
        case True
        with m nil "3.prems"(3) False show False by auto
      next
        case False
        with m "3.prems"(2) show False by (simp add: well_placed_def)
      qed
    qed
    with "3.prems"(4) lit have head: "m = ''*'' \<or> m = t" and tail: "matches ms ts" by auto
    have "matches os ts"
    proof (cases "ms = []")
      case True
      with nil tail show ?thesis by simp
    next
      case ms: False
      then show ?thesis using "3.IH" [OF False cont _ _ tail] "3.prems"(2,3) nil
        by (simp add: well_placed_def)
    qed
    with False tok head lit show ?thesis by auto
  qed (simp add: lit)
qed auto

text \<open>A subject with every wildcard replaced by one and the same token.\<close>

abbreviation fill :: "string \<Rightarrow> string list \<Rightarrow> string list" where
  "fill f ms \<equiv> map (\<lambda>p. if p = ''*'' \<or> p = ''>'' then f else p) ms"

lemma matches_fill: "well_placed ms \<Longrightarrow> matches ms (fill f ms)"
  by (induction ms) (auto simp: well_placed_def split: if_splits)

lemma contained_fill:
  "f \<notin> set os \<Longrightarrow> matches os (fill f ms) \<Longrightarrow> contained ms os"
  by (induction ms os rule: contained.induct) (auto split: if_splits)

lemma contained_one_token:
  "contained (xs @ [''>'']) os \<Longrightarrow> well_placed os \<Longrightarrow> contained (xs @ [''*'']) os"
proof (induction xs arbitrary: os)
  case Nil
  then show ?case by (cases os; cases "tl os") (auto split: if_splits simp: well_placed_def)
next
  case (Cons x xs)
  then show ?case by (cases os) (auto simp: well_placed_def split: if_splits)
qed

lemma fresh_token: "\<exists>f. f \<notin> set os \<and> f \<noteq> ''*'' \<and> f \<noteq> ''>''"
proof -
  let ?f = "replicate (Suc (Suc (sum_list (map length os)))) CHR ''x''"
  have "length t \<le> sum_list (map length os)" if "t \<in> set os" for t
    using that by (induction os) auto
  then have "?f \<notin> set os" by fastforce
  then show ?thesis by (intro exI [of _ ?f]) simp
qed

lemma one_token_tail_cases:
  assumes "ms \<noteq> []"
  obtains (cut) xs where "ms = xs @ [''>'']" "one_token_tail ms os = xs @ [''*'']"
    | (same) "one_token_tail ms os = ms" "last ms = ''>'' \<longrightarrow> last os = ''>''"
proof (cases "last ms = ''>'' \<and> last os \<noteq> ''>''")
  case True
  show ?thesis
  proof (rule cut)
    show "ms = butlast ms @ [''>'']" using True append_butlast_last_id [OF assms] by simp
    show "one_token_tail ms os = butlast ms @ [''*'']" using True by (simp add: one_token_tail_def)
  qed
next
  case False
  then show ?thesis by (intro same) (auto simp: one_token_tail_def)
qed

lemma contained_iff:
  assumes ms: "well_placed ms" "ms \<noteq> []" and os: "well_placed os"
  shows "contained ms os \<longleftrightarrow>
    (\<forall>lit. literal lit \<longrightarrow> matches (one_token_tail ms os) lit \<longrightarrow> matches os lit)"
proof -
  let ?ms = "one_token_tail ms os"
  have wp: "well_placed ?ms" and tail: "last ?ms = ''>'' \<longrightarrow> last os = ''>''"
    and fills: "fill f ?ms = fill f ms" and c: "contained ms os \<Longrightarrow> contained ?ms os" for f
    using ms(1) contained_one_token [OF _ os]
    by (cases os rule: one_token_tail_cases [OF ms(2)]; simp add: well_placed_def)+
  obtain f where f: "f \<notin> set os" "f \<noteq> ''*''" "f \<noteq> ''>''" using fresh_token by blast
  have "literal (fill f ?ms)" using f by (auto simp: literal_def)
  moreover have "contained ms os" if "matches os (fill f ?ms)"
    by (rule contained_fill [OF f(1)]) (use that in \<open>simp only: fills\<close>)
  ultimately show ?thesis
    using contained_sound [OF c wp tail] matches_fill [OF wp] by blast
qed

section \<open>Renaming subjects\<close>

definition is_reference :: "string \<Rightarrow> bool" where
  "is_reference tk \<longleftrightarrow> 2 \<le> length tk \<and> hd tk = CHR ''$'' \<and> isDigits (tl tk)"

lemma rename_loop_eq:
  "rename_loop tokens i out =
     (if tokens = [] then out
      else out @ (if 0 < i then ''.'' else []) @
           join CHR ''.'' (map (\<lambda>tk. if is_reference tk then ''*'' else tk) tokens))"
  by (induction tokens i out rule: rename_loop.induct)
     (auto simp: Let_def join_Cons is_reference_def Suc_le_eq)

lemma renamingToSubject_tokens:
  "renamingToSubject s =
     join CHR ''.'' (map (\<lambda>tk. if is_reference tk then ''*'' else tk) (splitOn s CHR ''.''))"
proof (cases "CHR ''$'' \<in> set s")
  case True
  then show ?thesis by (simp add: renamingToSubject_def rename_loop_eq find_char_None_iff)
next
  case False
  have "\<not> is_reference tk" if "tk \<in> set (splitOn s CHR ''.'')" for tk
  proof
    assume r: "is_reference tk"
    then have "tk \<noteq> []" by (auto simp: is_reference_def)
    with r have "CHR ''$'' \<in> set tk" using hd_in_set by (fastforce simp: is_reference_def)
    with that False show False using set_splitOn [of s "CHR ''.''"] by auto
  qed
  then have "map (\<lambda>tk. if is_reference tk then ''*'' else tk) (splitOn s CHR ''.'') = splitOn s CHR ''.''"
    by (simp add: map_idI)
  with False show ?thesis by (simp add: renamingToSubject_def find_char_None_iff)
qed

text \<open>A token that makes \<open>std::stoi\<close> throw.\<close>

definition too_large :: "string \<Rightarrow> bool" where
  "too_large tk \<longleftrightarrow> is_reference tk \<and> 2 ^ 31 \<le> digits_value (tl tk)"

lemma renaming_token_outcome:
  "renaming_token s from' n st tk =
     (if too_large tk then Inl StdOutOfRange
      else Inr (fst st + (if tk = ''*'' \<or> is_reference tk \<and> digits_value (tl tk) \<le> n then 1 else 0),
                snd st @ (if is_reference tk \<and> n < digits_value (tl tk)
                  then addError [] (''Reference $'' @ nat_to_string (digits_value (tl tk)) @ '' in '' @
                         quoted s @ '' reference * in '' @ quoted from' @ '' that do not exist'')
                  else [])))"
  by (auto simp: renaming_token_def is_reference_def too_large_def stoi_def Let_def addError_def add_def
      not_less not_le split: prod.splits)

lemma renaming_loop_outcome:
  "foldE (renaming_token s from' n) st tks = Inl e \<longleftrightarrow> e = StdOutOfRange \<and> (\<exists>tk \<in> set tks. too_large tk)"
  by (induction tks arbitrary: st) (auto simp: renaming_token_outcome bindE_Inl_iff)

lemma renaming_loop_result:
  "foldE (renaming_token s from' n) st tks = Inr st' \<Longrightarrow>
     fst st' = fst st +
       length (filter (\<lambda>tk. tk = ''*'' \<or> is_reference tk \<and> digits_value (tl tk) \<le> n) tks)
     \<and> (\<exists>is. snd st' = snd st @ is \<and>
          (is = [] \<longleftrightarrow> (\<forall>tk \<in> set tks. is_reference tk \<longrightarrow> digits_value (tl tk) \<le> n)))"
proof (induction tks arbitrary: st)
  case (Cons tk tks)
  from Cons.prems obtain st1 where
    st1: "renaming_token s from' n st tk = Inr st1" "foldE (renaming_token s from' n) st1 tks = Inr st'"
    by (auto simp: bindE_Inr_iff)
  from Cons.IH [OF st1(2)] st1(1) show ?case
    by (fastforce simp: renaming_token_outcome addError_def add_def not_less split: if_splits)
qed simp

text \<open>The error leaves the library as \<open>std::out_of_range\<close>, on exactly these subjects.\<close>

lemma validateRenamingSubject_throws:
  "validateRenamingSubject s from' vr = Inl e \<longleftrightarrow>
     e = StdOutOfRange \<and> (\<exists>tk \<in> set (splitOn s CHR ''.''). too_large tk)"
  by (auto simp: validateRenamingSubject_def Let_def bindE_Inl_iff renaming_loop_outcome
      split: prod.splits)

lemma renaming_loop_appends:
  "foldE (renaming_token s from' n) (k, vr) tks =
     (case foldE (renaming_token s from' n) (k, []) tks of
        Inl e \<Rightarrow> Inl e | Inr (k', is) \<Rightarrow> Inr (k', vr @ is))"
proof (induction tks arbitrary: k vr)
  case (Cons tk tks)
  have step: "renaming_token s from' n (k, vr) tk =
      (case renaming_token s from' n (k, []) tk of Inl e \<Rightarrow> Inl e | Inr (k', is) \<Rightarrow> Inr (k', vr @ is))"
    by (simp add: renaming_token_outcome)
  show ?case
  proof (cases "renaming_token s from' n (k, []) tk")
    case (Inr st)
    obtain k1 is1 where st: "st = (k1, is1)" by (cases st)
    show ?thesis
      using Cons.IH [of k1 "vr @ is1"] Cons.IH [of k1 is1]
      by (simp add: step Inr st split: sum.splits prod.splits)
  qed (simp add: step)
qed simp

lemma appendingE_validateRenamingSubject: "appendingE (validateRenamingSubject s from')"
proof -
  have "appendingE (\<lambda>vr. bindE (foldE (renaming_token s from' n) (0, vr) tks) (\<lambda>(refCnt, vr5).
      Inr (error_if (refCnt \<noteq> n) d vr5)))" for n tks d
    unfolding appendingE_def
    by (subst renaming_loop_appends)
       (simp add: error_if_def addError_def add_def split: sum.splits prod.splits)
  then show ?thesis
    unfolding validateRenamingSubject_def Let_def
    by (rule appendingE_comp) (intro appending_intros appending_comp [OF appending_validateSubject])
qed

section \<open>Cleaning a subject\<close>

abbreviation is_wildcard :: "string \<Rightarrow> bool" where
  "is_wildcard tk \<equiv> tk = ''*'' \<or> tk = ''>''"

lemma find_char_nth: "find_char c s = Some i \<Longrightarrow> s ! i = c"
  by (induction s arbitrary: i) (auto split: if_splits)

definition plain_prefix :: "string list \<Rightarrow> string list" where
  "plain_prefix ts = takeWhile (\<lambda>tk. \<not> is_wildcard tk) ts"

lemma clean_loop_spec:
  "pos \<le> length subject \<Longrightarrow>
     clean_loop subject pos index =
       (let ts = splitOn (drop pos subject) CHR ''.''; p = plain_prefix ts
        in if p = ts then subject
           else if p = [] then (if index = 0 then ''_'' else take (pos - 1) subject)
           else take pos subject @ join CHR ''.'' p)"
proof (induction subject pos index rule: clean_loop.induct)
  case (1 subject pos index)
  let ?rest = "drop pos subject"
  show ?case
  proof (cases "find_char CHR ''.'' ?rest")
    case None
    then show ?thesis using "1.prems"
      by (subst clean_loop.simps)
         (simp add: find_from_def Let_def substr_def splitOn.simps [of ?rest] plain_prefix_def)
  next
    case (Some k)
    note k = find_char_SomeD [OF Some]
    let ?tok = "take k ?rest"
    have from': "find_from CHR ''.'' subject pos = Some (pos + k)" using Some by (simp add: find_from_def)
    have split: "splitOn ?rest CHR ''.'' = ?tok # splitOn (drop (Suc (pos + k)) subject) CHR ''.''"
      using Some by (subst splitOn.simps) (simp add: add.commute)
    have le: "Suc (pos + k) \<le> length subject" using k(3) "1.prems" by simp
    have cut: "take (pos + k) subject = take pos subject @ ?tok" by (simp add: take_add)
    have "take (pos + Suc k) subject = take pos subject @ take (Suc k) ?rest"
      by (rule take_add)
    also have "take (Suc k) ?rest = ?tok @ ''.''"
      using take_Suc_conv_app_nth [OF k(3)] find_char_nth [OF Some] by simp
    finally have cut': "take (Suc (pos + k)) subject = take pos subject @ ?tok @ ''.''" by simp
    let ?ts = "splitOn (drop (Suc (pos + k)) subject) CHR ''.''"
    have step: "clean_loop subject pos index =
        (if is_wildcard ?tok then (if index = 0 then ''_'' else take (pos - 1) subject)
         else clean_loop subject (Suc (pos + k)) (Suc index))"
      using "1.prems" by (subst clean_loop.simps) (simp add: from' Let_def substr_def)
    show ?thesis
    proof (cases "is_wildcard ?tok")
      case True
      then have "plain_prefix (?tok # ?ts) = []" by (auto simp: plain_prefix_def)
      with True show ?thesis unfolding step split by (simp add: Let_def)
    next
      case False
      then have p: "plain_prefix (?tok # ?ts) = ?tok # plain_prefix ?ts" by (auto simp: plain_prefix_def)
      have "clean_loop subject (Suc (pos + k)) (Suc index) =
          (let p = plain_prefix ?ts
           in if p = ?ts then subject else if p = [] then take (pos + k) subject
              else take (Suc (pos + k)) subject @ join CHR ''.'' p)"
        using "1.IH" [OF "1.prems" refl _ from'] False le
        by (simp add: from' substr_def Let_def)
      then show ?thesis unfolding step split Let_def p cut cut' using False
        by (simp add: join_Cons)
    qed
  qed
qed

lemma cleanSubject_tokens:
  "cleanSubject s =
     (let ts = splitOn s CHR ''.''; p = plain_prefix ts
      in if p = ts then s else if p = [] then ''_'' else join CHR ''.'' p)"
  by (simp add: cleanSubject_def clean_loop_spec Let_def)

section \<open>Infos and permission entries\<close>

lemma appending_validateInfo: "appending (validateInfo d u)"
  unfolding validateInfo_def Let_def by (cases "u = []") (simp_all add: appending_intros)

lemma split_cases:
  obtains (one) p where "splitOn s sep = [p]" | (two) p r where "splitOn s sep = [p, r]"
    | (more) p r x xs where "splitOn s sep = p # r # x # xs"
  using splitOn_not_Nil by (metis neq_Nil_conv)

lemma appending_checkPermission: "appending (checkPermission q s)"
proof (cases s "CHR '' ''" rule: split_cases)
  case (one p)
  then have "checkPermission q s = validateSubject p" by (intro ext) (simp add: checkPermission_def)
  then show ?thesis using appending_validateSubject by simp
next
  case (two p r)
  then have "checkPermission q s = (\<lambda>vr. error_if (\<not> q) (''Permission Subject '' @ quoted s @
      '' is not allowed to contain queue'') (validateSubject r (validateSubject p vr)))"
    by (intro ext) (simp add: checkPermission_def)
  then show ?thesis
    using appending_comp [OF appending_validateSubject appending_validateSubject]
    by (simp only: appending_error_if)
next
  case (more p r x xs)
  then have "checkPermission q s =
      (\<lambda>vr. addError vr (''Permission Subject '' @ quoted s @ '' contains too many spaces''))"
    by (intro ext) (simp add: checkPermission_def)
  then show ?thesis by (simp only: appending_prims)
qed

interpretation info_report: reporter "validateInfo d u"
  by (rule reporterI [OF appending_validateInfo])

interpretation entry_report: reporter "checkPermission q s"
  by (rule reporterI [OF appending_checkPermission])

text \<open>An entry passes when it is a valid subject, or, where queues are permitted, two of them.\<close>

lemma validateSubject_twice:
  "validateSubject u (validateSubject t []) = [] \<longleftrightarrow>
     validateSubject t [] = [] \<and> validateSubject u [] = []"
proof -
  have "validateSubject u (validateSubject t []) = validateSubject t [] @ validateSubject u []"
    by (rule subject_report.appends)
  then show ?thesis by simp
qed

lemma no_space_passes:
  assumes "p \<in> set (splitOn s CHR '' '')"
  shows "validateSubject p [] = [] \<longleftrightarrow> (\<forall>t \<in> set (splitOn p CHR ''.''). t \<noteq> [])"
proof -
  have "CHR '' '' \<notin> set t" if "t \<in> set (splitOn p CHR ''.'')" for t
    using splitOn_tokens [OF assms] token_subset [OF that] by blast
  then show ?thesis unfolding validateSubject_passes by blast
qed

lemma checkPermission_passes:
  "checkPermission q s [] = [] \<longleftrightarrow>
     (let parts = splitOn s CHR '' ''
      in length parts \<le> (if q then 2 else 1) \<and>
         (\<forall>p \<in> set parts. \<forall>t \<in> set (splitOn p CHR ''.''). t \<noteq> []))"
proof (cases s "CHR '' ''" rule: split_cases)
  case (one p)
  then show ?thesis using no_space_passes [of p s] by (simp add: checkPermission_def)
next
  case (two p r)
  then show ?thesis using no_space_passes [of p s] no_space_passes [of r s]
    by (simp add: checkPermission_def error_if_def addError_def add_def validateSubject_twice)
next
  case (more p r x xs)
  then show ?thesis by (simp add: checkPermission_def addError_def add_def)
qed

section \<open>Properties\<close>

text \<open>
  A subject passes \<open>validateSubject\<close> exactly when splitting it at the dots gives no empty token and
  no token with a space; checking only appends to the report, and every finding is blocking.
\<close>

lemma validateSubject_exact:
  "(validateSubject v [] = [] \<longleftrightarrow> list_all (\<lambda>t. t \<noteq> [] \<and> CHR '' '' \<notin> set t) (splitOn v CHR ''.'')) \<and>
   validateSubject v vr = vr @ validateSubject v [] \<and>
   errors (validateSubject v vr) = errors vr @ map description (validateSubject v [])"
proof -
  have "filter blocking (validateSubject v []) = validateSubject v []"
    by (auto simp: validateSubject_def Let_def error_if_def addError_def add_def)
  then show ?thesis
    using validateSubject_passes [of v] subject_report.appends [of v vr] subject_report.errors_run [of v vr]
    by (simp add: errors_def list_all_iff)
qed

text \<open>
  C28: For subjects whose \<open>>\<close> is last, \<open>subjectIsContainedIn\<close> decides inclusion of the sets of matching
  subjects, with one exception: a final \<open>>\<close> of the contained subject, compared with anything but \<open>>\<close>,
  is treated like \<open>*\<close>. So \<open>foo.>\<close> counts as contained in \<open>foo.*\<close>, although it also matches longer subjects.
\<close>

theorem subjectIsContainedIn_exact:
  assumes "well_placed (splitOn s CHR ''.'')" and "well_placed (splitOn other CHR ''.'')"
  shows "subjectIsContainedIn s other \<longleftrightarrow>
    (\<forall>lit. literal lit \<longrightarrow>
       matches (one_token_tail (splitOn s CHR ''.'') (splitOn other CHR ''.'')) lit \<longrightarrow>
       matches (splitOn other CHR ''.'') lit)"
  using contained_iff [OF assms(1) _ assms(2)] by (simp add: subjectIsContainedIn_tokens)

lemma subjectIsContainedIn_exact_witness:
  "subjectIsContainedIn ''f.>'' ''f.*'' \<and> \<not> matches [''f'', ''*''] [''f'', ''a'', ''b''] \<and>
   matches [''f'', ''>''] [''f'', ''a'', ''b'']"
  using subjectIsContainedIn_exact [of "''f.>''" "''f.*''"]
  by (simp add: splitOn_Cons well_placed_def one_token_tail_def)

text \<open>
  The character tests of \<open>subjectHasWildcards\<close> and the counting loop agree with the tokens: a
  subject has a wildcard when a token is \<open>*\<close> or the last one is \<open>>\<close>, and the count is the number
  of \<open>*\<close> tokens; \<open>cleanSubject\<close> returns the tokens before the first wildcard token, \<open>_\<close> when
  there is none before it, and a subject without wildcard tokens unchanged.
\<close>

lemma wildcards_by_tokens:
  "(subjectHasWildcards v \<longleftrightarrow>
      ''*'' \<in> set (splitOn v CHR ''.'') \<or> last (splitOn v CHR ''.'') = ''>'') \<and>
   countTokenWildcards v = count_list (splitOn v CHR ''.'') ''*'' \<and>
   cleanSubject v =
     (let ts = splitOn v CHR ''.''; p = takeWhile (\<lambda>tk. \<not> (tk = ''*'' \<or> tk = ''>'')) ts
      in if p = ts then v else if p = [] then ''_'' else join CHR ''.'' p)"
  using subjectHasWildcards_tokens countTokenWildcards_tokens cleanSubject_tokens
  by (simp add: plain_prefix_def)

text \<open>
  C39: Renaming subjects. The check throws exactly when a token \<open>$N\<close> has a number that is no \<open>int\<close>, and
  then it is \<open>std::out_of_range\<close> that escapes, not an error of the library; otherwise it appends to
  the report. Turning the subject into a plain one replaces exactly the \<open>$N\<close> tokens by \<open>*\<close>.
\<close>

theorem validateRenamingSubject_outcome:
  "(case validateRenamingSubject s from' vr of
      Inl e \<Rightarrow> e = StdOutOfRange \<and> (\<exists>tk \<in> set (splitOn s CHR ''.''). too_large tk)
    | Inr vr' \<Rightarrow> list_all (\<lambda>tk. \<not> too_large tk) (splitOn s CHR ''.'') \<and> (\<exists>is. vr' = vr @ is)) \<and>
   renamingToSubject s =
     join CHR ''.'' (map (\<lambda>tk. if is_reference tk then ''*'' else tk) (splitOn s CHR ''.''))"
proof (intro conjI renamingToSubject_tokens)
  show "case validateRenamingSubject s from' vr of
      Inl e \<Rightarrow> e = StdOutOfRange \<and> (\<exists>tk \<in> set (splitOn s CHR ''.''). too_large tk)
    | Inr vr' \<Rightarrow> list_all (\<lambda>tk. \<not> too_large tk) (splitOn s CHR ''.'') \<and> (\<exists>is. vr' = vr @ is)"
  proof (cases "validateRenamingSubject s from' vr")
    case (Inl e)
    then show ?thesis using validateRenamingSubject_throws [of s from' vr e] by simp
  next
    case (Inr vr')
    have "list_all (\<lambda>tk. \<not> too_large tk) (splitOn s CHR ''.'')"
      unfolding list_all_iff using Inr validateRenamingSubject_throws [of s from' vr] by fastforce
    moreover have "\<exists>is. vr' = vr @ is"
      by (rule appendingE_D [OF appendingE_validateRenamingSubject Inr])
    ultimately show ?thesis using Inr by simp
  qed
qed

text \<open>
  A permission entry passes exactly when it is one subject, or, where queue groups are permitted, a
  subject and a queue name separated by a single space, none of them with an empty token.
\<close>

lemma checkPermission_exact:
  "checkPermission permitQueue subj [] = [] \<longleftrightarrow>
     (let parts = splitOn subj CHR '' ''
      in length parts \<le> (if permitQueue then 2 else 1) \<and>
         list_all (\<lambda>p. list_all (\<lambda>t. t \<noteq> []) (splitOn p CHR ''.'')) parts)"
  unfolding list_all_iff by (rule checkPermission_passes)

end
