(* ===== verification/Tags.thy ===== *)
theory Tags
  imports Prelude
begin

text \<open>
  Tag lists (\<^verbatim>\<open>src/claims.cpp\<close>): normalization of one tag, membership, and adding tags. The lemmas show
  that adding keeps what is there, adds only normalized tags, each once, and loses none.
\<close>

text \<open>\<open>find_first_not_of\<close> and \<open>find_last_not_of\<close>.\<close>

fun find_first_not_of :: "string \<Rightarrow> string \<Rightarrow> nat option" where
  "find_first_not_of [] cs = None"
| "find_first_not_of (c # s) cs = (if c \<notin> set cs then Some 0 else map_option Suc (find_first_not_of s cs))"

definition find_last_not_of :: "string \<Rightarrow> string \<Rightarrow> nat option" where
  "find_last_not_of s cs = map_option (\<lambda>i. length s - Suc i) (find_first_not_of (rev s) cs)"

definition blanks :: string where
  "blanks = [CHR '' '', CHR 9, CHR 13, CHR 10]"

definition normalizeTag :: "string \<Rightarrow> string" where
  "normalizeTag t =
     (case find_first_not_of t blanks of
        None \<Rightarrow> []
      | Some b \<Rightarrow>
          (case find_last_not_of t blanks of
             None \<Rightarrow> []
           | Some e \<Rightarrow> map to_lower (substr t b (e - b + 1))))"

definition tagsContain :: "string list \<Rightarrow> string \<Rightarrow> bool" where
  "tagsContain tags tag \<longleftrightarrow> normalizeTag tag \<in> set tags"

definition addTags :: "string list \<Rightarrow> string list \<Rightarrow> string list" where
  "addTags tags add =
     fold (\<lambda>raw tags. let v = normalizeTag raw
                      in if v \<noteq> [] \<and> \<not> tagsContain tags v then tags @ [v] else tags) add tags"

section \<open>Normal tags\<close>

definition blank :: "char \<Rightarrow> bool" where
  "blank c \<longleftrightarrow> c \<in> set blanks"

definition trim :: "string \<Rightarrow> string" where
  "trim s = rev (dropWhile blank (rev (dropWhile blank s)))"

lemma find_first_not_of_eq:
  "find_first_not_of s blanks =
     (if dropWhile blank s = [] then None else Some (length (takeWhile blank s)))"
  by (induction s) (auto simp: blank_def [abs_def])

lemma blank_code: "blank c \<longleftrightarrow> of_char c \<in> {32, 9, 13, 10 :: nat}"
proof -
  have "c = d \<longleftrightarrow> (of_char c :: nat) = of_char d" for d by simp
  from this [of "CHR '' ''"] this [of "CHR 9"] this [of "CHR 13"] this [of "CHR 10"]
  show ?thesis by (simp add: blank_def blanks_def)
qed

lemma to_lower_blank: "blank (to_lower c) \<longleftrightarrow> blank c"
  by (auto simp: blank_code to_lower_def Let_def)

lemma substr_trim:
  assumes "dropWhile blank s \<noteq> []"
  shows "substr s (length (takeWhile blank s))
           ((length s - Suc (length (takeWhile blank (rev s)))) - length (takeWhile blank s) + 1) = trim s"
proof -
  let ?b = "takeWhile blank s" and ?d = "dropWhile blank s"
  have s: "s = ?b @ ?d" by simp
  have nb: "\<exists>x \<in> set ?d. \<not> blank x" using assms hd_dropWhile list.set_sel(1) by blast
  have rev_s: "rev s = rev ?d @ rev ?b" by (metis rev_append s)
  have tw: "takeWhile blank (rev s) = takeWhile blank (rev ?d)"
    unfolding rev_s using nb takeWhile_append1 [of _ "rev ?d" blank "rev ?b"] by auto
  have len: "length (takeWhile blank (rev ?d)) < length ?d"
  proof -
    have "dropWhile blank (rev ?d) \<noteq> []" using nb by simp
    then have "0 < length (dropWhile blank (rev ?d))" by (rule length_greater_0_conv [THEN iffD2])
    moreover have "length (takeWhile blank (rev ?d)) + length (dropWhile blank (rev ?d)) = length ?d"
      by (metis length_append length_rev takeWhile_dropWhile_id)
    ultimately show ?thesis by linarith
  qed
  have lens: "length s = length ?b + length ?d" by (metis length_append s)
  have "(length s - Suc (length (takeWhile blank (rev s)))) - length ?b + 1
      = length ?d - length (takeWhile blank (rev ?d))"
    unfolding tw using len lens by linarith
  moreover have "substr s (length ?b) n = take n ?d" for n
    unfolding substr_def by (metis append_eq_conv_conj s)
  moreover have "trim s = take (length ?d - length (takeWhile blank (rev ?d))) ?d"
    unfolding trim_def dropWhile_eq_drop [of blank "rev ?d"] by (simp add: rev_drop)
  ultimately show ?thesis by simp
qed

lemma normalizeTag_eq: "normalizeTag t = map to_lower (trim t)"
proof (cases "dropWhile blank t = []")
  case True
  then show ?thesis by (simp only: normalizeTag_def find_first_not_of_eq trim_def) simp
next
  case False
  then have "\<exists>x \<in> set (rev t). \<not> blank x" by (metis dropWhile_eq_Nil_conv set_rev)
  then have "dropWhile blank (rev t) \<noteq> []" by simp
  then show ?thesis
    using False substr_trim [OF False]
    by (simp add: normalizeTag_def find_first_not_of_eq find_last_not_of_def del: dropWhile_eq_Nil_conv)
qed

lemma trim_map_lower: "trim (map to_lower s) = map to_lower (trim s)"
  by (simp add: trim_def dropWhile_map rev_map comp_def to_lower_blank)

lemma trim_trim [simp]: "trim (trim s) = trim s"
proof -
  let ?d = "dropWhile blank s"
  have "dropWhile blank (trim s) = trim s"
  proof (cases "trim s = []")
    case False
    have pre: "\<exists>ys. ?d = trim s @ ys"
      unfolding trim_def by (metis rev_append rev_rev_ident takeWhile_dropWhile_id)
    then have "?d \<noteq> []" and "hd (trim s) = hd ?d" using False by (auto simp del: dropWhile_eq_Nil_conv)
    then have "\<not> blank (hd (trim s))" using hd_dropWhile by metis
    with False show ?thesis by (cases "trim s") auto
  qed simp
  then show ?thesis unfolding trim_def by (metis dropWhile_idem rev_rev_ident)
qed

lemma normalizeTag_idem: "normalizeTag (normalizeTag t) = normalizeTag t"
  by (simp add: normalizeTag_eq trim_map_lower comp_def)

lemma tagsContain_iff: "tagsContain tags tag \<longleftrightarrow> normalizeTag tag \<in> set tags"
  by (simp add: tagsContain_def)

lemma addTags_Cons:
  "addTags tags (raw # add) =
     addTags (if normalizeTag raw \<noteq> [] \<and> normalizeTag raw \<notin> set tags
              then tags @ [normalizeTag raw] else tags) add"
  by (simp add: addTags_def Let_def tagsContain_iff normalizeTag_idem)

lemma addTags_Nil: "addTags tags [] = tags"
  by (simp add: addTags_def)

lemma set_addTags:
  "set (addTags tags add) = set tags \<union> (normalizeTag ` set add - {[]})"
  by (induction add arbitrary: tags) (auto simp: addTags_Cons addTags_Nil)

lemma addTags_distinct: "distinct tags \<Longrightarrow> distinct (addTags tags add)"
  by (induction add arbitrary: tags) (auto simp: addTags_Cons addTags_Nil)

lemma addTags_prefix: "\<exists>new. addTags tags add = tags @ new \<and> distinct new \<and> set new \<inter> set tags = {}"
proof (induction add arbitrary: tags)
  case (Cons raw add)
  let ?v = "normalizeTag raw"
  show ?case
  proof (cases "?v \<noteq> [] \<and> ?v \<notin> set tags")
    case True
    obtain new where "addTags (tags @ [?v]) add = (tags @ [?v]) @ new" "distinct new"
      "set new \<inter> set (tags @ [?v]) = {}"
      using Cons by blast
    with True show ?thesis by (intro exI [of _ "?v # new"]) (auto simp: addTags_Cons)
  next
    case False
    then show ?thesis using Cons [of tags] by (simp only: addTags_Cons if_False)
  qed
qed (simp add: addTags_Nil)

text \<open>
  Adding tags keeps the tags that are there, in their order, and appends exactly the normal forms
  (trimmed, lower case) of the given tags that are not empty and not there yet, each once; so a tag is
  contained afterwards when it was, or when some added tag has the same normal form.
\<close>

lemma addTags_exact:
  "(\<exists>new. addTags tags add = tags @ new \<and> distinct new \<and>
      set new = normalizeTag ` set add - {[]} - set tags) \<and>
   (tagsContain (addTags tags add) tag \<longleftrightarrow>
      tagsContain tags tag \<or>
      normalizeTag tag \<noteq> [] \<and> (\<exists>raw \<in> set add. normalizeTag raw = normalizeTag tag)) \<and>
   normalizeTag (normalizeTag tag) = normalizeTag tag"
proof -
  obtain new where new: "addTags tags add = tags @ new" "distinct new" "set new \<inter> set tags = {}"
    using addTags_prefix by blast
  then have "set new = normalizeTag ` set add - {[]} - set tags"
    using set_addTags [of tags add] by auto
  moreover have "normalizeTag tag \<in> normalizeTag ` set add \<longleftrightarrow>
      (\<exists>raw \<in> set add. normalizeTag raw = normalizeTag tag)"
    by (metis image_iff)
  ultimately show ?thesis
    using new set_addTags [of tags add] by (auto simp: tagsContain_iff normalizeTag_idem)
qed

end
