(* ===== verification/Envelope.thy ===== *)
theory Envelope
  imports Base64Url Sha2 Results
begin

text \<open>
  Tokens (\<^verbatim>\<open>src/jwt_utils.cpp\<close>): splitting a token into its chunks, the header, signing and
  assembling, signature verification, the checks on key kinds, and \<open>decodeEnvelope\<close>, which every
  typed decoder and \<open>verify\<close> go through: it authenticates the token, decides its version and
  migrates version 1 payloads to the layout of version 2.

  The lemmas show what a successful run guarantees (the signature verifies under the issuer the payload
  names), which errors can escape, and that an assembled token is split and accepted again.
\<close>

section \<open>Constants and helpers\<close>

definition JWT_VERSION :: int where
  "JWT_VERSION = 2"

definition JWT_ALGORITHM :: string where
  "JWT_ALGORITHM = ''ed25519-nkey''"

definition JWT_TYPE :: string where
  "JWT_TYPE = ''JWT''"

definition MAX_JWT_SIZE :: nat where
  "MAX_JWT_SIZE = 1024 * 1024"

definition lower :: "string \<Rightarrow> string" where
  "lower s = map to_lower s"

definition upper :: "string \<Rightarrow> string" where
  "upper s = map to_upper s"

section \<open>Splitting a token\<close>

record jwt_parts =
  header_b64 :: string
  payload_b64 :: string
  signature_b64 :: string
  signing_input :: string

definition parseJwt :: "string \<Rightarrow> exn + jwt_parts" where
  "parseJwt jwt =
     (if length jwt > MAX_JWT_SIZE
      then Inl (MalformedTokenError (''Token size '' @ nat_to_string (length jwt) @
             '' exceeds maximum of '' @ nat_to_string MAX_JWT_SIZE @ '' bytes''))
      else case find_char CHR ''.'' jwt of
        None \<Rightarrow> Inl (MalformedTokenError (''Invalid JWT format: missing first '' @ squoted ''.''))
      | Some first_dot \<Rightarrow>
          (case find_from CHR ''.'' jwt (first_dot + 1) of
             None \<Rightarrow> Inl (MalformedTokenError (''Invalid JWT format: missing second '' @ squoted ''.''))
           | Some second_dot \<Rightarrow>
               if find_from CHR ''.'' jwt (second_dot + 1) \<noteq> None
               then Inl (MalformedTokenError ''Invalid JWT format: too many parts'')
               else
                 let h = substr jwt 0 first_dot;
                     p = substr jwt (first_dot + 1) (second_dot - first_dot - 1);
                     s = drop (second_dot + 1) jwt
                 in if h = [] then Inl (MalformedTokenError ''Invalid JWT format: empty header'')
                    else if p = [] then Inl (MalformedTokenError ''Invalid JWT format: empty payload'')
                    else if s = [] then Inl (MalformedTokenError ''Invalid JWT format: empty signature'')
                    else Inr \<lparr>header_b64 = h, payload_b64 = p, signature_b64 = s,
                               signing_input = h @ ''.'' @ p\<rparr>))"

section \<open>Header\<close>

definition header_json :: json where
  "header_json = JObject (smap_of [(''typ'', JString JWT_TYPE), (''alg'', JString JWT_ALGORITHM)])"

definition createHeader :: "lib \<Rightarrow> exn + string" where
  "createHeader L = dump_json L header_json"

text \<open>\<open>catch (const json::exception& e)\<close> around a parse, with the text it prefixes.\<close>

definition parse_or :: "lib \<Rightarrow> (string \<Rightarrow> exn) \<Rightarrow> string \<Rightarrow> exn + json" where
  "parse_or L err s = (case json_parse L s of Inl e \<Rightarrow> Inl (err (json_what L e)) | Inr j \<Rightarrow> Inr j)"

definition checkHeaderField :: "json \<Rightarrow> string \<Rightarrow> exn + unit" where
  "checkHeaderField header k =
     (case jget header k of
        Some v \<Rightarrow> throw_if (\<not> is_string v)
          (MalformedTokenError (''JWT header '' @ field_what k ''is not a string''))
      | None \<Rightarrow> Inr ())"

definition validateHeader :: "lib \<Rightarrow> string \<Rightarrow> exn + json" where
  "validateHeader L headerJson =
     bindE (parse_or L (\<lambda>w. MalformedTokenError (''Invalid JWT header JSON: '' @ w)) headerJson)
       (\<lambda>header.
     bindE (throw_if (\<not> is_object header) (MalformedTokenError ''JWT header is not an object'')) (\<lambda>_.
     bindE (checkHeaderField header ''typ'') (\<lambda>_.
     bindE (checkHeaderField header ''alg'') (\<lambda>_.
     bindE (value_string header ''typ'' []) (\<lambda>typ.
     bindE (throw_if (upper typ \<noteq> JWT_TYPE)
              (InvalidClaimsError (''not supported type '' @ quoted typ))) (\<lambda>_.
     bindE (value_string header ''alg'' []) (\<lambda>alg0.
     let alg = lower alg0
     in bindE (throw_if (alg \<noteq> ''ed25519'' \<and> alg \<noteq> JWT_ALGORITHM)
                 (InvalidClaimsError (''unexpected '' @ quoted alg0 @ '' algorithm'')))
          (\<lambda>_. Inr header))))))))"

section \<open>Kinds of keys\<close>

text \<open>The switch of \<open>checkIssuerKind\<close>: the check for a kind and its name.\<close>

definition kind_check :: "lib \<Rightarrow> char \<Rightarrow> string \<Rightarrow> bool" where
  "kind_check L k key =
     (if k = CHR ''O'' then IsValidPublicOperatorKey L key
      else if k = CHR ''A'' then IsValidPublicAccountKey L key
      else if k = CHR ''U'' then IsValidPublicUserKey L key
      else if k = CHR ''N'' then IsValidPublicServerKey L key
      else False)"

definition kind_name :: "char \<Rightarrow> string" where
  "kind_name k =
     (if k = CHR ''O'' then ''operator'' else if k = CHR ''A'' then ''account''
      else if k = CHR ''U'' then ''user'' else if k = CHR ''N'' then ''server'' else [])"

fun issuer_kind_loop :: "lib \<Rightarrow> string \<Rightarrow> string \<Rightarrow> string \<Rightarrow> string option" where
  "issuer_kind_loop L issuer [] names = Some names"
| "issuer_kind_loop L issuer (k # kinds) names =
     (if kind_check L k issuer then None
      else issuer_kind_loop L issuer kinds (names @ (if names = [] then [] else '' or '') @ kind_name k))"

definition checkIssuerKind :: "lib \<Rightarrow> string \<Rightarrow> string \<Rightarrow> string \<Rightarrow> exn + unit" where
  "checkIssuerKind L issuer kinds claimName =
     (case issuer_kind_loop L issuer kinds [] of
        None \<Rightarrow> Inr ()
      | Some names \<Rightarrow> Inl (InvalidClaimsError (claimName @ '' JWTs must be signed by an '' @ names @
          '' key (unable to validate expected prefixes)'')))"

definition checkSubjectKind :: "lib \<Rightarrow> string \<Rightarrow> char \<Rightarrow> string \<Rightarrow> exn + unit" where
  "checkSubjectKind L subject kind claimName =
     (let ok = (if kind = CHR ''O'' then IsValidPublicOperatorKey L subject
                else if kind = CHR ''A'' then IsValidPublicAccountKey L subject
                else if kind = CHR ''U'' then IsValidPublicUserKey L subject else False);
          name = (if kind = CHR ''O'' then ''an operator'' else if kind = CHR ''A'' then ''an account''
                  else if kind = CHR ''U'' then ''a user'' else [])
      in throw_if (\<not> ok) (InvalidClaimsError (claimName @ '' subject must be '' @ name @ '' public key'')))"

section \<open>Signing and verifying\<close>

type_synonym signer = "string \<Rightarrow> byte list \<Rightarrow> exn + byte list"

definition signerFor :: "keypair \<Rightarrow> signer" where
  "signerFor kp = (\<lambda>_ data. kp_sign kp data)"

definition signAndAssemble :: "lib \<Rightarrow> string \<Rightarrow> string \<Rightarrow> signer \<Rightarrow> exn + string" where
  "signAndAssemble L payloadJson issuerPublicKey sign =
     bindE (createHeader L) (\<lambda>headerJson.
     let signingInput = base64url_encode (bytes_of headerJson) @ ''.'' @
                        base64url_encode (bytes_of payloadJson)
     in bindE (sign issuerPublicKey (bytes_of signingInput)) (\<lambda>signature.
        bindE (FromPublicKey L issuerPublicKey) (\<lambda>pub.
        bindE (throw_if (\<not> kp_verify pub (bytes_of signingInput) signature)
                 (SignatureError (''signer produced a signature that does not verify against '' @
                    issuerPublicKey)))
          (\<lambda>_. Inr (signingInput @ ''.'' @ base64url_encode signature)))))"

definition verifySignature :: "lib \<Rightarrow> string \<Rightarrow> string \<Rightarrow> string \<Rightarrow> bool" where
  "verifySignature L issuer input sig_b64 =
     (case base64url_decode sig_b64 of
        Inl _ \<Rightarrow> False
      | Inr signature_bytes \<Rightarrow>
          (case FromPublicKey L issuer of
             Inl _ \<Rightarrow> False
           | Inr public_key \<Rightarrow> kp_verify public_key (bytes_of input) signature_bytes))"

section \<open>Export types\<close>

datatype ExportType = Unknown | Stream | Service

fun exportTypeStr :: "ExportType \<Rightarrow> string" where
  "exportTypeStr Stream = ''stream''"
| "exportTypeStr Service = ''service''"
| "exportTypeStr Unknown = ''unknown''"

definition exportTypeFrom :: "string \<Rightarrow> exn + ExportType" where
  "exportTypeFrom s =
     (if s = ''stream'' then Inr Stream
      else if s = ''service'' then Inr Service
      else if s = [] then Inr Unknown
      else Inl (MalformedTokenError (''unknown export type '' @ quoted s)))"

section \<open>The envelope\<close>

record envelope =
  payload :: json
  version :: int
  algorithm :: string

text \<open>Whether a top-level \<open>type\<close> marks the payload as version 1.\<close>

definition type_not_string :: exn where
  "type_not_string = MalformedTokenError (''JWT '' @ squoted ''type'' @ '' is not a string'')"

definition v1Layout :: "json smap \<Rightarrow> exn + bool" where
  "v1Layout p =
     (case smap_get p ''type'' of
        None \<Rightarrow> Inr False
      | Some (JString t) \<Rightarrow> Inr (t \<noteq> [])
      | Some _ \<Rightarrow> Inl type_not_string)"

definition natsVersion :: "json smap \<Rightarrow> exn + int64" where
  "natsVersion p =
     bindE (objectField (JObject p) ''nats'') (\<lambda>nats.
       case nats of
         None \<Rightarrow> Inr 0
       | Some n \<Rightarrow>
           bindE (throw_if (case jget n ''type'' of Some v \<Rightarrow> \<not> is_string v | None \<Rightarrow> False)
                    (MalformedTokenError ''JWT nats.type is not a string''))
             (\<lambda>_. intField n ''version'' 0))"

definition payloadVersion :: "json smap \<Rightarrow> exn + int" where
  "payloadVersion p =
     bindE (v1Layout p) (\<lambda>v1.
       if v1 then Inr 1 else bindE (natsVersion p) (\<lambda>v. Inr (sint v)))"

text \<open>A field of the payload that must be a string.\<close>

definition stringAt :: "json smap \<Rightarrow> string \<Rightarrow> string option" where
  "stringAt p k = (case smap_get p k of Some (JString s) \<Rightarrow> Some s | _ \<Rightarrow> None)"

definition setIf :: "bool \<Rightarrow> string \<Rightarrow> json \<Rightarrow> json smap \<Rightarrow> json smap" where
  "setIf c k v m = (if c then smap_put k v m else m)"

text \<open>\<open>if (r) m[k] = f(*r);\<close>\<close>

definition putOpt :: "string \<Rightarrow> ('a \<Rightarrow> json) \<Rightarrow> 'a option \<Rightarrow> json smap \<Rightarrow> json smap" where
  "putOpt k f r m = (case r of None \<Rightarrow> m | Some x \<Rightarrow> smap_put k (f x) m)"

definition copyField :: "json smap \<Rightarrow> string \<Rightarrow> string \<Rightarrow> json smap \<Rightarrow> json smap" where
  "copyField src k k' m = (case smap_get src k of None \<Rightarrow> m | Some v \<Rightarrow> smap_put k' v m)"

text \<open>
  The migration of a version 1 payload. The type is read with the non-const \<open>operator[]\<close>, which
  inserts null when the key is missing; \<open>get<std::string>\<close> then throws.
\<close>

definition migrateV1 :: "json smap \<Rightarrow> exn + json smap" where
  "migrateV1 p =
     (let nats = (case smap_get p ''nats'' of Some (JObject n) \<Rightarrow> n | _ \<Rightarrow> [])
      in bindE (get_string (case smap_get p ''type'' of None \<Rightarrow> JNull | Some v \<Rightarrow> v)) (\<lambda>claimType.
         let nats1 =
               (if claimType = ''activation''
                then fold smap_del [''max'', ''payload'', ''src'', ''times'']
                       (copyField nats ''type'' ''kind'' nats)
                else if claimType = ''user''
                then fold (\<lambda>k n. if smap_has n k then n else smap_put k (JInteger (- 1)) n)
                       [''subs'', ''data'', ''payload''] (smap_del ''max'' nats)
                else nats);
             nats2 = smap_put ''type'' (JString claimType) (smap_del ''identity'' nats1);
             nats3 = copyField p ''issuer_account'' ''issuer_account'' (copyField p ''tags'' ''tags'' nats2);
             nats4 = smap_put ''version'' (JInteger 1) nats3
         in Inr (fold smap_del [''type'', ''tags'', ''issuer_account'']
                   (smap_put ''nats'' (JObject nats4) p))))"

definition payload_parse_error :: "string \<Rightarrow> exn" where
  "payload_parse_error w = MalformedTokenError (''Invalid JWT payload JSON: '' @ w)"

definition lacks_iss_sub :: exn where
  "lacks_iss_sub = MalformedTokenError (''JWT payload lacks string '' @ squoted ''iss'' @ ''/'' @ squoted ''sub'')"

text \<open>The fields of a payload that must be an object.\<close>

fun as_object :: "json \<Rightarrow> exn + json smap" where
  "as_object (JObject p) = Inr p"
| "as_object _ = Inl (MalformedTokenError ''JWT payload is not an object'')"

definition checkVersion :: "int \<Rightarrow> exn + unit" where
  "checkVersion v =
     (if v > JWT_VERSION then Inl (InvalidClaimsError ''JWT was generated by a newer version'')
      else if v \<noteq> 1 \<and> v \<noteq> 2
      then Inl (InvalidClaimsError (''library supports version '' @ int_to_string JWT_VERSION @
             '' or less - received '' @ int_to_string v))
      else Inr ())"

text \<open>From the payload on: version, names, signature, migration.\<close>

definition openPayload :: "lib \<Rightarrow> jwt_parts \<Rightarrow> string \<Rightarrow> json smap \<Rightarrow> exn + envelope" where
  "openPayload L parts alg p =
     bindE (payloadVersion p) (\<lambda>v.
     bindE (checkVersion v) (\<lambda>_.
     case (stringAt p ''iss'', stringAt p ''sub'') of
       (Some issuer, Some _) \<Rightarrow>
         (let signingInput = (if v \<le> 1 then payload_b64 parts else signing_input parts)
          in bindE (throw_if (\<not> verifySignature L issuer signingInput (signature_b64 parts))
                     (SignatureError (if v \<le> 1 then ''claim failed V1 signature verification''
                                      else ''claim failed V2 signature verification''))) (\<lambda>_.
             bindE (if v = 1 then migrateV1 p else Inr p) (\<lambda>p'.
               Inr \<lparr>payload = JObject p', version = v, algorithm = alg\<rparr>)))
     | _ \<Rightarrow> Inl lacks_iss_sub))"

definition decodeEnvelope :: "lib \<Rightarrow> string \<Rightarrow> exn + envelope" where
  "decodeEnvelope L token =
     bindE (parseJwt token) (\<lambda>parts.
     bindE (base64url_decode (header_b64 parts)) (\<lambda>header_bytes.
     bindE (validateHeader L (string_of header_bytes)) (\<lambda>header.
     bindE (value_string header ''alg'' []) (\<lambda>alg0.
     bindE (base64url_decode (payload_b64 parts)) (\<lambda>payload_bytes.
     bindE (parse_or L payload_parse_error (string_of payload_bytes)) (\<lambda>j.
     bindE (as_object j) (\<lambda>p.
       openPayload L parts (lower alg0) p)))))))"

section \<open>Tokens and their chunks\<close>

text \<open>Three chunks without dots, joined with dots.\<close>

definition token_of :: "string \<Rightarrow> string \<Rightarrow> string \<Rightarrow> string" where
  "token_of h p s = h @ ''.'' @ p @ ''.'' @ s"

definition parts_of :: "string \<Rightarrow> string \<Rightarrow> string \<Rightarrow> jwt_parts" where
  "parts_of h p s =
     \<lparr>header_b64 = h, payload_b64 = p, signature_b64 = s, signing_input = h @ ''.'' @ p\<rparr>"

definition chunk :: "string \<Rightarrow> bool" where
  "chunk s \<longleftrightarrow> s \<noteq> [] \<and> CHR ''.'' \<notin> set s"

lemma parseJwt_token:
  assumes "chunk h" "chunk p" "chunk s" "length (token_of h p s) \<le> MAX_JWT_SIZE"
  shows "parseJwt (token_of h p s) = Inr (parts_of h p s)"
proof -
  have nodot: "CHR ''.'' \<notin> set h" "CHR ''.'' \<notin> set p" "CHR ''.'' \<notin> set s"
    and ne: "h \<noteq> []" "p \<noteq> []" "s \<noteq> []"
    using assms by (auto simp: chunk_def)
  let ?t = "token_of h p s"
  have t: "?t = h @ CHR ''.'' # p @ CHR ''.'' # s" by (simp add: token_of_def)
  have first: "find_char CHR ''.'' ?t = Some (length h)"
    unfolding t using nodot by (simp add: find_char_append)
  have second: "find_from CHR ''.'' ?t (length h + 1) = Some (length h + 1 + length p)"
    unfolding t using nodot find_from_append [of "CHR ''.''" h "p @ CHR ''.'' # s"]
    by (simp add: find_char_append)
  have "?t = (h @ CHR ''.'' # p) @ CHR ''.'' # s" by (simp add: t)
  then have third: "find_from CHR ''.'' ?t (length h + 1 + length p + 1) = None"
    using nodot find_from_append [of "CHR ''.''" "h @ CHR ''.'' # p" s]
    by (simp add: find_char_None_iff)
  show ?thesis
    using assms(4) ne
    by (simp only: parseJwt_def first second third option.case not_less [symmetric] if_False simp_thms)
       (simp add: t substr_def parts_of_def Let_def)
qed

lemma parseJwt_Inr_iff:
  "parseJwt t = Inr parts \<longleftrightarrow>
     length t \<le> MAX_JWT_SIZE \<and>
     (\<exists>h p s. t = token_of h p s \<and> chunk h \<and> chunk p \<and> chunk s \<and> parts = parts_of h p s)"
proof
  assume *: "parseJwt t = Inr parts"
  then have size: "length t \<le> MAX_JWT_SIZE" by (auto simp: parseJwt_def split: if_splits)
  from * size obtain i j where i: "find_char CHR ''.'' t = Some i"
    and j: "find_from CHR ''.'' t (i + 1) = Some j"
    and last: "find_from CHR ''.'' t (j + 1) = None"
    by (auto simp: parseJwt_def split: if_splits option.splits)
  note di = find_char_SomeD [OF i]
  from j obtain k where k: "find_char CHR ''.'' (drop (i + 1) t) = Some k" and jk: "j = i + 1 + k"
    by (auto simp: find_from_def)
  note dk = find_char_SomeD [OF k]
  let ?h = "take i t" and ?p = "take k (drop (i + 1) t)" and ?s = "drop (j + 1) t"
  have "CHR ''.'' \<notin> set ?s"
    using last by (simp add: find_from_def find_char_None_iff)
  moreover have t: "t = token_of ?h ?p ?s"
    using di(1) dk(1) by (simp add: token_of_def jk add.commute)
  moreover have "parts = parts_of ?h ?p ?s \<and> ?h \<noteq> [] \<and> ?p \<noteq> [] \<and> ?s \<noteq> []"
    using * size
    by (simp add: parseJwt_def i j [simplified] last [simplified] substr_def jk Let_def parts_of_def
        split: if_splits)
  ultimately show "length t \<le> MAX_JWT_SIZE \<and>
     (\<exists>h p s. t = token_of h p s \<and> chunk h \<and> chunk p \<and> chunk s \<and> parts = parts_of h p s)"
    using size di(2) dk(2) unfolding chunk_def by blast
qed (auto simp: parseJwt_token)

lemma token_of_inj:
  assumes "chunk h" "chunk p" "chunk h'" "chunk p'"
  shows "token_of h p s = token_of h' p' s' \<longleftrightarrow> h = h' \<and> p = p' \<and> s = s'"
  using assms by (auto simp: token_of_def chunk_def append_sep_inj)

lemma parseJwt_error: "parseJwt t = Inl e \<Longrightarrow> is_jwt_error e"
  by (auto simp: parseJwt_def Let_def split: if_splits option.splits)

lemma chunk_encode [simp]: "chunk (base64url_encode d) \<longleftrightarrow> d \<noteq> []"
  by (simp add: chunk_def encode_no_dot)

section \<open>What an accepted token guarantees\<close>

lemma decode_is_jwt_error: "base64url_decode s = Inl e \<Longrightarrow> is_jwt_error e"
  using decode_error_kind by fastforce

lemma parse_or_error: "parse_or L err s = Inl e \<Longrightarrow> (\<And>w. is_jwt_error (err w)) \<Longrightarrow> is_jwt_error e"
  by (auto simp: parse_or_def split: sum.splits)

lemma parse_or_Inr_iff [simp]: "parse_or L err s = Inr j \<longleftrightarrow> json_parse L s = Inr j"
  by (auto simp: parse_or_def split: sum.splits)

lemma throw_if_error: "throw_if b e = Inl e' \<Longrightarrow> is_jwt_error e \<Longrightarrow> is_jwt_error e'"
  by (simp split: if_splits)

lemma value_string_JObject: "smap_get o' k = None \<or> (\<exists>s. smap_get o' k = Some (JString s)) \<Longrightarrow>
    \<exists>s. value_string (JObject o') k d = Inr s"
  by auto

lemma validateHeader_Inr_iff:
  "validateHeader L s = Inr header \<longleftrightarrow>
     json_parse L s = Inr header \<and> is_object header \<and>
     (\<exists>typ alg. value_string header ''typ'' [] = Inr typ \<and> upper typ = JWT_TYPE \<and>
        value_string header ''alg'' [] = Inr alg \<and> lower alg \<in> {''ed25519'', JWT_ALGORITHM})"
  (is "?l \<longleftrightarrow> ?r")
proof
  assume ?l
  then show ?r
    by (auto simp: validateHeader_def bindE_Inr_iff checkHeaderField_def Let_def)
next
  assume r: ?r
  then obtain o' where o': "header = JObject o'" by (cases header) auto
  have "checkHeaderField header k = Inr ()" if "value_string header k [] = Inr v" for k v
    using that by (auto simp: o' checkHeaderField_def split: option.splits elim: get_string.elims)
  with r show ?l by (auto simp: validateHeader_def bindE_Inr_iff Let_def)
qed

lemma validateHeader_error: "validateHeader L s = Inl e \<Longrightarrow> is_jwt_error e"
proof -
  have field: "value_string (JObject o') k [] = Inl e' \<Longrightarrow> checkHeaderField (JObject o') k \<noteq> Inr ()"
    for o' k e'
    by (auto simp: checkHeaderField_def split: option.splits elim: get_string.elims)
  have checks: "checkHeaderField h k = Inl e' \<Longrightarrow> is_jwt_error e'" for h k e'
    by (auto simp: checkHeaderField_def split: option.splits)
  assume "validateHeader L s = Inl e"
  then show ?thesis
    unfolding validateHeader_def bindE_Inl_iff throw_if_Inl_iff throw_if_Inr_iff Let_def
    by (elim disjE exE conjE; (auto dest: parse_or_error checks)?)
       (use field in \<open>metis is_object.elims(2) old.unit.exhaust not_not\<close>)+
qed

text \<open>
  What the wire says when everything before the signature is in order: the chunks of the token, the
  algorithm of its header, and the fields of its payload.
\<close>

definition wire ::
  "lib \<Rightarrow> string \<Rightarrow> string \<Rightarrow> string \<Rightarrow> string \<Rightarrow> string \<Rightarrow> json smap \<Rightarrow> bool" where
  "wire L t h p s alg obj \<longleftrightarrow>
     length t \<le> MAX_JWT_SIZE \<and> t = token_of h p s \<and> chunk h \<and> chunk p \<and> chunk s \<and>
     (\<exists>hb header alg0. base64url_decode h = Inr hb \<and> validateHeader L (string_of hb) = Inr header \<and>
        value_string header ''alg'' [] = Inr alg0 \<and> alg = lower alg0) \<and>
     (\<exists>pb. base64url_decode p = Inr pb \<and> json_parse L (string_of pb) = Inr (JObject obj))"

lemma wire_unique: "wire L t h p s alg obj \<Longrightarrow> wire L t h' p' s' alg' obj' \<Longrightarrow>
    h = h' \<and> p = p' \<and> s = s' \<and> alg = alg' \<and> obj = obj'"
  unfolding wire_def by (auto simp: token_of_inj)

lemma parts_of_sel [simp]:
  "header_b64 (parts_of h p s) = h" "payload_b64 (parts_of h p s) = p"
  "signature_b64 (parts_of h p s) = s" "signing_input (parts_of h p s) = h @ ''.'' @ p"
  by (simp_all add: parts_of_def)

lemma decodeEnvelope_wire:
  assumes "wire L t h p s alg obj"
  shows "decodeEnvelope L t = openPayload L (parts_of h p s) alg obj"
proof -
  from assms have "parseJwt t = Inr (parts_of h p s)"
    unfolding parseJwt_Inr_iff wire_def by blast
  with assms show ?thesis
    by (auto simp: wire_def decodeEnvelope_def parse_or_def)
qed

lemma as_object_iff [simp]: "as_object j = Inr obj \<longleftrightarrow> j = JObject obj"
  by (cases j) auto

lemma value_string_checked:
  "validateHeader L s = Inr header \<Longrightarrow> \<exists>alg. value_string header ''alg'' [] = Inr alg"
  unfolding validateHeader_Inr_iff by blast

lemma decodeEnvelope_cases:
  obtains (open') h p s alg obj where "wire L t h p s alg obj"
      "decodeEnvelope L t = openPayload L (parts_of h p s) alg obj"
    | (refused) e where "decodeEnvelope L t = Inl e" "is_jwt_error e"
proof (cases "\<exists>h p s alg obj. wire L t h p s alg obj")
  case True
  then show ?thesis using that(1) decodeEnvelope_wire by blast
next
  case False
  have "\<exists>e. decodeEnvelope L t = Inl e \<and> is_jwt_error e"
  proof (cases "parseJwt t")
    case (Inl e)
    then show ?thesis using parseJwt_error by (simp add: decodeEnvelope_def)
  next
    case (Inr parts)
    then obtain h p s where t: "length t \<le> MAX_JWT_SIZE" "t = token_of h p s" "chunk h" "chunk p" "chunk s"
      and parts: "parts = parts_of h p s"
      unfolding parseJwt_Inr_iff by blast
    let ?rest = "\<lambda>alg0. bindE (base64url_decode p) (\<lambda>payload_bytes.
         bindE (parse_or L payload_parse_error (string_of payload_bytes)) (\<lambda>j.
         bindE (as_object j) (\<lambda>obj. openPayload L parts (lower alg0) obj)))"
    show ?thesis
    proof (cases "bindE (base64url_decode h) (\<lambda>hb. validateHeader L (string_of hb))")
      case (Inl e)
      then have "decodeEnvelope L t = Inl e"
        using Inr by (auto simp: decodeEnvelope_def parts bindE_Inl_iff)
      moreover have "is_jwt_error e"
        using Inl decode_is_jwt_error validateHeader_error by (auto simp: bindE_Inl_iff)
      ultimately show ?thesis by blast
    next
      case hdr: (Inr header)
      then obtain hb where hb: "base64url_decode h = Inr hb" "validateHeader L (string_of hb) = Inr header"
        by (auto simp: bindE_Inr_iff)
      obtain alg0 where alg0: "value_string header ''alg'' [] = Inr alg0"
        using value_string_checked [OF hb(2)] by blast
      have run: "decodeEnvelope L t = ?rest alg0"
        using Inr hb alg0 by (simp add: decodeEnvelope_def parts)
      show ?thesis
      proof (cases "bindE (base64url_decode p) (\<lambda>pb.
          bindE (parse_or L payload_parse_error (string_of pb)) as_object)")
        case (Inl e)
        then have "decodeEnvelope L t = Inl e"
          unfolding run by (auto simp: bindE_Inl_iff)
        moreover have "is_jwt_error e"
          using Inl decode_is_jwt_error parse_or_error [of L payload_parse_error]
          by (auto simp: bindE_Inl_iff payload_parse_error_def elim: as_object.elims)
        ultimately show ?thesis by blast
      next
        case (Inr obj)
        then have "wire L t h p s (lower alg0) obj"
          using t hb alg0 by (auto simp: wire_def bindE_Inr_iff)
        with False show ?thesis by blast
      qed
    qed
  qed
  then show ?thesis using that(2) by blast
qed

lemma payloadVersion_error: "payloadVersion p = Inl e \<Longrightarrow> is_jwt_error e"
proof -
  have int: "intValue v k = Inl e' \<Longrightarrow> is_jwt_error e'" for v k e'
    by (cases "(v, k)" rule: intValue.cases) (auto split: if_splits)
  have ifld: "intField j k d = Inl e' \<Longrightarrow> is_jwt_error e'" for j k d e'
    using int by (auto simp: intField_def split: option.splits json.splits if_splits)
  have nats: "is_jwt_error e'" if "natsVersion p = Inl e'" for e'
  proof (cases "objectField (JObject p) ''nats''")
    case (Inl e1)
    with that show ?thesis
      by (auto simp: natsVersion_def objectField_def split: option.splits json.splits)
  next
    case (Inr n)
    with that ifld show ?thesis
      by (cases n) (auto simp: natsVersion_def bindE_Inl_iff split: option.splits)
  qed
  assume "payloadVersion p = Inl e"
  then show ?thesis
    using nats
    by (auto simp: payloadVersion_def v1Layout_def bindE_Inl_iff bindE_Inr_iff type_not_string_def
        split: option.splits json.splits if_splits)
qed

text \<open>
  The one error that is not the library's own: a payload of version 1 by its \<open>nats.version\<close>,
  without the top-level \<open>type\<close> that the migration reads.
\<close>

lemma migrateV1_error:
  "migrateV1 p = Inl e \<Longrightarrow> payloadVersion p = Inr 1 \<Longrightarrow> e = type_error 302 \<and> smap_get p ''type'' = None"
  by (auto simp: migrateV1_def Let_def bindE_Inl_iff payloadVersion_def v1Layout_def bindE_Inr_iff
      split: option.splits json.splits)

lemma migrateV1_typeless: "smap_get p ''type'' = None \<Longrightarrow> migrateV1 p = Inl (type_error 302)"
  by (simp add: migrateV1_def Let_def)

lemma checkVersion_Inr_iff: "checkVersion v = Inr u \<longleftrightarrow> v = 1 \<or> v = 2"
  by (auto simp: checkVersion_def JWT_VERSION_def)

lemma checkVersion_error: "checkVersion v = Inl e \<Longrightarrow> is_jwt_error e"
  by (auto simp: checkVersion_def split: if_splits)

definition authentic :: "lib \<Rightarrow> int \<Rightarrow> string \<Rightarrow> string \<Rightarrow> string \<Rightarrow> json smap \<Rightarrow> bool" where
  "authentic L v h p s obj \<longleftrightarrow>
     payloadVersion obj = Inr v \<and> (v = 1 \<or> v = 2) \<and>
     (\<exists>issuer sub. stringAt obj ''iss'' = Some issuer \<and> stringAt obj ''sub'' = Some sub \<and>
        verifySignature L issuer (if v = 1 then p else h @ ''.'' @ p) s)"

lemma openPayload_authentic:
  assumes "authentic L v h p s obj"
  shows "openPayload L (parts_of h p s) alg obj =
     bindE (if v = 1 then migrateV1 obj else Inr obj)
       (\<lambda>p'. Inr \<lparr>payload = JObject p', version = v, algorithm = alg\<rparr>)"
proof -
  from assms obtain issuer sub where *: "payloadVersion obj = Inr v" "v = 1 \<or> v = 2"
    "stringAt obj ''iss'' = Some issuer" "stringAt obj ''sub'' = Some sub"
    "verifySignature L issuer (if v = 1 then p else h @ ''.'' @ p) s"
    unfolding authentic_def by blast
  have "checkVersion v = Inr ()" using *(2) by (simp add: checkVersion_Inr_iff)
  with * show ?thesis by (auto simp: openPayload_def Let_def)
qed

lemma openPayload_not_authentic:
  assumes "\<nexists>v. authentic L v h p s obj"
  shows "\<exists>e. openPayload L (parts_of h p s) alg obj = Inl e \<and> is_jwt_error e"
proof (cases "payloadVersion obj")
  case (Inl e)
  then show ?thesis using payloadVersion_error by (simp add: openPayload_def)
next
  case (Inr v)
  show ?thesis
  proof (cases "checkVersion v")
    case (Inl e)
    then show ?thesis using Inr checkVersion_error by (simp add: openPayload_def)
  next
    case v: (Inr u)
    then have v12: "v = 1 \<or> v = 2" by (simp add: checkVersion_Inr_iff)
    have le: "v \<le> 1 \<longleftrightarrow> v = 1" using v12 by auto
    show ?thesis
      using assms Inr v v12
      by (auto simp: openPayload_def Let_def lacks_iss_sub_def authentic_def le split: option.splits)
  qed
qed

lemma authentic_version_unique:
  "authentic L v h p s obj \<Longrightarrow> authentic L v' h p s obj \<Longrightarrow> v = v'"
  by (simp add: authentic_def)

text \<open>The outcome of \<open>decodeEnvelope\<close> on every token.\<close>

lemma decodeEnvelope_Inr_iff:
  "decodeEnvelope L t = Inr env \<longleftrightarrow>
     (\<exists>h p s alg obj. wire L t h p s alg obj \<and> authentic L (version env) h p s obj \<and>
        algorithm env = alg \<and>
        (\<exists>obj'. (if version env = 1 then migrateV1 obj = Inr obj' else obj' = obj) \<and>
           env = \<lparr>payload = JObject obj', version = version env, algorithm = alg\<rparr>))"
    (is "?l \<longleftrightarrow> ?r")
proof
  assume ?l
  then show ?r
  proof (cases rule: decodeEnvelope_cases [of L t])
    case (open' h p s alg obj)
    from \<open>?l\<close> open' openPayload_not_authentic [of L h p s obj alg]
    obtain v where v: "authentic L v h p s obj" by fastforce
    have "bindE (if v = 1 then migrateV1 obj else Inr obj)
       (\<lambda>p'. Inr \<lparr>payload = JObject p', version = v, algorithm = alg\<rparr>) = Inr env"
      using \<open>?l\<close> open'(2) openPayload_authentic [OF v] by simp
    then obtain p' where "(if v = 1 then migrateV1 obj else Inr obj) = Inr p'"
      and env: "env = \<lparr>payload = JObject p', version = v, algorithm = alg\<rparr>"
      by (auto simp: bindE_Inr_iff)
    then show ?thesis using open'(1) v by (auto split: if_splits)
  qed simp
next
  assume ?r
  then obtain h p s alg obj obj' where w: "wire L t h p s alg obj"
    and a: "authentic L (version env) h p s obj"
    and m: "if version env = 1 then migrateV1 obj = Inr obj' else obj' = obj"
    and env: "env = \<lparr>payload = JObject obj', version = version env, algorithm = alg\<rparr>"
    by blast
  have "decodeEnvelope L t = Inr \<lparr>payload = JObject obj', version = version env, algorithm = alg\<rparr>"
    unfolding decodeEnvelope_wire [OF w] openPayload_authentic [OF a] using m by (auto split: if_splits)
  with env show ?l by metis
qed

lemma decodeEnvelope_leak_iff:
  "decodeEnvelope L t = Inl e \<and> \<not> is_jwt_error e \<longleftrightarrow>
     e = type_error 302 \<and>
     (\<exists>h p s alg obj. wire L t h p s alg obj \<and> authentic L 1 h p s obj \<and> smap_get obj ''type'' = None)"
    (is "?l \<longleftrightarrow> ?r")
proof
  assume l: ?l
  show ?r
  proof (cases rule: decodeEnvelope_cases [of L t])
    case (open' h p s alg obj)
    with l openPayload_not_authentic [of L h p s obj alg]
    obtain v where v: "authentic L v h p s obj" by fastforce
    with l open'(2) openPayload_authentic [OF v, of alg]
    have "v = 1" and "migrateV1 obj = Inl e" by (auto simp: bindE_Inl_iff split: if_splits)
    moreover from v have "payloadVersion obj = Inr v" by (simp add: authentic_def)
    ultimately have "e = type_error 302 \<and> smap_get obj ''type'' = None"
      using migrateV1_error by blast
    with open'(1) v \<open>v = 1\<close> show ?thesis by blast
  next
    case (refused e)
    with l show ?thesis by simp
  qed
next
  assume ?r
  then obtain h p s alg obj where w: "wire L t h p s alg obj" and a: "authentic L 1 h p s obj"
    and no: "smap_get obj ''type'' = None" and e: "e = type_error 302"
    by blast
  show ?l
    unfolding decodeEnvelope_wire [OF w] openPayload_authentic [OF a] e
    by (simp add: migrateV1_typeless [OF no])
qed

section \<open>Assembled tokens are accepted again\<close>

text \<open>
  What the token code relies on in the libraries, as documented: an empty text is no JSON, and an
  Ed25519 signature that verifies has 64 bytes.
\<close>

definition lib_ok :: "lib \<Rightarrow> bool" where
  "lib_ok L \<longleftrightarrow>
     (\<forall>j. json_parse L [] \<noteq> Inr j) \<and>
     (\<forall>key pub msg sig. FromPublicKey L key = Inr pub \<longrightarrow> kp_verify pub msg sig \<longrightarrow> length sig = 64)"

lemma lower_algorithm [simp]: "lower JWT_ALGORITHM = JWT_ALGORITHM"
  by (simp add: lower_def JWT_ALGORITHM_def to_lower_def Let_def)

lemma upper_type [simp]: "upper JWT_TYPE = JWT_TYPE"
  by (simp add: upper_def JWT_TYPE_def to_upper_def Let_def)

lemma header_json_norm [simp]: "json_norm header_json = header_json"
  by (simp add: header_json_def smap_of_def)

lemma validateHeader_own:
  assumes "json_faithful L header_json" and "json_dump L header_json = Inr s"
  shows "validateHeader L s = Inr header_json"
    and "value_string header_json ''alg'' [] = Inr JWT_ALGORITHM"
proof -
  show alg: "value_string header_json ''alg'' [] = Inr JWT_ALGORITHM"
    by (simp add: header_json_def smap_get_of)
  have "value_string header_json ''typ'' [] = Inr JWT_TYPE"
    by (simp add: header_json_def smap_get_of)
  moreover have "json_parse L s = Inr header_json"
    using json_faithfulD [OF assms] by simp
  ultimately show "validateHeader L s = Inr header_json"
    unfolding validateHeader_Inr_iff using alg by (simp add: header_json_def)
qed

lemma signAndAssemble_Inr_iff:
  "signAndAssemble L pj issuer sign = Inr token \<longleftrightarrow>
     (\<exists>hj sig pub. json_dump L header_json = Inr hj \<and>
        (let input = base64url_encode (bytes_of hj) @ ''.'' @ base64url_encode (bytes_of pj)
         in sign issuer (bytes_of input) = Inr sig \<and> FromPublicKey L issuer = Inr pub \<and>
            kp_verify pub (bytes_of input) sig \<and>
            token = token_of (base64url_encode (bytes_of hj)) (base64url_encode (bytes_of pj))
                      (base64url_encode sig)))"
  by (auto simp: signAndAssemble_def createHeader_def bindE_Inr_iff Let_def token_of_def)

text \<open>What was signed and assembled is on the wire, with a signature that verifies.\<close>

lemma signAndAssemble_wire:
  assumes ok: "lib_ok L" and hdr: "json_faithful L header_json"
    and token: "signAndAssemble L pj issuer sign = Inr token" "length token \<le> MAX_JWT_SIZE"
    and pj: "json_parse L pj = Inr (JObject obj)"
  obtains h p s where "wire L token h p s JWT_ALGORITHM obj" "verifySignature L issuer (h @ ''.'' @ p) s"
proof -
  from token(1) obtain hj sig pub where hj: "json_dump L header_json = Inr hj"
    and pub: "FromPublicKey L issuer = Inr pub"
    and ver: "kp_verify pub (bytes_of (base64url_encode (bytes_of hj) @ ''.'' @
                base64url_encode (bytes_of pj))) sig"
    and t: "token = token_of (base64url_encode (bytes_of hj)) (base64url_encode (bytes_of pj))
              (base64url_encode sig)"
    unfolding signAndAssemble_Inr_iff Let_def by blast
  let ?h = "base64url_encode (bytes_of hj)" and ?p = "base64url_encode (bytes_of pj)"
  let ?s = "base64url_encode sig"
  have ne: "hj \<noteq> []" "pj \<noteq> []" "sig \<noteq> []"
    using ok json_faithfulD [OF hdr hj] pj pub ver unfolding lib_ok_def by force+
  have "wire L token ?h ?p ?s JWT_ALGORITHM obj"
    unfolding wire_def t using token(2) ne pj validateHeader_own [OF hdr hj]
    by (simp add: decode_encode t)
  moreover have "verifySignature L issuer (?h @ ''.'' @ ?p) ?s"
    using ver by (simp add: verifySignature_def decode_encode pub)
  ultimately show ?thesis by (rule that)
qed

lemma signAndAssemble_opens:
  assumes ok: "lib_ok L" and hdr: "json_faithful L header_json"
    and token: "signAndAssemble L pj issuer sign = Inr token" "length token \<le> MAX_JWT_SIZE"
    and pj: "json_parse L pj = Inr (JObject obj)" "payloadVersion obj = Inr 2"
    and iss: "stringAt obj ''iss'' = Some issuer" "stringAt obj ''sub'' = Some sub"
  shows "decodeEnvelope L token =
    Inr \<lparr>payload = JObject obj, version = 2, algorithm = JWT_ALGORITHM\<rparr>"
proof -
  obtain h p s where wire: "wire L token h p s JWT_ALGORITHM obj"
    and "verifySignature L issuer (h @ ''.'' @ p) s"
    by (rule signAndAssemble_wire [OF ok hdr token pj(1)])
  then have "authentic L 2 h p s obj"
    using pj(2) iss by (simp add: authentic_def)
  then show ?thesis
    unfolding decodeEnvelope_wire [OF wire] by (simp add: openPayload_authentic)
qed

section \<open>Every accepted token has another spelling\<close>

lemma verified_signature_length:
  assumes "lib_ok L" and "verifySignature L issuer m s"
  shows "length s = 86"
proof -
  from assms(2) obtain sig pub where sig: "base64url_decode s = Inr sig"
    and "FromPublicKey L issuer = Inr pub" "kp_verify pub (bytes_of m) sig"
    by (auto simp: verifySignature_def split: sum.splits)
  with assms(1) have "length sig = 64" unfolding lib_ok_def by blast
  with decode_length [OF sig] have "3 * length s div 4 = 64" by simp
  then show ?thesis by linarith
qed

lemma authentic_respelled:
  "base64url_decode s = base64url_decode s' \<Longrightarrow> authentic L v h p s obj = authentic L v h p s' obj"
  by (simp add: authentic_def verifySignature_def)

lemma respelled_token:
  assumes ok: "lib_ok L" and env: "decodeEnvelope L t = Inr env"
  shows "\<exists>t'. t' \<noteq> t \<and> length t' = length t \<and> decodeEnvelope L t' = Inr env"
proof -
  from env obtain h p s alg obj obj' where w: "wire L t h p s alg obj"
    and a: "authentic L (version env) h p s obj" and alg: "algorithm env = alg"
    and m: "if version env = 1 then migrateV1 obj = Inr obj' else obj' = obj"
    and e: "env = \<lparr>payload = JObject obj', version = version env, algorithm = alg\<rparr>"
    unfolding decodeEnvelope_Inr_iff by blast
  from a obtain issuer m where ver: "verifySignature L issuer m s" unfolding authentic_def by blast
  then have len: "length s = 86" using verified_signature_length ok by blast
  moreover obtain d where d: "base64url_decode s = Inr d"
    using ver by (cases "base64url_decode s") (simp_all add: verifySignature_def)
  ultimately obtain c where c: "c \<in> set alphabet" "butlast s @ [c] \<noteq> s"
    and dc: "base64url_decode (butlast s @ [c]) = Inr d"
    using other_spelling [OF d] by auto
  let ?s = "butlast s @ [c]"
  have "set ?s \<subseteq> set alphabet" using decode_accepts_iff dc by blast
  then have chunk: "chunk ?s" using dot_not_in_alphabet unfolding chunk_def by blast
  have ls: "length ?s = length s" using len by simp
  have "wire L (token_of h p ?s) h p ?s alg obj"
    using w chunk ls by (auto simp: wire_def token_of_def)
  moreover have "authentic L (version env) h p ?s obj"
    using a authentic_respelled [of s ?s] d dc by simp
  ultimately have "decodeEnvelope L (token_of h p ?s) = Inr env"
    unfolding decodeEnvelope_Inr_iff using alg m e by blast
  moreover have "token_of h p ?s \<noteq> t" "length (token_of h p ?s) = length t"
    using w c(2) ls by (auto simp: wire_def token_of_def)
  ultimately show ?thesis by blast
qed

section \<open>Migration of version 1 payloads\<close>

lemma copyField_get [map_simps]:
  "smap_get (copyField src k k' m) l =
     (if l = k' \<and> smap_get src k \<noteq> None then smap_get src k else smap_get m l)"
  by (auto simp: copyField_def split: option.splits)

lemma fold_del_get [map_simps]:
  "smap_get (fold smap_del ks m) l = (if l \<in> set ks then None else smap_get m l)"
  by (induction ks arbitrary: m) auto

lemma fold_default_get [map_simps]:
  "smap_get (fold (\<lambda>k n. if smap_has n k then n else smap_put k d n) ks m) l =
     (if l \<in> set ks \<and> smap_get m l = None then Some d else smap_get m l)"
  by (induction ks arbitrary: m) (auto simp: smap_has_def)

definition nats_object :: "json smap \<Rightarrow> json smap" where
  "nats_object p = (case smap_get p ''nats'' of Some (JObject n) \<Rightarrow> n | _ \<Rightarrow> [])"

text \<open>Where each field of the migrated \<open>nats\<close> object comes from.\<close>

definition migrated_field :: "json smap \<Rightarrow> string \<Rightarrow> string \<Rightarrow> json option" where
  "migrated_field p ty k =
     (let n = nats_object p
      in if k = ''version'' then Some (JInteger 1)
         else if k = ''issuer_account'' \<and> smap_get p ''issuer_account'' \<noteq> None
              then smap_get p ''issuer_account''
         else if k = ''tags'' \<and> smap_get p ''tags'' \<noteq> None then smap_get p ''tags''
         else if k = ''type'' then Some (JString ty)
         else if k = ''identity'' then None
         else if ty = ''activation''
              then (if k \<in> set [''max'', ''payload'', ''src'', ''times''] then None
                    else if k = ''kind'' \<and> smap_get n ''type'' \<noteq> None then smap_get n ''type''
                    else smap_get n k)
         else if ty = ''user''
              then (if k \<in> set [''subs'', ''data'', ''payload'']
                       \<and> (if k = ''max'' then None else smap_get n k) = None
                    then Some (JInteger (- 1))
                    else if k = ''max'' then None else smap_get n k)
         else smap_get n k)"

lemma migrateV1_result:
  assumes "migrateV1 p = Inr p'"
  shows "\<exists>ty n'. smap_get p ''type'' = Some (JString ty) \<and> smap_get p' ''nats'' = Some (JObject n') \<and>
    (\<forall>k. smap_get n' k = migrated_field p ty k) \<and>
    (\<forall>k. k = ''nats'' \<or> smap_get p' k =
       (if k \<in> {''type'', ''tags'', ''issuer_account''} then None else smap_get p k))"
proof -
  from assms obtain ty where ty: "smap_get p ''type'' = Some (JString ty)"
    by (auto simp: migrateV1_def Let_def bindE_Inr_iff elim: get_string.elims split: option.splits)
  let ?n = "nats_object p"
  define n1 where "n1 = (if ty = ''activation''
                then fold smap_del [''max'', ''payload'', ''src'', ''times''] (copyField ?n ''type'' ''kind'' ?n)
                else if ty = ''user''
                then fold (\<lambda>k n. if smap_has n k then n else smap_put k (JInteger (- 1)) n)
                       [''subs'', ''data'', ''payload''] (smap_del ''max'' ?n)
                else ?n)"
  define n' where "n' = smap_put ''version'' (JInteger 1) (copyField p ''issuer_account'' ''issuer_account''
      (copyField p ''tags'' ''tags'' (smap_put ''type'' (JString ty) (smap_del ''identity'' n1))))"
  have p': "p' = fold smap_del [''type'', ''tags'', ''issuer_account''] (smap_put ''nats'' (JObject n') p)"
    using assms
    by (simp only: migrateV1_def Let_def ty n'_def n1_def nats_object_def option.case get_string.simps
        bindE.simps sum.inject)
  have n1: "smap_get n1 k =
      (if ty = ''activation''
       then (if k \<in> set [''max'', ''payload'', ''src'', ''times''] then None
             else if k = ''kind'' \<and> smap_get ?n ''type'' \<noteq> None then smap_get ?n ''type''
             else smap_get ?n k)
       else if ty = ''user''
       then (if k \<in> set [''subs'', ''data'', ''payload''] \<and> (if k = ''max'' then None else smap_get ?n k) = None
             then Some (JInteger (- 1)) else if k = ''max'' then None else smap_get ?n k)
       else smap_get ?n k)" for k
    unfolding n1_def if_distrib [of "\<lambda>m. smap_get m k"] fold_del_get fold_default_get copyField_get
      smap_get_del2
    by (rule refl)
  show ?thesis
  proof (intro exI conjI allI, rule ty)
    show "smap_get p' ''nats'' = Some (JObject n')" by (simp add: p' fold_del_get del: fold_simps)
    show "k = ''nats'' \<or>
        smap_get p' k = (if k \<in> {''type'', ''tags'', ''issuer_account''} then None else smap_get p k)" for k
      by (cases "k = ''nats''") (simp_all add: p' fold_del_get del: fold_simps)
    show "smap_get n' k = migrated_field p ty k" for k
      unfolding n'_def migrated_field_def Let_def copyField_get smap_get_put2 smap_get_del2 n1
      by (rule refl)
  qed
qed

section \<open>Key kinds\<close>

lemma issuer_kind_loop_None:
  "issuer_kind_loop L issuer kinds names = None \<longleftrightarrow> (\<exists>k \<in> set kinds. kind_check L k issuer)"
  by (induction kinds arbitrary: names) auto

lemma checkIssuerKind_Inr_iff:
  "checkIssuerKind L issuer kinds c = Inr u \<longleftrightarrow> (\<exists>k \<in> set kinds. kind_check L k issuer)"
  using issuer_kind_loop_None [of L issuer kinds "[]"]
  by (auto simp: checkIssuerKind_def split: option.splits)

lemma checkIssuerKind_error: "checkIssuerKind L issuer kinds c = Inl e \<Longrightarrow> is_jwt_error e"
  by (auto simp: checkIssuerKind_def split: option.splits)

lemma checkSubjectKind_Inr_iff:
  "checkSubjectKind L s k c = Inr u \<longleftrightarrow> k \<in> {CHR ''O'', CHR ''A'', CHR ''U''} \<and> kind_check L k s"
  by (auto simp: checkSubjectKind_def kind_check_def Let_def)

lemma checkSubjectKind_error: "checkSubjectKind L s k c = Inl e \<Longrightarrow> is_jwt_error e"
  by (auto simp: checkSubjectKind_def Let_def)

section \<open>A concrete environment\<close>

text \<open>
  An environment in which the hypotheses of the properties hold: it prints the header as \<open>H\<close> and
  anything else as \<open>P\<close>, which it parses to a given value; a key of a kind is a text that starts with
  its letter, a seed is an \<open>S\<close> followed by the key, and a signature is 64 equal bytes that depend on
  the key and the message.
\<close>

definition demo_sig :: "string \<Rightarrow> byte list \<Rightarrow> byte list" where
  "demo_sig key msg = replicate 64 (word_of_nat (length key + length msg))"

definition demo_pair :: "string \<Rightarrow> keypair" where
  "demo_pair key = \<lparr>publicString = key, kp_sign = \<lambda>msg. Inr (demo_sig key msg),
                     kp_verify = \<lambda>msg sig. sig = demo_sig key msg\<rparr>"

definition demo_lib :: "json \<Rightarrow> lib" where
  "demo_lib j =
     \<lparr>json_parse = \<lambda>s. if s = ''H'' then Inr header_json
                       else if s = ''P'' then Inr (json_norm j) else Inl (Json_exn 101),
      json_dump = \<lambda>v. Inr (if v = header_json then ''H'' else ''P''),
      json_what = \<lambda>_. ''parse error'',
      IsValidPublicOperatorKey = \<lambda>k. starts_with k ''O'',
      IsValidPublicAccountKey = \<lambda>k. starts_with k ''A'',
      IsValidPublicUserKey = \<lambda>k. starts_with k ''U'',
      IsValidPublicServerKey = \<lambda>k. starts_with k ''N'',
      IsValidPublicCurveKey = \<lambda>k. starts_with k ''X'',
      IsValidPublicKey = \<lambda>k. k \<noteq> [],
      FromPublicKey = \<lambda>k. if k = [] then Inl (NkeysError ''invalid public key'') else Inr (demo_pair k),
      FromSeed = \<lambda>s. case s of CHR ''S'' # key \<Rightarrow> Inr (demo_pair key) | _ \<Rightarrow> Inl (NkeysError ''invalid seed''),
      FromCurveSeed = \<lambda>_. Inr \<lparr>curve_open = \<lambda>b _. Inr b, curve_seal = \<lambda>b _. Inr b\<rparr>,
      ParseDecoratedJWT = \<lambda>s. Inr s,
      ParseDecoratedNKey = \<lambda>_. Inl (NkeysError ''no seed''),
      ParseDecoratedUserNKey = \<lambda>_. Inl (NkeysError ''no seed''),
      inet_pton = \<lambda>_ _. True,
      stoi_what = ''stoi''\<rparr>"

lemma demo_lib_ok: "lib_ok (demo_lib j)"
  by (auto simp: lib_ok_def demo_lib_def demo_pair_def demo_sig_def split: if_splits)

lemma demo_header: "json_faithful (demo_lib j) header_json"
  by (simp add: json_faithful_def demo_lib_def)

lemma demo_faithful: "json_faithful (demo_lib j) j"
  by (simp add: json_faithful_def demo_lib_def)

definition demo_token :: "string \<Rightarrow> string" where
  "demo_token key =
     (let input = base64url_encode (bytes_of ''H'') @ ''.'' @ base64url_encode (bytes_of ''P'')
      in input @ ''.'' @ base64url_encode (demo_sig key (bytes_of input)))"

lemma demo_signs:
  "key \<noteq> [] \<Longrightarrow> signAndAssemble (demo_lib j) ''P'' key (signerFor (demo_pair key)) = Inr (demo_token key)"
  by (simp add: signAndAssemble_def createHeader_def signerFor_def demo_lib_def demo_pair_def
      dump_json_def demo_token_def Let_def)

lemma demo_token_length: "length (demo_token key) \<le> MAX_JWT_SIZE"
  by (simp add: demo_token_def Let_def encode_length demo_sig_def MAX_JWT_SIZE_def)

section \<open>Properties\<close>

text \<open>
  C40: Splitting. A text is accepted exactly when it has at most 1 MiB and is three non-empty chunks
  joined by two dots; the chunks returned are these, and the signing input is the first two with
  their dot. Every refusal is a malformed-token error.
\<close>

theorem parseJwt_exact:
  "case parseJwt t of
     Inr parts \<Rightarrow> length t \<le> MAX_JWT_SIZE \<and>
       (\<exists>h p s. t = h @ ''.'' @ p @ ''.'' @ s \<and> chunk h \<and> chunk p \<and> chunk s \<and>
          parts = \<lparr>header_b64 = h, payload_b64 = p, signature_b64 = s, signing_input = h @ ''.'' @ p\<rparr>)
   | Inl e \<Rightarrow> (\<exists>m. e = MalformedTokenError m) \<and>
       \<not> (length t \<le> MAX_JWT_SIZE \<and> (\<exists>h p s. t = h @ ''.'' @ p @ ''.'' @ s \<and> chunk h \<and> chunk p \<and> chunk s))"
proof (cases "parseJwt t")
  case (Inl e)
  have "\<exists>m. e = MalformedTokenError m"
    using Inl by (auto simp: parseJwt_def Let_def split: if_splits option.splits)
  moreover have "\<not> (length t \<le> MAX_JWT_SIZE \<and> (\<exists>h p s. t = token_of h p s \<and> chunk h \<and> chunk p \<and> chunk s))"
    using Inl parseJwt_Inr_iff [of t] by (metis Inl_Inr_False)
  ultimately show ?thesis unfolding Inl sum.case token_of_def by blast
next
  case (Inr parts)
  with parseJwt_Inr_iff [THEN iffD1, OF Inr] show ?thesis
    unfolding Inr sum.case token_of_def parts_of_def by blast
qed

text \<open>
  C5: Decoding is authenticated. When \<open>decodeEnvelope\<close> returns, the token is three chunks, the header is
  an acceptable one, the payload is an object that names an issuer and a subject, its version is 1 or
  2, and the signature verifies under that very issuer over the payload chunk (version 1) or over header
  and payload (version 2); the payload returned is the one on the wire, migrated for version 1.
\<close>

theorem decodeEnvelope_authenticates:
  "decodeEnvelope L t = Inr env \<longleftrightarrow>
     (\<exists>h p s alg obj obj'. wire L t h p s alg obj \<and> authentic L (version env) h p s obj \<and>
        (if version env = 1 then migrateV1 obj = Inr obj' else obj' = obj) \<and>
        env = \<lparr>payload = JObject obj', version = version env, algorithm = alg\<rparr>)"
  unfolding decodeEnvelope_Inr_iff by (metis envelope.select_convs(3))

text \<open>
  C32: Which errors escape. Every failure of \<open>decodeEnvelope\<close> is an error of the library, with one
  exception, which occurs exactly on authentic tokens whose payload claims version 1 in \<open>nats.version\<close>
  without a top-level \<open>type\<close>: then the type error 302 of the JSON library leaves the function.
\<close>

theorem decodeEnvelope_error_kinds:
  "(\<exists>e. decodeEnvelope L t = Inl e \<and> \<not> is_jwt_error e) \<longleftrightarrow>
     decodeEnvelope L t = Inl (type_error 302) \<and>
     (\<exists>h p s alg obj. wire L t h p s alg obj \<and> authentic L 1 h p s obj \<and> smap_get obj ''type'' = None)"
    (is "?l \<longleftrightarrow> ?r")
proof
  assume ?l
  then obtain e where e: "decodeEnvelope L t = Inl e \<and> \<not> is_jwt_error e" by blast
  with decodeEnvelope_leak_iff [THEN iffD1, OF e] show ?r by blast
next
  assume ?r
  then show ?l using decodeEnvelope_leak_iff [of L t "type_error 302"] by blast
qed

text \<open>
  C38: No accepted token has only one spelling: for each there is a different text of the same length
  with the same outcome, because the decoder ignores the unused bits at the end of the signature chunk.
\<close>

theorem accepted_token_respelled:
  assumes "lib_ok L" and "decodeEnvelope L t = Inr env"
  shows "\<exists>t'. t' \<noteq> t \<and> length t' = length t \<and> decodeEnvelope L t' = Inr env"
  using respelled_token [OF assms] .

text \<open>
  What signing and assembling produces is accepted: if the payload text parses to an object of
  version 2 that names the signing issuer and a subject, the token opens to exactly that payload.
\<close>

lemma assembled_token_opens:
  assumes "lib_ok L" and "json_faithful L header_json"
    and "signAndAssemble L pj issuer sign = Inr token" and "length token \<le> MAX_JWT_SIZE"
    and "json_parse L pj = Inr (JObject obj)" and "payloadVersion obj = Inr 2"
    and "stringAt obj ''iss'' = Some issuer" and "stringAt obj ''sub'' = Some sub"
  shows "decodeEnvelope L token =
    Inr \<lparr>payload = JObject obj, version = 2, algorithm = JWT_ALGORITHM\<rparr>"
  by (rule signAndAssemble_opens [OF assms])

definition demo_payload :: "json smap" where
  "demo_payload = [(''iss'', JString ''O1''), (''nats'', JObject [(''version'', JUnsigned 2)]),
                   (''sub'', JString ''O1'')]"

lemma assembled_token_opens_witness:
  "decodeEnvelope (demo_lib (JObject demo_payload)) (demo_token ''O1'') =
     Inr \<lparr>payload = JObject demo_payload, version = 2, algorithm = JWT_ALGORITHM\<rparr>"
proof (rule assembled_token_opens [OF demo_lib_ok demo_header demo_signs demo_token_length])
  show "json_parse (demo_lib (JObject demo_payload)) ''P'' = Inr (JObject demo_payload)"
    by (simp add: demo_lib_def demo_payload_def)
  show "payloadVersion demo_payload = Inr 2"
    by (simp add: payloadVersion_def v1Layout_def natsVersion_def objectField_def demo_payload_def
        smap_get_Cons intField_def)
qed (simp_all add: stringAt_def demo_payload_def smap_get_Cons)

lemma demo_opens:
  "decodeEnvelope (demo_lib (JObject demo_payload)) (demo_token ''O1'') =
     Inr \<lparr>payload = JObject demo_payload, version = 2, algorithm = JWT_ALGORITHM\<rparr>"
proof (rule signAndAssemble_opens [OF demo_lib_ok demo_header demo_signs demo_token_length])
  show "json_parse (demo_lib (JObject demo_payload)) ''P'' = Inr (JObject demo_payload)"
    by (simp add: demo_lib_def demo_payload_def)
  show "payloadVersion demo_payload = Inr 2"
    by (simp add: payloadVersion_def v1Layout_def natsVersion_def objectField_def demo_payload_def
        smap_get_Cons intField_def)
qed (simp_all add: stringAt_def demo_payload_def smap_get_Cons)

lemma accepted_token_respelled_witness:
  "\<exists>t'. t' \<noteq> demo_token ''O1'' \<and> length t' = length (demo_token ''O1'') \<and>
     decodeEnvelope (demo_lib (JObject demo_payload)) t' =
       Inr \<lparr>payload = JObject demo_payload, version = 2, algorithm = JWT_ALGORITHM\<rparr>"
  using accepted_token_respelled [OF demo_lib_ok demo_opens] .

text \<open>
  C20: Migration of a version 1 payload: the type moves into \<open>nats\<close>, with version 1, and so do tags
  and issuer account, which are gone from the top level together with the type; every other top-level
  field is kept, and every field of the new \<open>nats\<close> object is the one the v1 rules of its
  type give (activations: \<open>type\<close> becomes \<open>kind\<close> and the limits go; users: absent limits
  are -1 and \<open>max\<close> goes). Without a string type the migration throws the JSON library's type error.
\<close>

theorem migrateV1_exact:
  "case migrateV1 p of
     Inr p' \<Rightarrow>
       (\<exists>ty n'. smap_get p ''type'' = Some (JString ty) \<and> smap_get p' ''nats'' = Some (JObject n') \<and>
          (\<forall>k. smap_get n' k = migrated_field p ty k) \<and>
          (\<forall>k. k = ''nats'' \<or> smap_get p' k =
             (if k \<in> {''type'', ''tags'', ''issuer_account''} then None else smap_get p k)))
   | Inl e \<Rightarrow> e = type_error 302 \<and> stringAt p ''type'' = None"
proof (cases "migrateV1 p")
  case (Inl e)
  then show ?thesis
    by (auto simp: migrateV1_def Let_def bindE_Inl_iff stringAt_def elim: get_string.elims
        split: option.splits)
next
  case (Inr p')
  show ?thesis unfolding Inr sum.case by (rule migrateV1_result [OF Inr])
qed

end
