(* ===== verification/Permissions.thy ===== *)
theory Permissions
  imports Envelope Subjects
begin

text \<open>
  Permissions and limits (\<^verbatim>\<open>include/jwt/permissions.hpp\<close>) and their JSON forms
  (\<^verbatim>\<open>src/scope_serialization.hpp\<close>), shared by users, accounts and scoped signing keys.

  The lemmas show that what is written is read back, field by field, and what reading does to a
  response permission whose number of messages does not fit an \<open>int\<close>.
\<close>

section \<open>The data\<close>

record Permission =
  allow :: "string list"
  deny :: "string list"

definition no_permission :: Permission where
  "no_permission = \<lparr>allow = [], deny = []\<rparr>"

definition permission_empty :: "Permission \<Rightarrow> bool" where
  "permission_empty p \<longleftrightarrow> allow p = [] \<and> deny p = []"

type_synonym int32 = "32 word"

record ResponsePermission =
  maxMsgs :: int32
  ttlNanos :: int64

record Permissions =
  pub :: Permission
  sub :: Permission
  resp :: "ResponsePermission option"

definition no_permissions :: Permissions where
  "no_permissions = \<lparr>pub = no_permission, sub = no_permission, resp = None\<rparr>"

record TimeRange =
  tr_start :: string
  tr_end :: string

record UserLimits =
  subs :: int64
  data :: int64
  lim_payload :: int64
  src :: "string list"
  times :: "TimeRange list"
  locale' :: string

definition default_limits :: UserLimits where
  "default_limits =
     \<lparr>subs = - 1, data = - 1, lim_payload = - 1, src = [], times = [], locale' = []\<rparr>"

record UserScope =
  key :: string
  role :: string
  sc_description :: string
  permissions :: Permissions
  limits :: UserLimits
  bearerToken :: bool
  proxyRequired :: bool
  allowedConnectionTypes :: "string list"

definition new_scope :: UserScope where
  "new_scope =
     \<lparr>key = [], role = [], sc_description = [], permissions = no_permissions, limits = default_limits,
      bearerToken = False, proxyRequired = False, allowedConnectionTypes = []\<rparr>"

definition validatePermissions :: "Permissions \<Rightarrow> results \<Rightarrow> results" where
  "validatePermissions p vr =
     (let vr1 = fold (checkPermission True) (allow (sub p)) vr;
          vr2 = fold (checkPermission True) (deny (sub p)) vr1;
          vr3 = fold (checkPermission False) (allow (pub p)) vr2
      in fold (checkPermission False) (deny (pub p)) vr3)"

section \<open>Writing\<close>

definition permissionToJson :: "Permission \<Rightarrow> json" where
  "permissionToJson p =
     JObject (setIf (deny p \<noteq> []) ''deny'' (json_strings (deny p))
               (setIf (allow p \<noteq> []) ''allow'' (json_strings (allow p)) []))"

definition respToJson :: "ResponsePermission \<Rightarrow> json" where
  "respToJson r = JObject (smap_of [(''max'', JInteger (scast (maxMsgs r))), (''ttl'', JInteger (ttlNanos r))])"

definition timeToJson :: "TimeRange \<Rightarrow> json" where
  "timeToJson tr = JObject (smap_of [(''start'', JString (tr_start tr)), (''end'', JString (tr_end tr))])"

definition userPermissionLimitsToJson ::
  "Permissions \<Rightarrow> UserLimits \<Rightarrow> bool \<Rightarrow> bool \<Rightarrow> string list \<Rightarrow> json" where
  "userPermissionLimitsToJson perms lims bearer proxy connTypes =
     (let m0 = smap_put ''sub'' (permissionToJson (sub perms))
                 (smap_put ''pub'' (permissionToJson (pub perms)) []);
          m1 = putOpt ''resp'' respToJson (resp perms) m0;
          m2 = setIf (subs lims \<noteq> 0) ''subs'' (JInteger (subs lims)) m1;
          m3 = setIf (data lims \<noteq> 0) ''data'' (JInteger (data lims)) m2;
          m4 = setIf (lim_payload lims \<noteq> 0) ''payload'' (JInteger (lim_payload lims)) m3;
          m5 = setIf (src lims \<noteq> []) ''src'' (json_strings (src lims)) m4;
          m6 = setIf (times lims \<noteq> []) ''times'' (JArray (map timeToJson (times lims))) m5;
          m7 = setIf (locale' lims \<noteq> []) ''times_location'' (JString (locale' lims)) m6;
          m8 = setIf bearer ''bearer_token'' (JBool True) m7;
          m9 = setIf proxy ''proxy_required'' (JBool True) m8
      in JObject (setIf (connTypes \<noteq> []) ''allowed_connection_types'' (json_strings connTypes) m9))"

definition userScopeToJson :: "UserScope \<Rightarrow> json" where
  "userScopeToJson s =
     JObject (smap_of
       [(''kind'', JString ''user_scope''), (''key'', JString (key s)), (''role'', JString (role s)),
        (''template'', userPermissionLimitsToJson (permissions s) (limits s) (bearerToken s)
                          (proxyRequired s) (allowedConnectionTypes s)),
        (''description'', JString (sc_description s))])"

section \<open>Reading\<close>

definition permissionFromJson :: "json \<Rightarrow> exn + Permission" where
  "permissionFromJson j =
     bindE (stringsField j ''allow'') (\<lambda>al. bindE (stringsField j ''deny'') (\<lambda>de.
       Inr \<lparr>allow = al, deny = de\<rparr>))"

text \<open>\<open>if (const auto* o = objectField(j, k)) x = permissionFromJson(*o);\<close>\<close>

definition permissionField :: "json \<Rightarrow> string \<Rightarrow> exn + Permission" where
  "permissionField j k =
     bindE (objectField j k) (\<lambda>v. case v of None \<Rightarrow> Inr no_permission | Some o' \<Rightarrow> permissionFromJson o')"

text \<open>\<open>static_cast<int>\<close> of the 64-bit value that was read.\<close>

definition respField :: "json \<Rightarrow> exn + ResponsePermission option" where
  "respField j =
     bindE (objectField j ''resp'') (\<lambda>v.
       case v of
         None \<Rightarrow> Inr None
       | Some o' \<Rightarrow>
           bindE (intField o' ''max'' 0) (\<lambda>m. bindE (intField o' ''ttl'' 0) (\<lambda>t.
             Inr (Some \<lparr>maxMsgs = ucast m, ttlNanos = t\<rparr>))))"

definition timeFromJson :: "json \<Rightarrow> exn + TimeRange" where
  "timeFromJson tr =
     bindE (value_string tr ''start'' []) (\<lambda>s. bindE (value_string tr ''end'' []) (\<lambda>e.
       Inr \<lparr>tr_start = s, tr_end = e\<rparr>))"

definition timesField :: "json \<Rightarrow> exn + TimeRange list" where
  "timesField j =
     bindE (arrayField j ''times'') (\<lambda>a. case a of None \<Rightarrow> Inr [] | Some xs \<Rightarrow> mapE timeFromJson xs)"

record template =
  t_permissions :: Permissions
  t_limits :: UserLimits
  t_bearer :: bool
  t_proxy :: bool
  t_connTypes :: "string list"

definition userPermissionLimitsFromJson :: "json \<Rightarrow> exn + template" where
  "userPermissionLimitsFromJson j =
     bindE (permissionField j ''pub'') (\<lambda>p.
     bindE (permissionField j ''sub'') (\<lambda>s.
     bindE (respField j) (\<lambda>r.
     bindE (intField j ''subs'' (- 1)) (\<lambda>su.
     bindE (intField j ''data'' (- 1)) (\<lambda>da.
     bindE (intField j ''payload'' (- 1)) (\<lambda>pa.
     bindE (stringsField j ''src'') (\<lambda>sr.
     bindE (timesField j) (\<lambda>ti.
     bindE (value_string j ''times_location'' []) (\<lambda>loc.
     bindE (value_bool j ''bearer_token'' False) (\<lambda>be.
     bindE (value_bool j ''proxy_required'' False) (\<lambda>pr.
     bindE (stringsField j ''allowed_connection_types'') (\<lambda>ct.
       Inr \<lparr>t_permissions = \<lparr>pub = p, sub = s, resp = r\<rparr>,
            t_limits = \<lparr>subs = su, data = da, lim_payload = pa, src = sr, times = ti, locale' = loc\<rparr>,
            t_bearer = be, t_proxy = pr, t_connTypes = ct\<rparr>))))))))))))"

definition userScopeFromJson :: "json \<Rightarrow> exn + UserScope" where
  "userScopeFromJson j =
     bindE (value_string j ''key'' []) (\<lambda>k.
     bindE (value_string j ''role'' []) (\<lambda>r.
     bindE (value_string j ''description'' []) (\<lambda>d.
     bindE (objectField j ''template'') (\<lambda>t.
       case t of
         None \<Rightarrow> Inr (new_scope\<lparr>key := k, role := r, sc_description := d\<rparr>)
       | Some o' \<Rightarrow>
           bindE (userPermissionLimitsFromJson o') (\<lambda>tm.
             Inr \<lparr>key = k, role = r, sc_description = d, permissions = t_permissions tm,
                  limits = t_limits tm, bearerToken = t_bearer tm, proxyRequired = t_proxy tm,
                  allowedConnectionTypes = t_connTypes tm\<rparr>)))))"

section \<open>Fields that are written under a condition\<close>

lemma setIf_get [map_simps]:
  "smap_get (setIf c k v m) l = (if l = k \<and> c then Some v else smap_get m l)"
  by (simp add: setIf_def)

lemma putOpt_get [map_simps]:
  "smap_get (putOpt k f r m) l = (if l = k \<and> r \<noteq> None then map_option f r else smap_get m l)"
  by (cases r) (simp_all add: putOpt_def)

text \<open>
  Reading back a field that was written only when it differs from the default. The object is the one
  that was printed and parsed again.
\<close>

lemma written_int:
  "jget j k = (if c then Some (JInteger n) else None) \<Longrightarrow>
     intField (json_norm j) k d = Inr (if c then n else d)"
  by (auto simp: intField_norm simp del: json_norm.simps)

lemma written_string:
  "is_object j \<Longrightarrow> jget j k = (if c then Some (JString s) else None) \<Longrightarrow>
     value_string (json_norm j) k d = Inr (if c then s else d)"
  by (cases j) auto

lemma written_bool:
  "is_object j \<Longrightarrow> jget j k = (if c then Some (JBool b) else None) \<Longrightarrow>
     value_bool (json_norm j) k d = Inr (if c then b else d)"
  by (cases j) auto

lemma written_string_always:
  "is_object j \<Longrightarrow> jget j k = Some (JString s) \<Longrightarrow> value_string (json_norm j) k d = Inr s"
  by (cases j) auto

lemma written_uint:
  "jget j k = (if c then Some (JUnsigned u) else None) \<Longrightarrow> u \<le> mx \<Longrightarrow>
     uintField (json_norm j) k d mx = Inr (if c then u else d)"
  by (auto simp: uintField_def Let_def)

lemma written_strings:
  "jget j k = (if c then Some (json_strings xs) else None) \<Longrightarrow>
     stringsField (json_norm j) k = Inr (if c then xs else [])"
  by (auto simp: stringsField_def arrayField_def)

lemma written_object:
  "jget j k = Some (JObject o') \<Longrightarrow> objectField (json_norm j) k = Inr (Some (json_norm (JObject o')))"
  by (auto simp: objectField_def)

lemma unwritten_object: "jget j k = None \<Longrightarrow> objectField (json_norm j) k = Inr None"
  by (auto simp: objectField_def)

section \<open>Round trips\<close>

lemma permission_roundtrip [wire_simps]: "permissionFromJson (json_norm (permissionToJson p)) = Inr p"
proof -
  let ?j = "permissionToJson p"
  have "jget ?j ''allow'' = (if allow p \<noteq> [] then Some (json_strings (allow p)) else None)"
    and "jget ?j ''deny'' = (if deny p \<noteq> [] then Some (json_strings (deny p)) else None)"
    by (simp_all add: permissionToJson_def map_simps)
  from this [THEN written_strings] show ?thesis
    by (simp add: permissionFromJson_def del: stringsField_norm split: if_splits)
qed

lemma permissionField_roundtrip:
  "jget j k = Some (permissionToJson p) \<Longrightarrow> permissionField (json_norm j) k = Inr p"
  using permission_roundtrip [of p]
  by (simp add: permissionField_def permissionToJson_def written_object del: json_norm.simps)

lemma ucast_scast_int32: "(ucast (scast (m :: int32) :: int64) :: int32) = m"
  by (rule bit_word_eqI) (auto simp: bit_simps)

lemma sint_scast_int32: "sint (scast (s :: int32) :: int64) = sint s"
proof -
  have "- (2 ^ 63) \<le> sint s" "sint s < 2 ^ 63" using sint_ge [of s] sint_lt [of s] by simp_all
  then have "signed_take_bit 63 (sint s) = sint s" by (simp add: signed_take_bit_int_eq_self)
  then show ?thesis by (simp add: signed_scast_eq)
qed

lemma respField_roundtrip:
  "jget j ''resp'' = map_option respToJson r \<Longrightarrow> respField (json_norm j) = Inr r"
proof (cases r)
  case None
  moreover assume "jget j ''resp'' = map_option respToJson r"
  ultimately show ?thesis by (simp add: respField_def unwritten_object)
next
  case (Some x)
  assume "jget j ''resp'' = map_option respToJson r"
  then have o': "objectField (json_norm j) ''resp'' = Inr (Some (json_norm (respToJson x)))"
    using Some by (simp add: respToJson_def written_object del: json_norm.simps)
  have "intField (json_norm (respToJson x)) ''max'' 0 = Inr (scast (maxMsgs x))"
    and "intField (json_norm (respToJson x)) ''ttl'' 0 = Inr (ttlNanos x)"
    by (rule intField_written, simp add: respToJson_def smap_get_of)+
  then show ?thesis
    by (simp add: respField_def o' Some ucast_scast_int32)
qed

lemma time_roundtrip: "timeFromJson (json_norm (timeToJson tr)) = Inr tr"
  by (simp add: timeFromJson_def timeToJson_def smap_get_of del: json_norm.simps)

interpretation permission_codec: json_codec permissionToJson permissionFromJson "\<lambda>p. p"
  by unfold_locales (simp_all add: permission_roundtrip)

interpretation time_codec: json_codec timeToJson timeFromJson "\<lambda>tr. tr"
  by unfold_locales (simp_all add: time_roundtrip)

lemma timesField_roundtrip:
  "jget j ''times'' = (if ts \<noteq> [] then Some (JArray (map timeToJson ts)) else None) \<Longrightarrow>
     timesField (json_norm j) = Inr ts"
proof (cases "ts = []")
  case False
  assume "jget j ''times'' = (if ts \<noteq> [] then Some (JArray (map timeToJson ts)) else None)"
  with False have "arrayField (json_norm j) ''times'' = Inr (Some (map json_norm (map timeToJson ts)))"
    by (simp add: arrayField_def)
  then show ?thesis
    unfolding timesField_def by (simp only: bindE.simps option.case time_codec.reread_list list.map_ident)
qed (simp add: timesField_def arrayField_def)

text \<open>
  A template limit of 0 is not written, and an absent template limit is read as -1, no limit.
\<close>

definition or_unlimited :: "int64 \<Rightarrow> int64" where
  "or_unlimited n = (if n = 0 then - 1 else n)"

definition reread_limits :: "UserLimits \<Rightarrow> UserLimits" where
  "reread_limits l = l\<lparr>subs := or_unlimited (subs l), data := or_unlimited (data l),
     lim_payload := or_unlimited (lim_payload l)\<rparr>"

definition reread_scope :: "UserScope \<Rightarrow> UserScope" where
  "reread_scope s = s\<lparr>limits := reread_limits (limits s)\<rparr>"

lemma reread_scope_idem: "reread_scope (reread_scope s) = reread_scope s"
  by (simp add: reread_scope_def reread_limits_def or_unlimited_def)

text \<open>The fields of a written template.\<close>

lemmas template_get = userPermissionLimitsToJson_def Let_def jget.simps setIf_get putOpt_get smap_get_put2

lemma template_fields:
  fixes perms lims bearer proxy connTypes
  defines "j \<equiv> userPermissionLimitsToJson perms lims bearer proxy connTypes"
  shows "is_object j"
    and "jget j ''pub'' = Some (permissionToJson (pub perms))"
    and "jget j ''sub'' = Some (permissionToJson (sub perms))"
    and "jget j ''resp'' = map_option respToJson (resp perms)"
    and "jget j ''subs'' = (if subs lims \<noteq> 0 then Some (JInteger (subs lims)) else None)"
    and "jget j ''data'' = (if data lims \<noteq> 0 then Some (JInteger (data lims)) else None)"
    and "jget j ''payload'' = (if lim_payload lims \<noteq> 0 then Some (JInteger (lim_payload lims)) else None)"
    and "jget j ''src'' = (if src lims \<noteq> [] then Some (json_strings (src lims)) else None)"
    and "jget j ''times'' = (if times lims \<noteq> [] then Some (JArray (map timeToJson (times lims))) else None)"
    and "jget j ''times_location'' = (if locale' lims \<noteq> [] then Some (JString (locale' lims)) else None)"
    and "jget j ''bearer_token'' = (if bearer then Some (JBool True) else None)"
    and "jget j ''proxy_required'' = (if proxy then Some (JBool True) else None)"
    and "jget j ''allowed_connection_types'' =
           (if connTypes \<noteq> [] then Some (json_strings connTypes) else None)"
  by (simp_all add: j_def template_get smap_get_Cons)

lemma template_roundtrip:
  "userPermissionLimitsFromJson (json_norm (userPermissionLimitsToJson perms lims bearer proxy connTypes)) =
     Inr \<lparr>t_permissions = perms, t_limits = reread_limits lims, t_bearer = bearer, t_proxy = proxy,
          t_connTypes = connTypes\<rparr>"
proof -
  let ?j = "userPermissionLimitsToJson perms lims bearer proxy connTypes"
  note f = template_fields [where perms = perms and lims = lims and bearer = bearer and proxy = proxy
      and connTypes = connTypes]
  note reads = permissionField_roundtrip [OF f(2)] permissionField_roundtrip [OF f(3)]
    respField_roundtrip [OF f(4)] written_int [OF f(5)] written_int [OF f(6)] written_int [OF f(7)]
    written_strings [OF f(8)] timesField_roundtrip [OF f(9)] written_string [OF f(1,10)]
    written_bool [OF f(1,11)] written_bool [OF f(1,12)] written_strings [OF f(13)]
  show ?thesis
    unfolding userPermissionLimitsFromJson_def reads bindE.simps
    by (auto simp: reread_limits_def or_unlimited_def)
qed

lemma scope_roundtrip: "userScopeFromJson (json_norm (userScopeToJson s)) = Inr (reread_scope s)"
proof -
  let ?t = "userPermissionLimitsToJson (permissions s) (limits s) (bearerToken s) (proxyRequired s)
              (allowedConnectionTypes s)"
  obtain o' where t: "?t = JObject o'" by (simp add: userPermissionLimitsToJson_def Let_def)
  have f: "jget (userScopeToJson s) ''key'' = Some (JString (key s))"
    "jget (userScopeToJson s) ''role'' = Some (JString (role s))"
    "jget (userScopeToJson s) ''description'' = Some (JString (sc_description s))"
    "jget (userScopeToJson s) ''template'' = Some ?t"
    by (simp_all add: userScopeToJson_def smap_get_of)
  have obj: "is_object (userScopeToJson s)" by (simp add: userScopeToJson_def)
  have strings: "value_string (json_norm (userScopeToJson s)) k d = Inr v"
    if "jget (userScopeToJson s) k = Some (JString v)" for k d v
    using that obj by (cases "userScopeToJson s") auto
  have tmpl: "objectField (json_norm (userScopeToJson s)) ''template'' = Inr (Some (json_norm ?t))"
    using f(4) written_object t by metis
  show ?thesis
    unfolding userScopeFromJson_def strings [OF f(1)] strings [OF f(2)] strings [OF f(3)] tmpl
      bindE.simps option.case template_roundtrip
    by (simp add: reread_scope_def)
qed

interpretation scope_codec: json_codec userScopeToJson userScopeFromJson reread_scope
  by unfold_locales (simp_all add: scope_roundtrip reread_scope_idem)

section \<open>The check of permissions\<close>

lemma appending_validatePermissions: "appending (validatePermissions p)"
  unfolding validatePermissions_def Let_def
  by (intro appending_intros appending_checkPermission)

interpretation permissions_report: reporter "validatePermissions p"
  by (rule reporterI [OF appending_validatePermissions])

section \<open>Properties\<close>

text \<open>
  A scope (a signing key with its template of permissions and limits) written to JSON, printed,
  parsed and read back is the scope that was written, except that a template limit of 0 comes back as
  -1: zero is not written, and absent means no limit. A second pass changes nothing.
\<close>

lemma scope_json_roundtrip:
  "userScopeFromJson (json_norm (userScopeToJson s)) = Inr (reread_scope s) \<and>
   reread_scope (reread_scope s) = reread_scope s \<and>
   (reread_scope s = s \<longleftrightarrow> subs (limits s) \<noteq> 0 \<and> data (limits s) \<noteq> 0 \<and> lim_payload (limits s) \<noteq> 0)"
proof -
  have "reread_scope s = s \<longleftrightarrow> reread_limits (limits s) = limits s"
  proof
    assume "reread_scope s = s"
    then have "limits (reread_scope s) = limits s" by simp
    then show "reread_limits (limits s) = limits s" by (simp add: reread_scope_def)
  qed (simp add: reread_scope_def)
  also have "\<dots> \<longleftrightarrow> or_unlimited (subs (limits s)) = subs (limits s) \<and>
      or_unlimited (data (limits s)) = data (limits s) \<and>
      or_unlimited (lim_payload (limits s)) = lim_payload (limits s)"
    unfolding reread_limits_def by (cases "limits s") simp
  also have "\<dots> \<longleftrightarrow> subs (limits s) \<noteq> 0 \<and> data (limits s) \<noteq> 0 \<and> lim_payload (limits s) \<noteq> 0"
    by (simp add: or_unlimited_def)
  finally show ?thesis using scope_roundtrip reread_scope_idem by simp
qed

text \<open>
  The number of messages of a response permission is cut to 32 bits when it is read: the value
  read is the value on the wire exactly when that fits an \<open>int\<close>; every other 64-bit value is accepted
  too, and wraps.
\<close>

lemma resp_max_wraps:
  "respField (JObject [(''resp'', JObject [(''max'', JInteger m)])]) =
     Inr (Some \<lparr>maxMsgs = ucast m, ttlNanos = 0\<rparr>) \<and>
   (sint (ucast m :: int32) = sint m \<longleftrightarrow> - (2 ^ 31) \<le> sint m \<and> sint m < 2 ^ 31)"
proof
  show "respField (JObject [(''resp'', JObject [(''max'', JInteger m)])]) =
     Inr (Some \<lparr>maxMsgs = ucast m, ttlNanos = 0\<rparr>)"
    by (simp add: respField_def objectField_def intField_def smap_get_def)
  have "sint (ucast m :: int32) = signed_take_bit 31 (take_bit 32 (uint m))"
    by (simp only: sint_uint unsigned_ucast_eq) simp
  also have "\<dots> = signed_take_bit 31 (uint m)"
    by (subst signed_take_bit_take_bit) simp
  also have "\<dots> = signed_take_bit 31 (signed_take_bit 63 (uint m))"
    by (subst signed_take_bit_signed_take_bit) simp
  also have "signed_take_bit 63 (uint m) = sint m"
    by (simp only: sint_uint) simp
  also have "(signed_take_bit 31 (sint m) = sint m) \<longleftrightarrow> - (2 ^ 31) \<le> sint m \<and> sint m < 2 ^ 31"
    using signed_take_bit_int_eq_self_iff [of 31 "sint m"] by blast
  finally show "sint (ucast m :: int32) = sint m \<longleftrightarrow> - (2 ^ 31) \<le> sint m \<and> sint m < 2 ^ 31" .
qed

end
