(* ===== verification/ClaimsBase.thy ===== *)
theory ClaimsBase
  imports Permissions Tags
begin

text \<open>
  What every claims class has in common (\<^verbatim>\<open>include/jwt/claims.hpp\<close> and the parts repeated in each
  \<^verbatim>\<open>*_claims.cpp\<close>): the standard fields, the payload the encoders start from, the tail of every
  encoder (claim id, signature), and the pieces of every decoder that read the standard fields.

  A claims object is a record; each class extends the record \<open>base\<close>. Encoding is a const method
  that nevertheless stamps issuer and issue time into the object, so the model returns the object
  with the result. The interface all classes share is the locale \<open>claims_class\<close>: what its encoder
  produced its decoder accepts, and nothing is decoded that the envelope does not authenticate.
\<close>

section \<open>Standard fields\<close>

record base =
  natsRaw :: "json smap"
  subject :: string
  issuer :: string
  name :: "string option"
  issuedAt :: int64
  expires :: int64
  audience :: string
  notBefore :: int64
  tags :: "string list"

text \<open>The setters every class repeats.\<close>

definition setName :: "string \<Rightarrow> ('a) base_scheme \<Rightarrow> ('a) base_scheme" where
  "setName n c = c\<lparr>name := Some n\<rparr>"

definition setExpires :: "int64 \<Rightarrow> ('a) base_scheme \<Rightarrow> ('a) base_scheme" where
  "setExpires exp c = c\<lparr>expires := exp\<rparr>"

definition setAudience :: "string \<Rightarrow> ('a) base_scheme \<Rightarrow> ('a) base_scheme" where
  "setAudience a c = c\<lparr>audience := a\<rparr>"

definition setNotBefore :: "int64 \<Rightarrow> ('a) base_scheme \<Rightarrow> ('a) base_scheme" where
  "setNotBefore nbf c = c\<lparr>notBefore := nbf\<rparr>"

text \<open>\<open>if (c) m[k] = v; else m.erase(k);\<close>\<close>

definition setOrErase :: "bool \<Rightarrow> string \<Rightarrow> json \<Rightarrow> json smap \<Rightarrow> json smap" where
  "setOrErase c k v m = (if c then smap_put k v m else smap_del k m)"

definition putOrErase :: "string \<Rightarrow> ('a \<Rightarrow> json) \<Rightarrow> 'a option \<Rightarrow> json smap \<Rightarrow> json smap" where
  "putOrErase k f r m = (case r of None \<Rightarrow> smap_del k m | Some x \<Rightarrow> smap_put k (f x) m)"

section \<open>Encoding\<close>

definition hasName :: "('a) base_scheme \<Rightarrow> bool" where
  "hasName c \<longleftrightarrow> name c \<noteq> None \<and> the (name c) \<noteq> []"

definition basePayload :: "('a) base_scheme \<Rightarrow> json smap" where
  "basePayload c =
     (let p0 = smap_put ''sub'' (JString (subject c)) (smap_put ''iss'' (JString (issuer c))
                 (smap_put ''iat'' (JInteger (issuedAt c)) []));
          p1 = setIf (hasName c) ''name'' (JString (the (name c))) p0;
          p2 = setIf (0 < sint (expires c)) ''exp'' (JInteger (expires c)) p1;
          p3 = setIf (audience c \<noteq> []) ''aud'' (JString (audience c)) p2
      in setIf (0 < sint (notBefore c)) ''nbf'' (JInteger (notBefore c)) p3)"

text \<open>\<open>nats_claims["tags"]\<close>, \<open>["type"]\<close> and \<open>["version"]\<close>, the last fields every encoder writes.\<close>

definition finishNats :: "string \<Rightarrow> string list \<Rightarrow> json smap \<Rightarrow> json smap" where
  "finishNats ty tgs m =
     smap_put ''version'' (JInteger (word_of_int JWT_VERSION)) (smap_put ''type'' (JString ty)
       (setOrErase (tgs \<noteq> []) ''tags'' (json_strings tgs) m))"

definition withNats :: "json smap \<Rightarrow> json smap \<Rightarrow> json smap" where
  "withNats p nats = smap_put ''nats'' (JObject nats) p"

definition withJti :: "string \<Rightarrow> json smap \<Rightarrow> json smap" where
  "withJti s p = smap_put ''jti'' (JString (computeJti s)) p"

definition finishEncode :: "lib \<Rightarrow> string \<Rightarrow> signer \<Rightarrow> json smap \<Rightarrow> json smap \<Rightarrow> exn + string" where
  "finishEncode L issuerPublicKey sign p nats =
     (let p1 = withNats p nats
      in bindE (dump_json L (JObject p1)) (\<lambda>s.
         bindE (dump_json L (JObject (withJti s p1))) (\<lambda>pj.
           signAndAssemble L pj issuerPublicKey sign)))"

section \<open>Decoding\<close>

text \<open>
  \<open>payload["nats"]\<close> on a const value: a missing key is undefined behaviour. \<open>payload.at(k)\<close> throws
  the out-of-range exception 403 then.
\<close>

definition natsOf :: "json \<Rightarrow> exn + json" where
  "natsOf p = (case jget p ''nats'' of None \<Rightarrow> Inl (UndefinedBehaviour ''operator[] on a const object'')
                 | Some v \<Rightarrow> Inr v)"

definition at_string :: "json \<Rightarrow> string \<Rightarrow> exn + string" where
  "at_string p k = (case jget p k of None \<Rightarrow> Inl (type_error 403) | Some v \<Rightarrow> get_string v)"

definition readName :: "json \<Rightarrow> exn + string option" where
  "readName p =
     (case jget p ''name'' of None \<Rightarrow> Inr None | Some v \<Rightarrow> bindE (get_string v) (\<lambda>s. Inr (Some s)))"

definition readOptString :: "json \<Rightarrow> string \<Rightarrow> exn + string option" where
  "readOptString j k =
     (case jget j k of None \<Rightarrow> Inr None | Some v \<Rightarrow> bindE (get_string v) (\<lambda>s. Inr (Some s)))"

text \<open>The type check at the head of the typed decoders, which reports the type it found.\<close>

definition checkType :: "json \<Rightarrow> string \<Rightarrow> exn + unit" where
  "checkType nats ty =
     (let mismatch = (\<lambda>got. InvalidClaimsError (''JWT type mismatch: expected '' @ squoted ty @
                              '', got '' @ squoted got))
      in case jget nats ''type'' of
           None \<Rightarrow> Inl (mismatch ''missing'')
         | Some v \<Rightarrow> if v = JString ty then Inr () else bindE (get_string v) (\<lambda>t. Inl (mismatch t)))"

fun fields_of :: "json \<Rightarrow> json smap" where
  "fields_of (JObject n) = n"
| "fields_of _ = []"

section \<open>Looking up what was written\<close>

lemma setOrErase_get [map_simps]:
  "smap_get (setOrErase c k v m) l = (if l = k then (if c then Some v else None) else smap_get m l)"
  by (simp add: setOrErase_def)

lemma putOrErase_get [map_simps]:
  "smap_get (putOrErase k f r m) l = (if l = k then map_option f r else smap_get m l)"
  by (cases r) (simp_all add: putOrErase_def)

lemmas base_get = basePayload_def Let_def setIf_get smap_get_put2 smap_get_Nil

lemmas nats_get = finishNats_def setOrErase_get putOrErase_get smap_get_put2 smap_get_del2

lemma basePayload_fields:
  "smap_get (basePayload c) ''iat'' = Some (JInteger (issuedAt c))"
  "smap_get (basePayload c) ''iss'' = Some (JString (issuer c))"
  "smap_get (basePayload c) ''sub'' = Some (JString (subject c))"
  "smap_get (basePayload c) ''name'' = (if hasName c then Some (JString (the (name c))) else None)"
  "smap_get (basePayload c) ''exp'' = (if 0 < sint (expires c) then Some (JInteger (expires c)) else None)"
  "smap_get (basePayload c) ''aud'' = (if audience c \<noteq> [] then Some (JString (audience c)) else None)"
  "smap_get (basePayload c) ''nbf'' = (if 0 < sint (notBefore c) then Some (JInteger (notBefore c)) else None)"
  "smap_get (basePayload c) ''type'' = None"
  by (simp_all add: base_get smap_get_Cons)

text \<open>The object an encoder prints last: standard fields, \<open>nats\<close> and the claim id.\<close>

definition wirePayload :: "lib \<Rightarrow> ('a) base_scheme \<Rightarrow> json smap \<Rightarrow> json smap" where
  "wirePayload L c nats =
     (let p1 = withNats (basePayload c) nats
      in case json_dump L (JObject p1) of Inl _ \<Rightarrow> p1 | Inr s \<Rightarrow> withJti s p1)"

lemma wirePayload_get:
  "k \<noteq> ''jti'' \<Longrightarrow> smap_get (wirePayload L c nats) k =
     (if k = ''nats'' then Some (JObject nats) else smap_get (basePayload c) k)"
  by (auto simp: wirePayload_def withNats_def withJti_def Let_def split: sum.splits)

lemma wirePayload_fields:
  "smap_get (wirePayload L c nats) ''nats'' = Some (JObject nats)"
  "smap_get (wirePayload L c nats) ''iat'' = Some (JInteger (issuedAt c))"
  "smap_get (wirePayload L c nats) ''iss'' = Some (JString (issuer c))"
  "smap_get (wirePayload L c nats) ''sub'' = Some (JString (subject c))"
  "smap_get (wirePayload L c nats) ''name'' = (if hasName c then Some (JString (the (name c))) else None)"
  "smap_get (wirePayload L c nats) ''exp'' =
     (if 0 < sint (expires c) then Some (JInteger (expires c)) else None)"
  "smap_get (wirePayload L c nats) ''aud'' = (if audience c \<noteq> [] then Some (JString (audience c)) else None)"
  "smap_get (wirePayload L c nats) ''nbf'' =
     (if 0 < sint (notBefore c) then Some (JInteger (notBefore c)) else None)"
  "smap_get (wirePayload L c nats) ''type'' = None"
  by (simp_all add: wirePayload_get basePayload_fields)

lemma finishEncode_Inr:
  assumes "finishEncode L k sign (basePayload c) nats = Inr token"
  obtains pj where "json_dump L (JObject (wirePayload L c nats)) = Inr pj"
    and "signAndAssemble L pj k sign = Inr token"
  using assms by (auto simp: finishEncode_def wirePayload_def bindE_Inr_iff Let_def)

section \<open>Reading the standard fields back\<close>

text \<open>The values the decoders find: an empty name and times that are not positive are not written.\<close>

definition reread_name :: "string option \<Rightarrow> string option" where
  "reread_name n = (if n = Some [] then None else n)"

definition reread_time :: "int64 \<Rightarrow> int64" where
  "reread_time t = (if 0 < sint t then t else 0)"

definition reread_base :: "json smap \<Rightarrow> ('a) base_scheme \<Rightarrow> ('a) base_scheme" where
  "reread_base n c = c\<lparr>natsRaw := n, name := reread_name (name c), expires := reread_time (expires c),
     notBefore := reread_time (notBefore c)\<rparr>"

lemma reread_base_reads:
  fixes c nats L
  defines "p \<equiv> json_norm (JObject (wirePayload L c nats))"
  shows "natsOf p = Inr (json_norm (JObject nats))"
    and "at_string p ''sub'' = Inr (subject c)"
    and "at_string p ''iss'' = Inr (issuer c)"
    and "intField p ''iat'' 0 = Inr (issuedAt c)"
    and "readName p = Inr (reread_name (name c))"
    and "intField p ''exp'' 0 = Inr (reread_time (expires c))"
    and "value_string p ''aud'' [] = Inr (audience c)"
    and "intField p ''nbf'' 0 = Inr (reread_time (notBefore c))"
proof -
  note f = wirePayload_fields [of L c nats]
  let ?j = "JObject (wirePayload L c nats)"
  show "natsOf p = Inr (json_norm (JObject nats))"
    by (simp add: p_def natsOf_def f del: json_norm.simps)
  show "at_string p ''sub'' = Inr (subject c)" "at_string p ''iss'' = Inr (issuer c)"
    by (simp_all add: p_def at_string_def f del: json_norm.simps)
  show "intField p ''iat'' 0 = Inr (issuedAt c)"
    unfolding p_def by (rule intField_written) (simp add: f)
  show "intField p ''exp'' 0 = Inr (reread_time (expires c))"
    unfolding p_def reread_time_def by (rule written_int) (simp add: f)
  show "intField p ''nbf'' 0 = Inr (reread_time (notBefore c))"
    unfolding p_def reread_time_def by (rule written_int) (simp add: f)
  have "value_string p ''aud'' [] = Inr (if audience c \<noteq> [] then audience c else [])"
    unfolding p_def by (rule written_string) (simp_all add: f)
  then show "value_string p ''aud'' [] = Inr (audience c)" by (simp split: if_splits)
  show "readName p = Inr (reread_name (name c))"
    by (cases "name c") (simp_all add: p_def readName_def f hasName_def reread_name_def
        del: json_norm.simps)
qed

lemma checkType_roundtrip:
  "jget j ''type'' = Some (JString ty) \<Longrightarrow> checkType (json_norm j) ty = Inr ()"
  by (simp add: checkType_def)

lemma if_not_Nil [simp]: "(if xs \<noteq> [] then xs else []) = xs"
  by simp

lemma if_not_0 [simp]: "(if n \<noteq> 0 then n else 0) = n"
  by simp

lemma readOptString_roundtrip:
  "jget j k = map_option JString a \<Longrightarrow> readOptString (json_norm j) k = Inr a"
  by (cases a) (simp_all add: readOptString_def)

section \<open>From the encoder to the envelope\<close>

lemma payloadVersion_wire:
  assumes "smap_get p ''type'' = None" and "smap_get p ''nats'' = Some (JObject n)"
    and "\<And>v. smap_get n ''type'' = Some v \<Longrightarrow> is_string v"
    and "smap_get n ''version'' = Some (JInteger (word_of_int JWT_VERSION))"
  shows "payloadVersion (smap_map json_norm p) = Inr 2"
proof -
  have "intField (json_norm (JObject n)) ''version'' 0 = Inr (word_of_int JWT_VERSION)"
    by (rule intField_written) (simp add: assms)
  then have "natsVersion (smap_map json_norm p) = Inr (word_of_int JWT_VERSION)"
    using assms(1,2,4) assms(3) [of "the (smap_get n ''type'')"]
    by (cases "the (smap_get n ''type'')") (auto simp: natsVersion_def objectField_def split: option.splits)
  then show ?thesis
    using assms(1) by (simp add: payloadVersion_def v1Layout_def JWT_VERSION_def)
qed

lemma finishEncode_opens:
  assumes "lib_ok L" and "json_faithful L header_json"
    and token: "finishEncode L (issuer c) sign (basePayload c) nats = Inr token"
    and "length token \<le> MAX_JWT_SIZE"
    and faithful: "json_faithful L (JObject (wirePayload L c nats))"
    and nats: "smap_get nats ''type'' = Some (JString ty)"
      "smap_get nats ''version'' = Some (JInteger (word_of_int JWT_VERSION))"
  shows "decodeEnvelope L token =
    Inr \<lparr>payload = json_norm (JObject (wirePayload L c nats)), version = 2, algorithm = JWT_ALGORITHM\<rparr>"
proof -
  obtain pj where dump: "json_dump L (JObject (wirePayload L c nats)) = Inr pj"
    and sign: "signAndAssemble L pj (issuer c) sign = Inr token"
    by (rule finishEncode_Inr [OF token])
  let ?obj = "smap_map json_norm (wirePayload L c nats)"
  note f = wirePayload_fields [of L c nats]
  have "decodeEnvelope L token =
      Inr \<lparr>payload = JObject ?obj, version = 2, algorithm = JWT_ALGORITHM\<rparr>"
  proof (rule signAndAssemble_opens [OF assms(1,2) sign assms(4)])
    show "json_parse L pj = Inr (JObject ?obj)"
      using json_faithfulD [OF faithful dump] by simp
    show "payloadVersion ?obj = Inr 2"
      by (rule payloadVersion_wire [OF f(9) f(1) _ nats(2)]) (simp add: nats(1))
    show "stringAt ?obj ''iss'' = Some (issuer c)" "stringAt ?obj ''sub'' = Some (subject c)"
      by (simp_all add: stringAt_def f)
  qed
  then show ?thesis by simp
qed

section \<open>Errors inside a guarded decoder\<close>

text \<open>
  A step is tame when it fails only with an error of the library or an exception of the JSON library;
  \<open>guardJson\<close> turns the latter into a malformed-token error.
\<close>

definition tame :: "exn + 'a \<Rightarrow> bool" where
  "tame m \<longleftrightarrow> (\<forall>e. m = Inl e \<longrightarrow> is_jwt_error e \<or> (\<exists>x. e = JsonException x))"

named_theorems tame_intros \<open>steps that fail only with library or JSON errors\<close>

lemma tame_Inr [tame_intros]: "tame (Inr x)"
  by (simp add: tame_def)

lemma tame_bind [tame_intros]: "tame m \<Longrightarrow> (\<And>x. tame (f x)) \<Longrightarrow> tame (bindE m f)"
  by (cases m) (auto simp: tame_def)

lemma tame_errors [tame_intros]:
  "tame (Inl (type_error n))" "tame (Inl (MalformedTokenError m))" "tame (Inl (InvalidClaimsError m))"
  by (simp_all add: tame_def)

lemma tame_throw_if [tame_intros]: "is_jwt_error e \<Longrightarrow> tame (throw_if b e)"
  by (simp add: tame_def)

lemma tame_if [tame_intros]: "tame m \<Longrightarrow> tame m' \<Longrightarrow> tame (if b then m else m')"
  by simp

lemma tame_option [tame_intros]: "tame m \<Longrightarrow> (\<And>x. tame (f x)) \<Longrightarrow> tame (case v of None \<Rightarrow> m | Some x \<Rightarrow> f x)"
  by (cases v) simp_all

lemma tame_let [tame_intros]: "tame (f x) \<Longrightarrow> tame (Let x f)"
  by simp

lemma tame_mapE [tame_intros]: "(\<And>x. tame (f x)) \<Longrightarrow> tame (mapE f xs)"
  by (induction xs) (auto intro: tame_intros)

lemma tame_get [tame_intros]:
  "tame (get_string v)" "tame (get_bool v)" "tame (get_strings v)"
proof -
  show s: "tame (get_string v)" for v by (cases v) (auto intro: tame_intros)
  show "tame (get_bool v)" by (cases v) (auto intro: tame_intros)
  show "tame (get_strings v)" by (cases v) (auto intro: tame_intros s)
qed

lemma tame_value [tame_intros]: "tame (value_string j k d)" "tame (value_bool j k b)"
  by (cases j; auto intro: tame_intros)+

lemma tame_intValue [tame_intros]: "tame (intValue v k)"
  by (cases v) (auto intro: tame_intros)

lemma tame_fields [tame_intros]:
  "tame (intField j k d)" "tame (arrayField j k)" "tame (objectField j k)" "tame (stringsField j k)"
proof -
  show "tame (intField j k d)"
    by (auto simp: intField_def intro: tame_intros split: option.splits json.splits)
  show a: "tame (arrayField j k)"
    by (auto simp: arrayField_def intro: tame_intros split: option.splits json.splits)
  show "tame (objectField j k)"
    by (auto simp: objectField_def intro: tame_intros split: option.splits json.splits)
  show "tame (stringsField j k)"
    unfolding stringsField_def by (intro tame_intros a)
qed

lemma tame_uintField [tame_intros]: "tame (uintField j k d m)"
  by (auto simp: uintField_def Let_def intro: tame_intros split: option.splits json.splits)

lemma tame_permissionField [tame_intros]: "tame (permissionField j k)"
  unfolding permissionField_def permissionFromJson_def by (intro tame_intros)

lemma tame_respField [tame_intros]: "tame (respField j)"
  unfolding respField_def by (intro tame_intros)

lemma tame_timesField [tame_intros]: "tame (timesField j)"
  unfolding timesField_def timeFromJson_def by (intro tame_intros)

lemma tame_at_string [tame_intros]: "tame (at_string p k)"
  unfolding at_string_def by (intro tame_intros)

lemma tame_readName [tame_intros]: "tame (readName p)"
  unfolding readName_def by (intro tame_intros)

lemma tame_readOptString [tame_intros]: "tame (readOptString j k)"
  unfolding readOptString_def by (intro tame_intros)

lemma tame_checkType [tame_intros]: "tame (checkType n ty)"
  unfolding checkType_def Let_def by (intro tame_intros)

lemma tame_kinds [tame_intros]: "tame (checkIssuerKind L i ks c)" "tame (checkSubjectKind L s k c)"
  using checkIssuerKind_error checkSubjectKind_error by (auto simp: tame_def)

lemma tame_exportType [tame_intros]: "tame (exportTypeFrom s)"
  unfolding exportTypeFrom_def by (intro tame_intros)

lemma guardJson_tame: "tame m \<Longrightarrow> guardJson L m = Inl e \<Longrightarrow> is_jwt_error e"
  by (auto simp: tame_def guardJson_def split: sum.splits exn.splits)

text \<open>An opened envelope always has its \<open>nats\<close> object, so \<open>payload["nats"]\<close> is defined.\<close>

lemma decodeEnvelope_nats:
  assumes "decodeEnvelope L t = Inr env"
  shows "\<exists>n. natsOf (payload env) = Inr (JObject n)"
proof -
  obtain h p s alg obj obj' where a: "authentic L (version env) h p s obj"
    and m: "if version env = 1 then migrateV1 obj = Inr obj' else obj' = obj"
    and e: "env = \<lparr>payload = JObject obj', version = version env, algorithm = alg\<rparr>"
    using assms unfolding decodeEnvelope_Inr_iff by blast
  have obj': "payload env = JObject obj'" by (subst e) simp
  have "\<exists>n. smap_get obj' ''nats'' = Some (JObject n)"
  proof (cases "version env = 1")
    case True
    with m migrateV1_result [of obj obj'] show ?thesis by auto
  next
    case False
    with a m have "payloadVersion obj' = Inr 2" by (simp add: authentic_def)
    then have "natsVersion obj' = Inr x \<Longrightarrow> sint x = 2" "\<exists>x. natsVersion obj' = Inr x" for x
      by (auto simp: payloadVersion_def bindE_Inr_iff split: if_splits)
    then show ?thesis
      by (fastforce simp: natsVersion_def objectField_def bindE_Inr_iff split: option.splits json.splits)
  qed
  then show ?thesis by (auto simp: natsOf_def obj')
qed

text \<open>What an opened envelope says of issuer and subject, before and after the migration.\<close>

lemma migrateV1_keeps_names:
  "migrateV1 obj = Inr obj' \<Longrightarrow> k \<in> {''iss'', ''sub''} \<Longrightarrow> smap_get obj' k = smap_get obj k"
proof -
  assume m: "migrateV1 obj = Inr obj'" and k: "k \<in> {''iss'', ''sub''}"
  from migrateV1_result [OF m]
  have "k = ''nats'' \<or> smap_get obj' k =
      (if k \<in> {''type'', ''tags'', ''issuer_account''} then None else smap_get obj k)"
    by blast
  with k show ?thesis by auto
qed

definition names_signer :: "lib \<Rightarrow> string \<Rightarrow> string \<Rightarrow> string \<Rightarrow> bool" where
  "names_signer L t iss sbj \<longleftrightarrow>
     (\<exists>h p s alg obj v. wire L t h p s alg obj \<and> authentic L v h p s obj \<and>
        stringAt obj ''iss'' = Some iss \<and> stringAt obj ''sub'' = Some sbj)"

lemma envelope_names_signer:
  assumes "decodeEnvelope L t = Inr env" and "at_string (payload env) ''iss'' = Inr iss"
    and "at_string (payload env) ''sub'' = Inr sbj"
  shows "names_signer L t iss sbj"
proof -
  obtain h p s alg obj obj' where w: "wire L t h p s alg obj" and a: "authentic L (version env) h p s obj"
    and m: "if version env = 1 then migrateV1 obj = Inr obj' else obj' = obj"
    and e: "env = \<lparr>payload = JObject obj', version = version env, algorithm = alg\<rparr>"
    using assms(1) unfolding decodeEnvelope_Inr_iff by blast
  have "payload env = JObject obj'" by (subst e) simp
  moreover have "smap_get obj' k = smap_get obj k" if "k \<in> {''iss'', ''sub''}" for k
    using m that migrateV1_keeps_names [of obj obj' k] by (cases "version env = 1") auto
  ultimately have "stringAt obj ''iss'' = Some iss" "stringAt obj ''sub'' = Some sbj"
    using assms(2,3)
    by (auto simp: at_string_def stringAt_def elim: get_string.elims split: option.splits)
  with w a show ?thesis unfolding names_signer_def by blast
qed

section \<open>The interface of a claims class\<close>

text \<open>A typed decoder: the envelope first, then the reader of the class under \<open>guardJson\<close>.\<close>

locale claims_decoder =
  fixes read :: "lib \<Rightarrow> json \<Rightarrow> exn + 'c"
    and decode :: "lib \<Rightarrow> string \<Rightarrow> exn + 'c"
  assumes decode: "decode L t = bindE (decodeEnvelope L t) (\<lambda>env. guardJson L (read L (payload env)))"
    and read_tame: "natsOf p = Inr (JObject n) \<Longrightarrow> tame (read L p)"
begin

text \<open>Nothing is decoded that is not authenticated.\<close>

lemma decoded_authentic:
  assumes "decode L t = Inr c"
  obtains env where "decodeEnvelope L t = Inr env" "read L (payload env) = Inr c"
  using assms by (auto simp: decode bindE_Inr_iff)

text \<open>A typed decoder adds no foreign error to those of the envelope.\<close>

lemma decode_errors:
  assumes "decode L t = Inl e"
  shows "is_jwt_error e \<or> decodeEnvelope L t = Inl e"
proof (cases "decodeEnvelope L t")
  case (Inr env)
  then obtain n where "natsOf (payload env) = Inr (JObject n)"
    using decodeEnvelope_nats by blast
  then have "tame (read L (payload env))" by (rule read_tame)
  with assms Inr guardJson_tame show ?thesis by (simp add: decode)
qed (use assms in \<open>simp add: decode\<close>)

text \<open>Every decodable token has another spelling that decodes to the same claims.\<close>

lemma decoded_respelled:
  assumes "lib_ok L" and "decode L t = Inr c"
  shows "\<exists>t'. t' \<noteq> t \<and> length t' = length t \<and> decode L t' = Inr c"
proof -
  obtain env where env: "decodeEnvelope L t = Inr env" by (rule decoded_authentic [OF assms(2)])
  obtain t' where "t' \<noteq> t" "length t' = length t" "decodeEnvelope L t' = Inr env"
    using respelled_token [OF assms(1) env] by blast
  moreover from this have "decode L t' = decode L t" by (simp add: decode env)
  ultimately show ?thesis using assms(2) by auto
qed

end

text \<open>With its encoder: the envelope of an encoded token opens to the payload that was printed.\<close>

locale claims_encoder = claims_decoder read decode
  for read :: "lib \<Rightarrow> json \<Rightarrow> exn + 'c" and decode +
  fixes encode :: "lib \<Rightarrow> int64 \<Rightarrow> 'c \<Rightarrow> string \<Rightarrow> signer \<Rightarrow> (exn + string) \<times> 'c"
    and printed :: "lib \<Rightarrow> 'c \<Rightarrow> json"
  assumes encoded_opens: "encode L now c key' sign = (Inr token, c') \<Longrightarrow> lib_ok L \<Longrightarrow>
      json_faithful L header_json \<Longrightarrow> json_faithful L (printed L c') \<Longrightarrow> length token \<le> MAX_JWT_SIZE \<Longrightarrow>
      decodeEnvelope L token = Inr \<lparr>payload = json_norm (printed L c'), version = 2, algorithm = JWT_ALGORITHM\<rparr>"
begin

lemma decode_printed:
  assumes "encode L now c key' sign = (Inr token, c')" "lib_ok L" "json_faithful L header_json"
    "json_faithful L (printed L c')" "length token \<le> MAX_JWT_SIZE"
  shows "decode L token = guardJson L (read L (json_norm (printed L c')))"
  by (simp add: decode encoded_opens [OF assms])

end

text \<open>What was encoded is decoded, to its reread form.\<close>

locale claims_class = claims_encoder read decode encode printed
  for read :: "lib \<Rightarrow> json \<Rightarrow> exn + 'c" and decode encode printed +
  fixes reread :: "'c \<Rightarrow> 'c"
  assumes encoded_reads: "encode L now c key' sign = (Inr token, c') \<Longrightarrow>
      read L (json_norm (printed L c')) = Inr (reread c')"
begin

lemma decode_encoded:
  assumes "encode L now c key' sign = (Inr token, c')" "lib_ok L" "json_faithful L header_json"
    "json_faithful L (printed L c')" "length token \<le> MAX_JWT_SIZE"
  shows "decode L token = Inr (reread c')"
  by (simp add: decode_printed [OF assms] encoded_reads [OF assms(1)])

end

section \<open>The concrete environment on encoders\<close>

definition demo_wire :: "('a) base_scheme \<Rightarrow> json smap \<Rightarrow> json" where
  "demo_wire c nats = JObject (withJti ''P'' (withNats (basePayload c) nats))"

lemma demo_dump: "smap_get p ''nats'' \<noteq> None \<Longrightarrow> json_dump (demo_lib j) (JObject p) = Inr ''P''"
proof -
  assume "smap_get p ''nats'' \<noteq> None"
  moreover have "jget header_json ''nats'' = None" by (simp add: header_json_def smap_get_of)
  ultimately have "JObject p \<noteq> header_json" by (metis jget.simps(1))
  then show ?thesis by (simp add: demo_lib_def)
qed

lemma demo_wirePayload: "JObject (wirePayload (demo_lib j) c nats) = demo_wire c nats"
  by (simp add: wirePayload_def demo_wire_def demo_dump withNats_def Let_def)

lemma demo_finish:
  "k \<noteq> [] \<Longrightarrow> finishEncode (demo_lib j) k (signerFor (demo_pair k)) p nats = Inr (demo_token k)"
proof -
  assume k: "k \<noteq> []"
  have dump: "dump_json (demo_lib j) v = Inr (if v = header_json then ''H'' else ''P'')" for v
    by (simp add: dump_json_def demo_lib_def)
  have "JObject m \<noteq> header_json" if "smap_get m ''nats'' \<noteq> None" for m
    using that demo_dump [OF that, of j] by (auto simp: demo_lib_def split: if_splits)
  then have "JObject (withNats p nats) \<noteq> header_json" "JObject (withJti ''P'' (withNats p nats)) \<noteq> header_json"
    by (auto simp: withNats_def withJti_def)
  then show ?thesis
    using demo_signs [OF k, of j] by (simp add: finishEncode_def Let_def dump)
qed

end
