(* ===== verification/UserClaims.thy ===== *)
theory UserClaims
  imports ClaimsBase
begin

text \<open>
  User claims (\<^verbatim>\<open>src/user_claims.cpp\<close>): the object and its setters, its checks, encoding and decoding.
  The class implements the interface \<open>claims_class\<close>; the lemmas also give what \<open>validate\<close> demands and
  what scoping a user does.
\<close>

section \<open>The object\<close>

record user_claims = base +
  u_permissions :: Permissions
  u_limits :: UserLimits
  u_bearer :: bool
  u_proxy :: bool
  u_connTypes :: "string list"
  u_issuerAccount :: "string option"

definition UserClaims_new :: "string \<Rightarrow> user_claims" where
  "UserClaims_new userPublicKey =
     \<lparr>natsRaw = [], subject = userPublicKey, issuer = [], name = None, issuedAt = 0, expires = 0,
      audience = [], notBefore = 0, tags = [], u_permissions = no_permissions,
      u_limits = default_limits, u_bearer = False, u_proxy = False, u_connTypes = [],
      u_issuerAccount = None\<rparr>"

definition UserClaims_setIssuer :: "string \<Rightarrow> user_claims \<Rightarrow> user_claims" where
  "UserClaims_setIssuer k c = c\<lparr>issuer := k\<rparr>"

definition setBearerToken :: "bool \<Rightarrow> user_claims \<Rightarrow> user_claims" where
  "setBearerToken b c = c\<lparr>u_bearer := b\<rparr>"

definition setProxyRequired :: "bool \<Rightarrow> user_claims \<Rightarrow> user_claims" where
  "setProxyRequired r c = c\<lparr>u_proxy := r\<rparr>"

definition setIssuerAccount :: "string \<Rightarrow> user_claims \<Rightarrow> user_claims" where
  "setIssuerAccount k c = c\<lparr>u_issuerAccount := (if k = [] then None else Some k)\<rparr>"

definition setScoped :: "bool \<Rightarrow> user_claims \<Rightarrow> user_claims" where
  "setScoped scoped c =
     (if scoped
      then c\<lparr>u_permissions := no_permissions,
             u_limits := \<lparr>subs = 0, data = 0, lim_payload = 0, src = [], times = [], locale' = []\<rparr>,
             u_bearer := False, u_proxy := False, u_connTypes := []\<rparr>
      else c\<lparr>u_limits := default_limits\<rparr>)"

definition hasEmptyPermissions :: "user_claims \<Rightarrow> bool" where
  "hasEmptyPermissions c =
     (let p = u_permissions c; l = u_limits c
      in permission_empty (pub p) \<and> permission_empty (sub p) \<and> resp p = None \<and> subs l = 0 \<and>
         data l = 0 \<and> lim_payload l = 0 \<and> src l = [] \<and> times l = [] \<and>
         locale' l = [] \<and> \<not> u_bearer c \<and> \<not> u_proxy c \<and> u_connTypes c = [])"

section \<open>Checks\<close>

text \<open>
  \<open>strtol\<close> on digits saturates at \<open>LONG_MAX\<close>, far above both bounds, so the comparison is the one
  of the unbounded value. \<open>inet_pton\<close> is given a C string, which ends at the first NUL.
\<close>

definition validateCidr :: "lib \<Rightarrow> string \<Rightarrow> results \<Rightarrow> results" where
  "validateCidr L cidr vr =
     (let ok = (case find_char CHR ''/'' cidr of
                  None \<Rightarrow> False
                | Some slash \<Rightarrow>
                    if 0 < slash \<and> slash + 1 < length cidr
                    then let addr = take slash cidr; prefixStr = drop (slash + 1) cidr;
                             v6 = (find_char CHR '':'' addr \<noteq> None)
                         in inet_pton L v6 (takeWhile (\<lambda>ch. ch \<noteq> CHR 0x00) addr) \<and> isDigits prefixStr \<and>
                            digits_value prefixStr \<le> (if v6 then 128 else 32)
                    else False)
      in error_if (\<not> ok) (''invalid cidr '' @ quoted cidr @ '' in user src limits'') vr)"

text \<open>The \<open>stoi\<close> calls see one or two digits, so they return.\<close>

definition validateTimeOfDay :: "string \<Rightarrow> string \<Rightarrow> results \<Rightarrow> results" where
  "validateTimeOfDay t which vr =
     (let ok = (case splitOn t CHR '':'' of
                  [h, m, s] \<Rightarrow>
                    (length h = 1 \<or> length h = 2) \<and> length m = 2 \<and> length s = 2 \<and>
                    isDigits h \<and> isDigits m \<and> isDigits s \<and>
                    digits_value h \<le> 23 \<and> digits_value m \<le> 59 \<and> digits_value s \<le> 59
                | _ \<Rightarrow> False)
      in error_if (\<not> ok) (which @ '' in time range is invalid '' @ quoted t) vr)"

definition validateLimits :: "lib \<Rightarrow> UserLimits \<Rightarrow> results \<Rightarrow> results" where
  "validateLimits L l vr =
     fold (\<lambda>tr vr. validateTimeOfDay (tr_end tr) ''end'' (validateTimeOfDay (tr_start tr) ''start'' vr))
       (times l) (fold (validateCidr L) (src l) vr)"

definition UserClaims_report :: "lib \<Rightarrow> int64 \<Rightarrow> user_claims \<Rightarrow> results \<Rightarrow> results" where
  "UserClaims_report L now c vr =
     (let vr1 = addTimeChecks now vr (expires c) (notBefore c);
          vr2 = validatePermissions (u_permissions c) vr1;
          vr3 = validateLimits L (u_limits c) vr2
      in error_if (case u_issuerAccount c of None \<Rightarrow> False | Some a \<Rightarrow> \<not> IsValidPublicAccountKey L a)
           ''account_id is not an account public key'' vr3)"

definition UserClaims_checkStructure :: "lib \<Rightarrow> user_claims \<Rightarrow> exn + unit" where
  "UserClaims_checkStructure L c =
     bindE (throw_if (subject c = []) (InvalidClaimsError ''User subject cannot be empty'')) (\<lambda>_.
     bindE (throw_if (issuer c = [])
              (InvalidClaimsError ''User issuer cannot be empty (must be signed by Account)'')) (\<lambda>_.
     bindE (checkSubjectKind L (subject c) CHR ''U'' ''User'') (\<lambda>_.
       checkIssuerKind L (issuer c) ''A'' ''User'')))"

definition UserClaims_validate :: "lib \<Rightarrow> int64 \<Rightarrow> user_claims \<Rightarrow> exn + unit" where
  "UserClaims_validate L now c =
     bindE (UserClaims_checkStructure L c) (\<lambda>_. throwFirstBlocking (UserClaims_report L now c []))"

section \<open>Encoding\<close>

definition UserClaims_nats :: "user_claims \<Rightarrow> json smap" where
  "UserClaims_nats c =
     (let l = u_limits c;
          n0 = putOrErase ''issuer_account'' JString (u_issuerAccount c) (natsRaw c);
          n1 = smap_put ''pub'' (permissionToJson (pub (u_permissions c))) n0;
          n2 = smap_put ''sub'' (permissionToJson (sub (u_permissions c))) n1;
          n3 = putOrErase ''resp'' respToJson (resp (u_permissions c)) n2;
          n4 = setOrErase (subs l \<noteq> 0) ''subs'' (JInteger (subs l)) n3;
          n5 = setOrErase (data l \<noteq> 0) ''data'' (JInteger (data l)) n4;
          n6 = setOrErase (lim_payload l \<noteq> 0) ''payload'' (JInteger (lim_payload l)) n5;
          n7 = setOrErase (src l \<noteq> []) ''src'' (json_strings (src l)) n6;
          n8 = setOrErase (times l \<noteq> []) ''times'' (JArray (map timeToJson (times l))) n7;
          n9 = setOrErase (locale' l \<noteq> []) ''times_location'' (JString (locale' l)) n8;
          n10 = setOrErase (u_bearer c) ''bearer_token'' (JBool True) n9;
          n11 = setOrErase (u_proxy c) ''proxy_required'' (JBool True) n10;
          n12 = setOrErase (u_connTypes c \<noteq> []) ''allowed_connection_types'' (json_strings (u_connTypes c)) n11
      in finishNats ''user'' (tags c) n12)"

definition UserClaims_encodeWithSigner ::
  "lib \<Rightarrow> int64 \<Rightarrow> user_claims \<Rightarrow> string \<Rightarrow> signer \<Rightarrow> (exn + string) \<times> user_claims" where
  "UserClaims_encodeWithSigner L now c issuerPublicKey sign =
     (case checkIssuerKind L issuerPublicKey ''A'' ''User'' of
        Inl e \<Rightarrow> (Inl e, c)
      | Inr _ \<Rightarrow>
          (let c' = c\<lparr>issuer := issuerPublicKey, issuedAt := now\<rparr>
           in (bindE (UserClaims_validate L now c') (\<lambda>_.
                 finishEncode L issuerPublicKey sign (basePayload c') (UserClaims_nats c')), c')))"

definition UserClaims_encode :: "lib \<Rightarrow> int64 \<Rightarrow> user_claims \<Rightarrow> string \<Rightarrow> (exn + string) \<times> user_claims" where
  "UserClaims_encode L now c seed =
     (case FromSeed L seed of
        Inl e \<Rightarrow> (Inl e, c)
      | Inr keypair \<Rightarrow> UserClaims_encodeWithSigner L now c (publicString keypair) (signerFor keypair))"

section \<open>Decoding\<close>

text \<open>Go's CIDR list: a JSON array, or a comma-separated text.\<close>

definition readSrc :: "json \<Rightarrow> exn + string list" where
  "readSrc nats =
     (case jget nats ''src'' of
        None \<Rightarrow> Inr []
      | Some (JArray xs) \<Rightarrow> mapE get_string xs
      | Some (JString s) \<Rightarrow> Inr (addTags [] (splitOn s CHR '',''))
      | Some _ \<Rightarrow> Inl (MalformedTokenError (field_what ''src'' ''must be an array or a string'')))"

definition readIssuerAccount :: "json \<Rightarrow> exn + string option" where
  "readIssuerAccount nats =
     (case jget nats ''issuer_account'' of
        None \<Rightarrow> Inr None
      | Some v \<Rightarrow> bindE (get_string v) (\<lambda>s. Inr (Some s)))"

definition readUser :: "lib \<Rightarrow> json \<Rightarrow> exn + user_claims" where
  "readUser L p =
     bindE (natsOf p) (\<lambda>nats.
     bindE (checkType nats ''user'') (\<lambda>_.
     bindE (at_string p ''sub'') (\<lambda>sbj.
     bindE (at_string p ''iss'') (\<lambda>iss.
     bindE (intField p ''iat'' 0) (\<lambda>iat.
     bindE (permissionField nats ''pub'') (\<lambda>pb.
     bindE (permissionField nats ''sub'') (\<lambda>sb.
     bindE (respField nats) (\<lambda>rs.
     bindE (intField nats ''subs'' 0) (\<lambda>su.
     bindE (intField nats ''data'' 0) (\<lambda>da.
     bindE (intField nats ''payload'' 0) (\<lambda>pa.
     bindE (readSrc nats) (\<lambda>sr.
     bindE (timesField nats) (\<lambda>ti.
     bindE (value_string nats ''times_location'' []) (\<lambda>loc.
     bindE (value_bool nats ''bearer_token'' False) (\<lambda>be.
     bindE (value_bool nats ''proxy_required'' False) (\<lambda>pr.
     bindE (stringsField nats ''allowed_connection_types'') (\<lambda>ct.
     bindE (readName p) (\<lambda>nm.
     bindE (intField p ''exp'' 0) (\<lambda>ex.
     bindE (value_string p ''aud'' []) (\<lambda>au.
     bindE (intField p ''nbf'' 0) (\<lambda>nb.
     bindE (stringsField nats ''tags'') (\<lambda>tg.
     bindE (readIssuerAccount nats) (\<lambda>ia.
     let c0 = \<lparr>natsRaw = fields_of nats, subject = sbj, issuer = iss, name = nm, issuedAt = iat,
               expires = ex, audience = au, notBefore = nb, tags = tg,
               u_permissions = \<lparr>pub = pb, sub = sb, resp = rs\<rparr>,
               u_limits = \<lparr>subs = su, data = da, lim_payload = pa, src = sr, times = ti, locale' = loc\<rparr>,
               u_bearer = be, u_proxy = pr, u_connTypes = ct, u_issuerAccount = None\<rparr>;
         c = (case ia of None \<Rightarrow> c0 | Some a \<Rightarrow> setIssuerAccount a c0)
     in bindE (UserClaims_checkStructure L c) (\<lambda>_. Inr c))))))))))))))))))))))))"

definition decodeUserClaims :: "lib \<Rightarrow> string \<Rightarrow> exn + user_claims" where
  "decodeUserClaims L jwt =
     bindE (decodeEnvelope L jwt) (\<lambda>env. guardJson L (readUser L (payload env)))"

section \<open>The class implements the interface\<close>

lemma UserClaims_nats_fields:
  defines "j \<equiv> \<lambda>c. JObject (UserClaims_nats c)"
  shows "jget (j c) ''type'' = Some (JString ''user'')"
    and "jget (j c) ''version'' = Some (JInteger (word_of_int JWT_VERSION))"
    and "jget (j c) ''pub'' = Some (permissionToJson (pub (u_permissions c)))"
    and "jget (j c) ''sub'' = Some (permissionToJson (sub (u_permissions c)))"
    and "jget (j c) ''resp'' = map_option respToJson (resp (u_permissions c))"
    and "jget (j c) ''subs'' =
           (if subs (u_limits c) \<noteq> 0 then Some (JInteger (subs (u_limits c))) else None)"
    and "jget (j c) ''data'' =
           (if data (u_limits c) \<noteq> 0 then Some (JInteger (data (u_limits c))) else None)"
    and "jget (j c) ''payload'' =
           (if lim_payload (u_limits c) \<noteq> 0 then Some (JInteger (lim_payload (u_limits c))) else None)"
    and "jget (j c) ''src'' = (if src (u_limits c) \<noteq> [] then Some (json_strings (src (u_limits c))) else None)"
    and "jget (j c) ''times'' =
           (if times (u_limits c) \<noteq> [] then Some (JArray (map timeToJson (times (u_limits c)))) else None)"
    and "jget (j c) ''times_location'' =
           (if locale' (u_limits c) \<noteq> [] then Some (JString (locale' (u_limits c))) else None)"
    and "jget (j c) ''bearer_token'' = (if u_bearer c then Some (JBool True) else None)"
    and "jget (j c) ''proxy_required'' = (if u_proxy c then Some (JBool True) else None)"
    and "jget (j c) ''allowed_connection_types'' =
           (if u_connTypes c \<noteq> [] then Some (json_strings (u_connTypes c)) else None)"
    and "jget (j c) ''tags'' = (if tags c \<noteq> [] then Some (json_strings (tags c)) else None)"
    and "jget (j c) ''issuer_account'' = map_option JString (u_issuerAccount c)"
  by (simp_all add: j_def UserClaims_nats_def Let_def nats_get)

definition UserClaims_printed :: "lib \<Rightarrow> user_claims \<Rightarrow> json" where
  "UserClaims_printed L c = JObject (wirePayload L c (UserClaims_nats c))"

text \<open>
  The object a decoder returns for what was encoded: an empty name and an empty issuer account are
  absent, times that are not positive are 0, and the raw \<open>nats\<close> object is the one that was printed.
\<close>

definition UserClaims_reread :: "user_claims \<Rightarrow> user_claims" where
  "UserClaims_reread c =
     reread_base (smap_map json_norm (UserClaims_nats c))
       (c\<lparr>u_issuerAccount := (if u_issuerAccount c = Some [] then None else u_issuerAccount c)\<rparr>)"

lemma readSrc_roundtrip:
  "jget j ''src'' = (if xs \<noteq> [] then Some (json_strings xs) else None) \<Longrightarrow> readSrc (json_norm j) = Inr xs"
  by (cases "xs = []") (simp_all add: readSrc_def)

lemma readIssuerAccount_roundtrip:
  "jget j ''issuer_account'' = map_option JString a \<Longrightarrow> readIssuerAccount (json_norm j) = Inr a"
  by (cases a) (simp_all add: readIssuerAccount_def)

lemma checkStructure_reread:
  "UserClaims_checkStructure L (UserClaims_reread c) = UserClaims_checkStructure L c"
  by (simp add: UserClaims_checkStructure_def UserClaims_reread_def reread_base_def)

lemma readUser_roundtrip:
  assumes "UserClaims_checkStructure L c = Inr ()"
  shows "readUser L (json_norm (UserClaims_printed L c)) = Inr (UserClaims_reread c)"
proof -
  let ?n = "JObject (UserClaims_nats c)"
  note b = reread_base_reads [of L c "UserClaims_nats c"]
  note f = UserClaims_nats_fields [where c = c]
  have obj: "is_object ?n" by simp
  note reads = checkType_roundtrip [OF f(1)] permissionField_roundtrip [OF f(3)]
    permissionField_roundtrip [OF f(4)] respField_roundtrip [OF f(5)] written_int [OF f(6)]
    written_int [OF f(7)] written_int [OF f(8)] readSrc_roundtrip [OF f(9)]
    timesField_roundtrip [OF f(10)] written_string [OF obj f(11)] written_bool [OF obj f(12)]
    written_bool [OF obj f(13)] written_strings [OF f(14)] written_strings [OF f(15)]
    readIssuerAccount_roundtrip [OF f(16)]
  have bools: "(if u_bearer c then True else False) = u_bearer c"
    "(if u_proxy c then True else False) = u_proxy c" by simp_all
  let ?c = "UserClaims_reread c"
  have built: "(case u_issuerAccount c of None \<Rightarrow> c0 | Some a \<Rightarrow> setIssuerAccount a c0) = ?c"
    if "c0 = ?c\<lparr>u_issuerAccount := None\<rparr>" for c0
    using that
    by (cases "u_issuerAccount c") (auto simp: setIssuerAccount_def UserClaims_reread_def reread_base_def)
  have c0: "\<lparr>natsRaw = fields_of (json_norm ?n), subject = subject c, issuer = issuer c,
      name = reread_name (name c), issuedAt = issuedAt c, expires = reread_time (expires c),
      audience = audience c, notBefore = reread_time (notBefore c), tags = tags c,
      u_permissions = \<lparr>pub = pub (u_permissions c), sub = sub (u_permissions c), resp = resp (u_permissions c)\<rparr>,
      u_limits = \<lparr>subs = subs (u_limits c), data = data (u_limits c), lim_payload = lim_payload (u_limits c),
        src = src (u_limits c), times = times (u_limits c), locale' = locale' (u_limits c)\<rparr>,
      u_bearer = u_bearer c, u_proxy = u_proxy c, u_connTypes = u_connTypes c, u_issuerAccount = None\<rparr> =
      ?c\<lparr>u_issuerAccount := None\<rparr>"
    by (simp add: UserClaims_reread_def reread_base_def)
  have struct: "UserClaims_checkStructure L ?c = Inr ()"
    using assms by (simp only: checkStructure_reread)
  show ?thesis
    unfolding readUser_def UserClaims_printed_def b bindE.simps reads bools if_not_Nil if_not_0 Let_def
      built [OF c0] struct
    by (rule refl)
qed

lemma UserClaims_encode_Inr:
  assumes "UserClaims_encodeWithSigner L now c k sign = (Inr token, c')"
  shows "c' = c\<lparr>issuer := k, issuedAt := now\<rparr>" and "kind_check L CHR ''A'' k"
    and "UserClaims_checkStructure L c' = Inr ()"
    and "\<not> isBlocking (UserClaims_report L now c' []) False"
    and "finishEncode L (issuer c') sign (basePayload c') (UserClaims_nats c') = Inr token"
  using assms
  by (auto simp: UserClaims_encodeWithSigner_def Let_def UserClaims_validate_def bindE_Inr_iff
      checkIssuerKind_Inr_iff throwFirstBlocking_Inr_iff split: sum.splits)

lemma tame_readUser: "natsOf p = Inr (JObject n) \<Longrightarrow> tame (readUser L p)"
proof -
  assume n: "natsOf p = Inr (JObject n)"
  have sr: "tame (readSrc j)" for j
    by (auto simp: readSrc_def intro: tame_intros split: option.splits json.splits)
  have ia: "tame (readIssuerAccount j)" for j
    unfolding readIssuerAccount_def by (intro tame_intros)
  have st: "tame (UserClaims_checkStructure L c)" for c
    unfolding UserClaims_checkStructure_def by (intro tame_intros) simp_all
  show ?thesis
    unfolding readUser_def n bindE.simps Let_def by (intro tame_intros sr ia st)
qed

interpretation user_class:
  claims_class readUser decodeUserClaims UserClaims_encodeWithSigner UserClaims_printed UserClaims_reread
proof
  show "decodeUserClaims L t = bindE (decodeEnvelope L t) (\<lambda>env. guardJson L (readUser L (payload env)))"
    for L t by (simp add: decodeUserClaims_def)
  show "natsOf p = Inr (JObject n) \<Longrightarrow> tame (readUser L p)" for p n L
    by (rule tame_readUser)
next
  fix L now c k sign token c'
  assume enc: "UserClaims_encodeWithSigner L now c k sign = (Inr token, c')"
  note e = UserClaims_encode_Inr [OF enc]
  show "readUser L (json_norm (UserClaims_printed L c')) = Inr (UserClaims_reread c')"
    by (rule readUser_roundtrip [OF e(3)])
  assume "lib_ok L" "json_faithful L header_json" "json_faithful L (UserClaims_printed L c')"
    "length token \<le> MAX_JWT_SIZE"
  then show "decodeEnvelope L token =
      Inr \<lparr>payload = json_norm (UserClaims_printed L c'), version = 2, algorithm = JWT_ALGORITHM\<rparr>"
    using finishEncode_opens [OF _ _ e(5), of "''user''"] UserClaims_nats_fields(1,2) [of c']
    by (simp add: UserClaims_printed_def del: json_norm.simps)
qed

section \<open>What is accepted and what is required\<close>

lemma UserClaims_checkStructure_Inr:
  "UserClaims_checkStructure L c = Inr () \<longleftrightarrow>
     subject c \<noteq> [] \<and> issuer c \<noteq> [] \<and> IsValidPublicUserKey L (subject c) \<and> IsValidPublicAccountKey L (issuer c)"
  by (auto simp: UserClaims_checkStructure_def bindE_Inr_iff checkSubjectKind_Inr_iff
      checkIssuerKind_Inr_iff kind_check_def)

lemma readUser_Inr:
  assumes "readUser L p = Inr c"
  shows "UserClaims_checkStructure L c = Inr ()" and "at_string p ''iss'' = Inr (issuer c)"
    and "at_string p ''sub'' = Inr (subject c)"
  using assms unfolding readUser_def
  by (auto simp: bindE_Inr_iff Let_def setIssuerAccount_def split: option.splits)

lemma decodeUserClaims_sound:
  assumes "decodeUserClaims L t = Inr c"
  shows "names_signer L t (issuer c) (subject c)" and "IsValidPublicAccountKey L (issuer c)"
    and "IsValidPublicUserKey L (subject c)"
proof -
  obtain env where env: "decodeEnvelope L t = Inr env" "readUser L (payload env) = Inr c"
    by (rule user_class.decoded_authentic [OF assms])
  note r = readUser_Inr [OF env(2)]
  show "names_signer L t (issuer c) (subject c)"
    by (rule envelope_names_signer [OF env(1) r(2,3)])
  show "IsValidPublicAccountKey L (issuer c)" "IsValidPublicUserKey L (subject c)"
    using r(1) by (simp_all add: UserClaims_checkStructure_Inr)
qed

lemma appending_validateCidr: "appending (validateCidr L cidr)"
  unfolding validateCidr_def Let_def by (intro appending_intros)

lemma appending_validateTimeOfDay: "appending (validateTimeOfDay t which)"
  unfolding validateTimeOfDay_def Let_def by (intro appending_intros)

lemma appending_validateLimits: "appending (validateLimits L l)"
  unfolding validateLimits_def
  by (intro appending_intros appending_validateCidr
      appending_comp [OF appending_validateTimeOfDay appending_validateTimeOfDay])

lemma appending_UserClaims_report: "appending (UserClaims_report L now c)"
proof -
  have "appending (\<lambda>vr. validateLimits L (u_limits c)
      (validatePermissions (u_permissions c) (addTimeChecks now vr (expires c) (notBefore c))))"
    using appending_comp [OF appending_validateLimits
        appending_comp [OF appending_validatePermissions appending_addTimeChecks]] .
  then show ?thesis
    unfolding UserClaims_report_def Let_def by (intro appending_intros)
qed

interpretation user_report: reporter "UserClaims_report L now c"
  by (rule reporterI [OF appending_UserClaims_report])

section \<open>Properties\<close>

text \<open>
  C10: What a user encoder produced, the decoder returns: the same subject, issuer, times,
  audience, tags, permissions, limits, flags and issuer account, with the raw \<open>nats\<close> object that was
  printed; only an empty name or issuer account and times that are not positive are lost. The
  libraries are trusted to parse back the two values that were printed.
\<close>

theorem user_encode_decode:
  assumes "UserClaims_encodeWithSigner L now c k sign = (Inr token, c')"
    and "lib_ok L" and "json_faithful L header_json" and "json_faithful L (UserClaims_printed L c')"
    and "length token \<le> MAX_JWT_SIZE"
  shows "decodeUserClaims L token = Inr (UserClaims_reread c') \<and> c' = c\<lparr>issuer := k, issuedAt := now\<rparr>"
  using user_class.decode_encoded [OF assms] UserClaims_encode_Inr(1) [OF assms(1)] by blast

definition demo_user :: user_claims where
  "demo_user = UserClaims_new ''U1''"

definition demo_user_stamped :: user_claims where
  "demo_user_stamped = demo_user\<lparr>issuer := ''A1'', issuedAt := 5\<rparr>"

lemma demo_user_encodes:
  "UserClaims_encodeWithSigner (demo_lib j) 5 demo_user ''A1'' (signerFor (demo_pair ''A1'')) =
     (Inr (demo_token ''A1''), demo_user\<lparr>issuer := ''A1'', issuedAt := 5\<rparr>)"
proof -
  have "checkIssuerKind (demo_lib j) ''A1'' ''A'' ''User'' = Inr ()"
    by (simp add: checkIssuerKind_Inr_iff kind_check_def demo_lib_def starts_with_def)
  moreover have "UserClaims_checkStructure (demo_lib j) (demo_user\<lparr>issuer := ''A1'', issuedAt := 5\<rparr>) = Inr ()"
    by (simp add: UserClaims_checkStructure_Inr demo_user_def UserClaims_new_def demo_lib_def starts_with_def)
  moreover have "UserClaims_report (demo_lib j) 5 (demo_user\<lparr>issuer := ''A1'', issuedAt := 5\<rparr>) [] = []"
    by (simp add: UserClaims_report_def demo_user_def UserClaims_new_def addTimeChecks_def
        validatePermissions_def no_permissions_def no_permission_def validateLimits_def
        default_limits_def error_if_def)
  ultimately show ?thesis
    by (simp add: UserClaims_encodeWithSigner_def Let_def UserClaims_validate_def demo_finish)
qed

lemma user_encode_decode_witness:
  "decodeUserClaims (demo_lib (demo_wire demo_user_stamped (UserClaims_nats demo_user_stamped))) (demo_token ''A1'') =
    Inr (UserClaims_reread demo_user_stamped)"
proof -
  have "json_faithful (demo_lib (demo_wire demo_user_stamped (UserClaims_nats demo_user_stamped)))
      (UserClaims_printed (demo_lib (demo_wire demo_user_stamped (UserClaims_nats demo_user_stamped))) demo_user_stamped)"
    unfolding UserClaims_printed_def demo_wirePayload by (rule demo_faithful)
  then show ?thesis
    using user_encode_decode [OF demo_user_encodes demo_lib_ok demo_header _ demo_token_length]
    unfolding demo_user_stamped_def by blast
qed

text \<open>
  Scoping. \<open>setScoped(true)\<close> leaves a user without permissions and limits of its own, and such a
  user is still without them after encoding and decoding; \<open>setScoped(false)\<close> restores the limits of
  a new user and keeps permissions and flags. A new user is not scoped: its limits are -1.
\<close>

lemma scoped_user:
  "hasEmptyPermissions (setScoped True c) \<and>
   hasEmptyPermissions (UserClaims_reread c) = hasEmptyPermissions c \<and>
   setScoped False c = c\<lparr>u_limits := u_limits (UserClaims_new k)\<rparr> \<and>
   \<not> hasEmptyPermissions (UserClaims_new k)"
  by (simp add: hasEmptyPermissions_def setScoped_def Let_def no_permissions_def no_permission_def
      permission_empty_def UserClaims_reread_def reread_base_def UserClaims_new_def default_limits_def)

end
