(* ===== verification/OperatorClaims.thy ===== *)
theory OperatorClaims
  imports ClaimsBase
begin

text \<open>
  Operator claims (\<^verbatim>\<open>src/operator_claims.cpp\<close>): the object, the checks on URLs, keys and version,
  encoding and decoding. The class implements the interface \<open>claims_class\<close>; the lemmas also say in
  closed form which service URLs and version texts pass.
\<close>

section \<open>The object\<close>

record operator_claims = base +
  o_signingKeys :: "string list"
  accountServerURL :: string
  operatorServiceURLs :: "string list"
  systemAccount :: string
  assertServerVersion :: string
  strictSigningKeyUsage :: bool

definition OperatorClaims_new :: "string \<Rightarrow> operator_claims" where
  "OperatorClaims_new operatorPublicKey =
     \<lparr>natsRaw = [], subject = operatorPublicKey, issuer = operatorPublicKey, name = None,
      issuedAt = 0, expires = 0, audience = [], notBefore = 0, tags = [], o_signingKeys = [],
      accountServerURL = [], operatorServiceURLs = [], systemAccount = [], assertServerVersion = [],
      strictSigningKeyUsage = False\<rparr>"

definition OperatorClaims_addSigningKey :: "string \<Rightarrow> operator_claims \<Rightarrow> operator_claims" where
  "OperatorClaims_addSigningKey k c = c\<lparr>o_signingKeys := o_signingKeys c @ [k]\<rparr>"

definition setAccountServerURL :: "string \<Rightarrow> operator_claims \<Rightarrow> operator_claims" where
  "setAccountServerURL url c = c\<lparr>accountServerURL := url\<rparr>"

definition setSystemAccount :: "string \<Rightarrow> operator_claims \<Rightarrow> operator_claims" where
  "setSystemAccount accountPublicKey c = c\<lparr>systemAccount := accountPublicKey\<rparr>"

definition setAssertServerVersion :: "string \<Rightarrow> operator_claims \<Rightarrow> operator_claims" where
  "setAssertServerVersion ver c = c\<lparr>assertServerVersion := ver\<rparr>"

definition setStrictSigningKeyUsage :: "bool \<Rightarrow> operator_claims \<Rightarrow> operator_claims" where
  "setStrictSigningKeyUsage strict c = c\<lparr>strictSigningKeyUsage := strict\<rparr>"

section \<open>Checks\<close>

record MiniURL =
  scheme :: string
  authority :: string
  path :: string
  hasUserInfo :: bool
  valid :: bool

definition splitURL :: "string \<Rightarrow> MiniURL" where
  "splitURL url =
     (case find_str ''://'' url of
        None \<Rightarrow> \<lparr>scheme = [], authority = [], path = [], hasUserInfo = False, valid = False\<rparr>
      | Some sep \<Rightarrow>
          if sep = 0
          then \<lparr>scheme = [], authority = [], path = [], hasUserInfo = False, valid = False\<rparr>
          else
            let rest = drop (sep + 3) url;
                slash = find_char CHR ''/'' rest;
                auth = (case slash of None \<Rightarrow> rest | Some i \<Rightarrow> take i rest)
            in \<lparr>scheme = lower (take sep url), authority = auth,
                path = (case slash of None \<Rightarrow> [] | Some i \<Rightarrow> drop i rest),
                hasUserInfo = (find_char CHR ''@'' auth \<noteq> None), valid = (auth \<noteq> [])\<rparr>)"

definition validateServiceURL :: "string \<Rightarrow> results \<Rightarrow> results" where
  "validateServiceURL u vr =
     (if u = [] then vr
      else
        let parsed = splitURL u
        in if \<not> valid parsed then addError vr (''error parsing operator service url '' @ quoted u)
           else
             let vr1 = error_if (hasUserInfo parsed)
                         (''operator service url '' @ quoted u @ '' - credentials are not supported'') vr;
                 vr2 = error_if (path parsed \<noteq> [])
                         (''operator service url '' @ quoted u @ '' - paths are not supported'') vr1
             in error_if (scheme parsed \<noteq> ''nats'' \<and> scheme parsed \<noteq> ''tls'' \<and>
                          scheme parsed \<noteq> ''ws'' \<and> scheme parsed \<noteq> ''wss'')
                  (''operator service url '' @ quoted u @ '' - protocol not supported (only '' @
                   squoted ''nats'' @ '', '' @ squoted ''tls'' @ '', '' @ squoted ''ws'' @ '', '' @
                   squoted ''wss'' @ '' only)'') vr2)"

text \<open>The loop over the characters of the version: parts between dots, each checked when it ends.\<close>

fun version_loop :: "string \<Rightarrow> nat \<Rightarrow> bool \<Rightarrow> string \<Rightarrow> bool" where
  "version_loop [] dots ok part \<longleftrightarrow> ok \<and> isDigits part \<and> dots = 2"
| "version_loop (c # s) dots ok part =
     (if c = CHR ''.'' then version_loop s (Suc dots) (ok \<and> isDigits part) []
      else version_loop s dots ok (part @ [c]))"

definition validateOperatorWiring :: "lib \<Rightarrow> operator_claims \<Rightarrow> results \<Rightarrow> results" where
  "validateOperatorWiring L c vr =
     (let vr1 = error_if (accountServerURL c \<noteq> [] \<and> \<not> valid (splitURL (accountServerURL c)))
                  (''account server url '' @ quoted (accountServerURL c) @ '' requires a protocol'') vr;
          vr2 = fold validateServiceURL (operatorServiceURLs c) vr1;
          vr3 = fold (\<lambda>k. error_if (\<not> IsValidPublicOperatorKey L k) (k @ '' is not an operator public key''))
                  (o_signingKeys c) vr2;
          vr4 = error_if (systemAccount c \<noteq> [] \<and> \<not> IsValidPublicAccountKey L (systemAccount c))
                  (systemAccount c @ '' is not an account public key'') vr3
      in error_if (assertServerVersion c \<noteq> [] \<and> \<not> version_loop (assertServerVersion c) 0 True [])
           ''asserted server version must be of the form <major>.<minor>.<update>'' vr4)"

definition OperatorClaims_report :: "lib \<Rightarrow> int64 \<Rightarrow> operator_claims \<Rightarrow> results \<Rightarrow> results" where
  "OperatorClaims_report L now c vr =
     validateOperatorWiring L c (addTimeChecks now vr (expires c) (notBefore c))"

definition OperatorClaims_checkStructure :: "lib \<Rightarrow> operator_claims \<Rightarrow> exn + unit" where
  "OperatorClaims_checkStructure L c =
     bindE (throw_if (subject c = []) (InvalidClaimsError ''Operator subject cannot be empty'')) (\<lambda>_.
     bindE (throw_if (issuer c = []) (InvalidClaimsError ''Operator issuer cannot be empty'')) (\<lambda>_.
     bindE (checkSubjectKind L (subject c) CHR ''O'' ''Operator'') (\<lambda>_.
       checkIssuerKind L (issuer c) ''O'' ''Operator'')))"

definition OperatorClaims_validate :: "lib \<Rightarrow> int64 \<Rightarrow> operator_claims \<Rightarrow> exn + unit" where
  "OperatorClaims_validate L now c =
     bindE (OperatorClaims_checkStructure L c) (\<lambda>_. throwFirstBlocking (OperatorClaims_report L now c []))"

section \<open>Encoding\<close>

definition OperatorClaims_nats :: "operator_claims \<Rightarrow> json smap" where
  "OperatorClaims_nats c =
     (let n0 = setOrErase (o_signingKeys c \<noteq> []) ''signing_keys'' (json_strings (o_signingKeys c)) (natsRaw c);
          n1 = setOrErase (accountServerURL c \<noteq> []) ''account_server_url'' (JString (accountServerURL c)) n0;
          n2 = setOrErase (operatorServiceURLs c \<noteq> []) ''operator_service_urls''
                 (json_strings (operatorServiceURLs c)) n1;
          n3 = setOrErase (systemAccount c \<noteq> []) ''system_account'' (JString (systemAccount c)) n2;
          n4 = setOrErase (assertServerVersion c \<noteq> []) ''assert_server_version''
                 (JString (assertServerVersion c)) n3;
          n5 = setOrErase (strictSigningKeyUsage c) ''strict_signing_key_usage'' (JBool True) n4
      in finishNats ''operator'' (tags c) n5)"

definition OperatorClaims_encodeWithSigner ::
  "lib \<Rightarrow> int64 \<Rightarrow> operator_claims \<Rightarrow> string \<Rightarrow> signer \<Rightarrow> (exn + string) \<times> operator_claims" where
  "OperatorClaims_encodeWithSigner L now c issuerPublicKey sign =
     (case checkIssuerKind L issuerPublicKey ''O'' ''Operator'' of
        Inl e \<Rightarrow> (Inl e, c)
      | Inr _ \<Rightarrow>
          (let c' = c\<lparr>issuer := issuerPublicKey, issuedAt := now\<rparr>
           in (bindE (OperatorClaims_validate L now c') (\<lambda>_.
                 finishEncode L issuerPublicKey sign (basePayload c') (OperatorClaims_nats c')), c')))"

definition OperatorClaims_encode ::
  "lib \<Rightarrow> int64 \<Rightarrow> operator_claims \<Rightarrow> string \<Rightarrow> (exn + string) \<times> operator_claims" where
  "OperatorClaims_encode L now c seed =
     (case FromSeed L seed of
        Inl e \<Rightarrow> (Inl e, c)
      | Inr keypair \<Rightarrow> OperatorClaims_encodeWithSigner L now c (publicString keypair) (signerFor keypair))"

section \<open>Decoding\<close>

definition readOperator :: "lib \<Rightarrow> json \<Rightarrow> exn + operator_claims" where
  "readOperator L p =
     bindE (natsOf p) (\<lambda>nats.
     bindE (checkType nats ''operator'') (\<lambda>_.
     bindE (at_string p ''sub'') (\<lambda>sbj.
     bindE (at_string p ''iss'') (\<lambda>iss.
     bindE (intField p ''iat'' 0) (\<lambda>iat.
     bindE (readName p) (\<lambda>nm.
     bindE (intField p ''exp'' 0) (\<lambda>ex.
     bindE (value_string p ''aud'' []) (\<lambda>au.
     bindE (intField p ''nbf'' 0) (\<lambda>nb.
     bindE (stringsField nats ''tags'') (\<lambda>tg.
     bindE (value_string nats ''account_server_url'' []) (\<lambda>asu.
     bindE (stringsField nats ''operator_service_urls'') (\<lambda>osu.
     bindE (value_string nats ''system_account'' []) (\<lambda>sa.
     bindE (value_string nats ''assert_server_version'' []) (\<lambda>av.
     bindE (value_bool nats ''strict_signing_key_usage'' False) (\<lambda>st.
     bindE (stringsField nats ''signing_keys'') (\<lambda>sk.
     let c = \<lparr>natsRaw = fields_of nats, subject = sbj, issuer = iss, name = nm, issuedAt = iat,
              expires = ex, audience = au, notBefore = nb, tags = tg, o_signingKeys = sk,
              accountServerURL = asu, operatorServiceURLs = osu, systemAccount = sa,
              assertServerVersion = av, strictSigningKeyUsage = st\<rparr>
     in bindE (OperatorClaims_checkStructure L c) (\<lambda>_. Inr c)))))))))))))))))"

definition decodeOperatorClaims :: "lib \<Rightarrow> string \<Rightarrow> exn + operator_claims" where
  "decodeOperatorClaims L jwt =
     bindE (decodeEnvelope L jwt) (\<lambda>env. guardJson L (readOperator L (payload env)))"

section \<open>The class implements the interface\<close>

lemma OperatorClaims_nats_fields:
  defines "j \<equiv> \<lambda>c. JObject (OperatorClaims_nats c)"
  shows "jget (j c) ''type'' = Some (JString ''operator'')"
    and "jget (j c) ''version'' = Some (JInteger (word_of_int JWT_VERSION))"
    and "jget (j c) ''tags'' = (if tags c \<noteq> [] then Some (json_strings (tags c)) else None)"
    and "jget (j c) ''account_server_url'' =
           (if accountServerURL c \<noteq> [] then Some (JString (accountServerURL c)) else None)"
    and "jget (j c) ''operator_service_urls'' =
           (if operatorServiceURLs c \<noteq> [] then Some (json_strings (operatorServiceURLs c)) else None)"
    and "jget (j c) ''system_account'' =
           (if systemAccount c \<noteq> [] then Some (JString (systemAccount c)) else None)"
    and "jget (j c) ''assert_server_version'' =
           (if assertServerVersion c \<noteq> [] then Some (JString (assertServerVersion c)) else None)"
    and "jget (j c) ''strict_signing_key_usage'' =
           (if strictSigningKeyUsage c then Some (JBool True) else None)"
    and "jget (j c) ''signing_keys'' =
           (if o_signingKeys c \<noteq> [] then Some (json_strings (o_signingKeys c)) else None)"
  by (simp_all add: j_def OperatorClaims_nats_def Let_def nats_get)

definition OperatorClaims_printed :: "lib \<Rightarrow> operator_claims \<Rightarrow> json" where
  "OperatorClaims_printed L c = JObject (wirePayload L c (OperatorClaims_nats c))"

definition OperatorClaims_reread :: "operator_claims \<Rightarrow> operator_claims" where
  "OperatorClaims_reread c = reread_base (smap_map json_norm (OperatorClaims_nats c)) c"

lemma readOperator_roundtrip:
  assumes "OperatorClaims_checkStructure L c = Inr ()"
  shows "readOperator L (json_norm (OperatorClaims_printed L c)) = Inr (OperatorClaims_reread c)"
proof -
  let ?n = "JObject (OperatorClaims_nats c)"
  note b = reread_base_reads [of L c "OperatorClaims_nats c"]
  note f = OperatorClaims_nats_fields [where c = c]
  have obj: "is_object ?n" by simp
  note reads = checkType_roundtrip [OF f(1)] written_strings [OF f(3)] written_string [OF obj f(4)]
    written_strings [OF f(5)] written_string [OF obj f(6)] written_string [OF obj f(7)]
    written_bool [OF obj f(8)] written_strings [OF f(9)]
  have bools: "(if strictSigningKeyUsage c then True else False) = strictSigningKeyUsage c" by simp
  have c: "\<lparr>natsRaw = fields_of (json_norm ?n), subject = subject c, issuer = issuer c,
      name = reread_name (name c), issuedAt = issuedAt c, expires = reread_time (expires c),
      audience = audience c, notBefore = reread_time (notBefore c), tags = tags c,
      o_signingKeys = o_signingKeys c, accountServerURL = accountServerURL c,
      operatorServiceURLs = operatorServiceURLs c, systemAccount = systemAccount c,
      assertServerVersion = assertServerVersion c, strictSigningKeyUsage = strictSigningKeyUsage c\<rparr> =
      OperatorClaims_reread c"
    by (simp add: OperatorClaims_reread_def reread_base_def)
  have struct: "OperatorClaims_checkStructure L (OperatorClaims_reread c) = Inr ()"
    using assms
    by (simp add: OperatorClaims_checkStructure_def OperatorClaims_reread_def reread_base_def)
  show ?thesis
    unfolding readOperator_def OperatorClaims_printed_def b bindE.simps reads bools if_not_Nil Let_def c struct
    by (rule refl)
qed

lemma OperatorClaims_encode_Inr:
  assumes "OperatorClaims_encodeWithSigner L now c k sign = (Inr token, c')"
  shows "c' = c\<lparr>issuer := k, issuedAt := now\<rparr>" and "kind_check L CHR ''O'' k"
    and "OperatorClaims_checkStructure L c' = Inr ()"
    and "\<not> isBlocking (OperatorClaims_report L now c' []) False"
    and "finishEncode L (issuer c') sign (basePayload c') (OperatorClaims_nats c') = Inr token"
  using assms
  by (auto simp: OperatorClaims_encodeWithSigner_def Let_def OperatorClaims_validate_def bindE_Inr_iff
      checkIssuerKind_Inr_iff throwFirstBlocking_Inr_iff split: sum.splits)

lemma tame_readOperator: "natsOf p = Inr (JObject n) \<Longrightarrow> tame (readOperator L p)"
proof -
  assume n: "natsOf p = Inr (JObject n)"
  have st: "tame (OperatorClaims_checkStructure L c)" for c
    unfolding OperatorClaims_checkStructure_def by (intro tame_intros) simp_all
  show ?thesis
    unfolding readOperator_def n bindE.simps Let_def by (intro tame_intros st)
qed

interpretation operator_class:
  claims_class readOperator decodeOperatorClaims OperatorClaims_encodeWithSigner OperatorClaims_printed
    OperatorClaims_reread
proof
  show "decodeOperatorClaims L t = bindE (decodeEnvelope L t) (\<lambda>env. guardJson L (readOperator L (payload env)))"
    for L t by (simp add: decodeOperatorClaims_def)
  show "natsOf p = Inr (JObject n) \<Longrightarrow> tame (readOperator L p)" for p n L
    by (rule tame_readOperator)
next
  fix L now c k sign token c'
  assume enc: "OperatorClaims_encodeWithSigner L now c k sign = (Inr token, c')"
  note e = OperatorClaims_encode_Inr [OF enc]
  show "readOperator L (json_norm (OperatorClaims_printed L c')) = Inr (OperatorClaims_reread c')"
    by (rule readOperator_roundtrip [OF e(3)])
  assume "lib_ok L" "json_faithful L header_json" "json_faithful L (OperatorClaims_printed L c')"
    "length token \<le> MAX_JWT_SIZE"
  then show "decodeEnvelope L token =
      Inr \<lparr>payload = json_norm (OperatorClaims_printed L c'), version = 2, algorithm = JWT_ALGORITHM\<rparr>"
    using finishEncode_opens [OF _ _ e(5), of "''operator''"] OperatorClaims_nats_fields(1,2) [of c']
    by (simp add: OperatorClaims_printed_def del: json_norm.simps)
qed

section \<open>What is accepted and what is required\<close>

lemma OperatorClaims_checkStructure_Inr:
  "OperatorClaims_checkStructure L c = Inr () \<longleftrightarrow>
     subject c \<noteq> [] \<and> issuer c \<noteq> [] \<and> IsValidPublicOperatorKey L (subject c) \<and>
     IsValidPublicOperatorKey L (issuer c)"
  by (auto simp: OperatorClaims_checkStructure_def bindE_Inr_iff checkSubjectKind_Inr_iff
      checkIssuerKind_Inr_iff kind_check_def)

lemma readOperator_Inr:
  assumes "readOperator L p = Inr c"
  shows "OperatorClaims_checkStructure L c = Inr ()" and "at_string p ''iss'' = Inr (issuer c)"
    and "at_string p ''sub'' = Inr (subject c)"
  using assms unfolding readOperator_def by (auto simp: bindE_Inr_iff Let_def)

lemma decodeOperatorClaims_sound:
  assumes "decodeOperatorClaims L t = Inr c"
  shows "names_signer L t (issuer c) (subject c)" and "IsValidPublicOperatorKey L (issuer c)"
    and "IsValidPublicOperatorKey L (subject c)"
proof -
  obtain env where env: "decodeEnvelope L t = Inr env" "readOperator L (payload env) = Inr c"
    by (rule operator_class.decoded_authentic [OF assms])
  note r = readOperator_Inr [OF env(2)]
  show "names_signer L t (issuer c) (subject c)"
    by (rule envelope_names_signer [OF env(1) r(2,3)])
  show "IsValidPublicOperatorKey L (issuer c)" "IsValidPublicOperatorKey L (subject c)"
    using r(1) by (simp_all add: OperatorClaims_checkStructure_Inr)
qed

lemma appending_validateServiceURL: "appending (validateServiceURL u)"
  unfolding validateServiceURL_def Let_def
  by (cases "u = []"; cases "valid (splitURL u)") (simp_all add: appending_intros)

lemma appending_error_if_fun: "appending (error_if b d)"
  unfolding error_if_def by (cases b) (simp_all add: appending_intros)

lemma appending_validateOperatorWiring: "appending (validateOperatorWiring L c)"
  unfolding validateOperatorWiring_def Let_def
  by (intro appending_intros appending_validateServiceURL appending_error_if_fun)

lemma appending_OperatorClaims_report: "appending (OperatorClaims_report L now c)"
  unfolding OperatorClaims_report_def
  by (rule appending_comp [OF appending_validateOperatorWiring appending_addTimeChecks])

interpretation operator_report: reporter "OperatorClaims_report L now c"
  by (rule reporterI [OF appending_OperatorClaims_report])

text \<open>Version texts: three parts, each of digits.\<close>

lemma version_loop_eq:
  "CHR ''.'' \<notin> set part \<Longrightarrow>
     version_loop s dots ok part \<longleftrightarrow>
       ok \<and> (\<forall>x \<in> set (splitOn (part @ s) CHR ''.''). isDigits x) \<and>
       dots + length (splitOn (part @ s) CHR ''.'') = 3"
proof (induction s dots ok part rule: version_loop.induct)
  case (1 dots ok part)
  then show ?case by (auto simp: splitOn_single)
next
  case (2 c s dots ok part)
  show ?case
  proof (cases "c = CHR ''.''")
    case True
    then show ?thesis using 2 by (auto simp: splitOn_append)
  next
    case False
    then show ?thesis using 2(2) [OF False] 2(3) by simp
  qed
qed

lemma version_text:
  "version_loop s 0 True [] \<longleftrightarrow>
     length (splitOn s CHR ''.'') = 3 \<and> (\<forall>x \<in> set (splitOn s CHR ''.''). isDigits x)"
  by (auto simp: version_loop_eq)

text \<open>Service URLs: one of four schemes, and an authority without credentials and path.\<close>

definition service_schemes :: "string set" where
  "service_schemes = {''nats'', ''tls'', ''ws'', ''wss''}"

lemma lower_scheme_no_colon:
  assumes "lower s \<in> service_schemes"
  shows "CHR '':'' \<notin> set s"
proof
  assume "CHR '':'' \<in> set s"
  then have "to_lower CHR '':'' \<in> set (lower s)" by (simp add: lower_def)
  then have "CHR '':'' \<in> set (lower s)" by (simp add: to_lower_def Let_def)
  with assms show False by (auto simp: service_schemes_def)
qed

lemma validateServiceURL_passes:
  "validateServiceURL u [] = [] \<longleftrightarrow>
     u = [] \<or>
     (\<exists>sch auth. u = sch @ ''://'' @ auth \<and> lower sch \<in> service_schemes \<and> auth \<noteq> [] \<and>
        CHR ''/'' \<notin> set auth \<and> CHR ''@'' \<notin> set auth)"
    (is "_ \<longleftrightarrow> _ \<or> ?good")
proof -
  have pass: "validateServiceURL u [] = [] \<longleftrightarrow> u = [] \<or> (valid (splitURL u) \<and> \<not> hasUserInfo (splitURL u) \<and>
      path (splitURL u) = [] \<and> scheme (splitURL u) \<in> service_schemes)"
    by (auto simp: validateServiceURL_def Let_def error_if_def addError_def add_def service_schemes_def)
  have "valid (splitURL u) \<and> \<not> hasUserInfo (splitURL u) \<and> path (splitURL u) = [] \<and>
      scheme (splitURL u) \<in> service_schemes \<longleftrightarrow> ?good" (is "?l \<longleftrightarrow> _")
  proof
    assume l: ?l
    then obtain sep where sep: "find_str ''://'' u = Some sep" "sep \<noteq> 0"
      by (auto simp: splitURL_def split: option.splits if_splits)
    let ?rest = "drop (sep + 3) u"
    have u: "u = take sep u @ ''://'' @ ?rest"
      using find_str_SomeD [OF sep(1)] by (simp add: eval_nat_numeral)
    have noslash: "find_char CHR ''/'' ?rest = None"
    proof (cases "find_char CHR ''/'' ?rest")
      case (Some i)
      then have "drop i ?rest \<noteq> []" using find_char_SomeD(3) by fastforce
      with l sep Some show ?thesis by (simp add: splitURL_def Let_def)
    qed
    have "lower (take sep u) \<in> service_schemes" "?rest \<noteq> []" "find_char CHR ''@'' ?rest = None"
      using l sep noslash by (simp_all add: splitURL_def Let_def)
    with u noslash show ?good unfolding find_char_None_iff by blast
  next
    assume ?good
    then obtain sch auth where u: "u = sch @ ''://'' @ auth" and s: "lower sch \<in> service_schemes"
      and a: "auth \<noteq> []" "CHR ''/'' \<notin> set auth" "CHR ''@'' \<notin> set auth" by blast
    have "find_str ''://'' u = Some (length sch)"
      using find_str_append [OF lower_scheme_no_colon [OF s], of "''//''" auth] by (simp add: u)
    moreover have "sch \<noteq> []" using s by (auto simp: lower_def service_schemes_def)
    moreover have "find_char CHR ''/'' auth = None" "find_char CHR ''@'' auth = None"
      using a by (simp_all add: find_char_None_iff)
    ultimately show ?l using s a by (simp add: splitURL_def Let_def u)
  qed
  with pass show ?thesis by blast
qed

section \<open>Properties\<close>

text \<open>
  C26: What an operator encoder produced, the decoder returns, up to an empty name, times that are not
  positive and the raw \<open>nats\<close> object, which is the printed one.
\<close>

theorem operator_encode_decode:
  assumes "OperatorClaims_encodeWithSigner L now c k sign = (Inr token, c')"
    and "lib_ok L" and "json_faithful L header_json" and "json_faithful L (OperatorClaims_printed L c')"
    and "length token \<le> MAX_JWT_SIZE"
  shows "decodeOperatorClaims L token = Inr (OperatorClaims_reread c') \<and>
    c' = c\<lparr>issuer := k, issuedAt := now\<rparr>"
  using operator_class.decode_encoded [OF assms] OperatorClaims_encode_Inr(1) [OF assms(1)] by blast

definition demo_operator :: operator_claims where
  "demo_operator = OperatorClaims_new ''O1''"

definition demo_operator_stamped :: operator_claims where
  "demo_operator_stamped = demo_operator\<lparr>issuer := ''O1'', issuedAt := 5\<rparr>"

lemma demo_operator_encodes:
  "OperatorClaims_encodeWithSigner (demo_lib j) 5 demo_operator ''O1'' (signerFor (demo_pair ''O1'')) =
     (Inr (demo_token ''O1''), demo_operator_stamped)"
proof -
  have "checkIssuerKind (demo_lib j) ''O1'' ''O'' ''Operator'' = Inr ()"
    by (simp add: checkIssuerKind_Inr_iff kind_check_def demo_lib_def starts_with_def)
  moreover have "OperatorClaims_checkStructure (demo_lib j) demo_operator_stamped = Inr ()"
    by (simp add: OperatorClaims_checkStructure_Inr demo_operator_stamped_def demo_operator_def
        OperatorClaims_new_def demo_lib_def starts_with_def)
  moreover have "OperatorClaims_report (demo_lib j) 5 demo_operator_stamped [] = []"
    by (simp add: OperatorClaims_report_def demo_operator_stamped_def demo_operator_def
        OperatorClaims_new_def addTimeChecks_def validateOperatorWiring_def error_if_def Let_def)
  ultimately show ?thesis
    by (simp add: OperatorClaims_encodeWithSigner_def OperatorClaims_validate_def demo_finish
        flip: demo_operator_stamped_def)
qed

lemma operator_encode_decode_witness:
  "decodeOperatorClaims (demo_lib (demo_wire demo_operator_stamped (OperatorClaims_nats demo_operator_stamped)))
     (demo_token ''O1'') = Inr (OperatorClaims_reread demo_operator_stamped)"
proof -
  let ?L = "demo_lib (demo_wire demo_operator_stamped (OperatorClaims_nats demo_operator_stamped))"
  have "json_faithful ?L (OperatorClaims_printed ?L demo_operator_stamped)"
    unfolding OperatorClaims_printed_def demo_wirePayload by (rule demo_faithful)
  then show ?thesis
    using operator_encode_decode [OF demo_operator_encodes demo_lib_ok demo_header _ demo_token_length]
    by blast
qed

text \<open>
  Which operator service URLs and server versions pass: a URL that is empty or one of the
  schemes nats, tls, ws, wss in any case, then an authority with neither credentials nor a path; a version
  of three dotted parts of digits.
\<close>

lemma operator_wiring_exact:
  "(validateServiceURL u [] = [] \<longleftrightarrow>
      u = [] \<or>
      (\<exists>sch auth. u = sch @ ''://'' @ auth \<and> lower sch \<in> service_schemes \<and> auth \<noteq> [] \<and>
         CHR ''/'' \<notin> set auth \<and> CHR ''@'' \<notin> set auth)) \<and>
   (version_loop v 0 True [] \<longleftrightarrow>
      length (splitOn v CHR ''.'') = 3 \<and> list_all isDigits (splitOn v CHR ''.''))"
  unfolding list_all_iff using validateServiceURL_passes version_text by blast

end
