(* ===== verification/ActivationClaims.thy ===== *)
theory ActivationClaims
  imports ClaimsBase
begin

text \<open>
  Activation claims (\<^verbatim>\<open>src/activation_claims.cpp\<close>): the object, its checks, \<open>hashID\<close>, encoding
  and decoding. The class implements the interface \<open>claims_class\<close>.
\<close>

section \<open>The object\<close>

record activation_claims = base +
  importSubject :: string
  importType :: ExportType
  a_issuerAccount :: "string option"

definition ActivationClaims_new :: "string \<Rightarrow> activation_claims" where
  "ActivationClaims_new granteeAccountPublicKey =
     \<lparr>natsRaw = [], subject = granteeAccountPublicKey, issuer = [], name = None, issuedAt = 0,
      expires = 0, audience = [], notBefore = 0, tags = [], importSubject = [], importType = Unknown,
      a_issuerAccount = None\<rparr>"

definition setImportSubject :: "string \<Rightarrow> activation_claims \<Rightarrow> activation_claims" where
  "setImportSubject s c = c\<lparr>importSubject := s\<rparr>"

definition setImportType :: "ExportType \<Rightarrow> activation_claims \<Rightarrow> activation_claims" where
  "setImportType t c = c\<lparr>importType := t\<rparr>"

definition ActivationClaims_setIssuerAccount :: "string \<Rightarrow> activation_claims \<Rightarrow> activation_claims" where
  "ActivationClaims_setIssuerAccount k c = c\<lparr>a_issuerAccount := Some k\<rparr>"

definition hashID :: "activation_claims \<Rightarrow> exn + string" where
  "hashID c =
     (if issuer c = [] \<or> subject c = [] \<or> importSubject c = []
      then Inl (InvalidClaimsError ''not enough data in the activaion claims to create a hash'')
      else let base = issuer c @ ''.'' @ subject c @ ''.'' @ cleanSubject (importSubject c)
           in Inr (base32StdPadded (sha256 (bytes_of base))))"

section \<open>Checks\<close>

definition ActivationClaims_report :: "lib \<Rightarrow> int64 \<Rightarrow> activation_claims \<Rightarrow> results \<Rightarrow> results" where
  "ActivationClaims_report L now c vr =
     (let vr1 = addTimeChecks now vr (expires c) (notBefore c);
          vr2 = error_if (importSubject c = []) ''subject cannot be empty'' vr1;
          vr3 = error_if (importType c \<noteq> Stream \<and> importType c \<noteq> Service)
                  (''invalid import type: '' @ quoted (exportTypeStr (importType c))) vr2
      in error_if (case a_issuerAccount c of None \<Rightarrow> False | Some a \<Rightarrow> \<not> IsValidPublicAccountKey L a)
           ''account_id is not an account public key'' vr3)"

definition ActivationClaims_checkStructure :: "lib \<Rightarrow> activation_claims \<Rightarrow> exn + unit" where
  "ActivationClaims_checkStructure L c =
     bindE (throw_if (subject c = []) (InvalidClaimsError ''Activation subject cannot be empty'')) (\<lambda>_.
     bindE (checkSubjectKind L (subject c) CHR ''A'' ''Activation'') (\<lambda>_.
       checkIssuerKind L (issuer c) ''AO'' ''Activation''))"

definition ActivationClaims_validate :: "lib \<Rightarrow> int64 \<Rightarrow> activation_claims \<Rightarrow> exn + unit" where
  "ActivationClaims_validate L now c =
     bindE (ActivationClaims_checkStructure L c)
       (\<lambda>_. throwFirstBlocking (ActivationClaims_report L now c []))"

section \<open>Encoding\<close>

definition ActivationClaims_nats :: "activation_claims \<Rightarrow> json smap" where
  "ActivationClaims_nats c =
     (let n0 = smap_put ''subject'' (JString (importSubject c)) (natsRaw c);
          n1 = smap_put ''kind'' (JString (exportTypeStr (importType c))) n0;
          n2 = putOrErase ''issuer_account'' JString (a_issuerAccount c) n1
      in finishNats ''activation'' (tags c) n2)"

definition ActivationClaims_encodeWithSigner ::
  "lib \<Rightarrow> int64 \<Rightarrow> activation_claims \<Rightarrow> string \<Rightarrow> signer \<Rightarrow> (exn + string) \<times> activation_claims" where
  "ActivationClaims_encodeWithSigner L now c issuerPublicKey sign =
     (case checkIssuerKind L issuerPublicKey ''AO'' ''Activation'' of
        Inl e \<Rightarrow> (Inl e, c)
      | Inr _ \<Rightarrow>
          (let c' = c\<lparr>issuer := issuerPublicKey, issuedAt := now\<rparr>
           in (bindE (ActivationClaims_validate L now c') (\<lambda>_.
                 finishEncode L issuerPublicKey sign (basePayload c') (ActivationClaims_nats c')), c')))"

definition ActivationClaims_encode ::
  "lib \<Rightarrow> int64 \<Rightarrow> activation_claims \<Rightarrow> string \<Rightarrow> (exn + string) \<times> activation_claims" where
  "ActivationClaims_encode L now c seed =
     (case FromSeed L seed of
        Inl e \<Rightarrow> (Inl e, c)
      | Inr keypair \<Rightarrow> ActivationClaims_encodeWithSigner L now c (publicString keypair) (signerFor keypair))"

section \<open>Decoding\<close>

definition readActivation :: "lib \<Rightarrow> json \<Rightarrow> exn + activation_claims" where
  "readActivation L p =
     bindE (natsOf p) (\<lambda>nats.
     bindE (throw_if (jget nats ''type'' \<noteq> Some (JString ''activation''))
              (InvalidClaimsError (''JWT type mismatch: expected '' @ squoted ''activation''))) (\<lambda>_.
     bindE (at_string p ''sub'') (\<lambda>sbj.
     bindE (at_string p ''iss'') (\<lambda>iss.
     bindE (intField p ''iat'' 0) (\<lambda>iat.
     bindE (readName p) (\<lambda>nm.
     bindE (intField p ''exp'' 0) (\<lambda>ex.
     bindE (value_string p ''aud'' []) (\<lambda>au.
     bindE (intField p ''nbf'' 0) (\<lambda>nb.
     bindE (stringsField nats ''tags'') (\<lambda>tg.
     bindE (value_string nats ''subject'' []) (\<lambda>isb.
     bindE (value_string nats ''kind'' []) (\<lambda>kd.
     bindE (exportTypeFrom kd) (\<lambda>ty.
     bindE (readOptString nats ''issuer_account'') (\<lambda>ia.
     let c = \<lparr>natsRaw = fields_of nats, subject = sbj, issuer = iss, name = nm, issuedAt = iat,
              expires = ex, audience = au, notBefore = nb, tags = tg, importSubject = isb,
              importType = ty, a_issuerAccount = ia\<rparr>
     in bindE (ActivationClaims_checkStructure L c) (\<lambda>_. Inr c)))))))))))))))"

definition decodeActivationClaims :: "lib \<Rightarrow> string \<Rightarrow> exn + activation_claims" where
  "decodeActivationClaims L jwt =
     bindE (decodeEnvelope L jwt) (\<lambda>env. guardJson L (readActivation L (payload env)))"

section \<open>The class implements the interface\<close>

lemma ActivationClaims_nats_fields:
  defines "j \<equiv> \<lambda>c. JObject (ActivationClaims_nats c)"
  shows "jget (j c) ''type'' = Some (JString ''activation'')"
    and "jget (j c) ''version'' = Some (JInteger (word_of_int JWT_VERSION))"
    and "jget (j c) ''tags'' = (if tags c \<noteq> [] then Some (json_strings (tags c)) else None)"
    and "jget (j c) ''subject'' = Some (JString (importSubject c))"
    and "jget (j c) ''kind'' = Some (JString (exportTypeStr (importType c)))"
    and "jget (j c) ''issuer_account'' = map_option JString (a_issuerAccount c)"
  by (simp_all add: j_def ActivationClaims_nats_def Let_def nats_get)

definition ActivationClaims_printed :: "lib \<Rightarrow> activation_claims \<Rightarrow> json" where
  "ActivationClaims_printed L c = JObject (wirePayload L c (ActivationClaims_nats c))"

definition ActivationClaims_reread :: "activation_claims \<Rightarrow> activation_claims" where
  "ActivationClaims_reread c = reread_base (smap_map json_norm (ActivationClaims_nats c)) c"

lemma exportType_roundtrip: "t \<noteq> Unknown \<Longrightarrow> exportTypeFrom (exportTypeStr t) = Inr t"
  by (cases t) (simp_all add: exportTypeFrom_def)

lemma readActivation_roundtrip:
  assumes "ActivationClaims_checkStructure L c = Inr ()" and "importType c \<noteq> Unknown"
  shows "readActivation L (json_norm (ActivationClaims_printed L c)) = Inr (ActivationClaims_reread c)"
proof -
  let ?n = "JObject (ActivationClaims_nats c)"
  note b = reread_base_reads [of L c "ActivationClaims_nats c"]
  note f = ActivationClaims_nats_fields [where c = c]
  have obj: "is_object ?n" by simp
  have ty: "throw_if (jget (json_norm ?n) ''type'' \<noteq> Some (JString ''activation'')) e = Inr ()" for e :: exn
    using f(1) by simp
  note reads = ty written_strings [OF f(3)] written_string_always [OF obj f(4)]
    written_string_always [OF obj f(5)] exportType_roundtrip [OF assms(2)] readOptString_roundtrip [OF f(6)]
  have c: "\<lparr>natsRaw = fields_of (json_norm ?n), subject = subject c, issuer = issuer c,
      name = reread_name (name c), issuedAt = issuedAt c, expires = reread_time (expires c),
      audience = audience c, notBefore = reread_time (notBefore c), tags = tags c,
      importSubject = importSubject c, importType = importType c, a_issuerAccount = a_issuerAccount c\<rparr> =
      ActivationClaims_reread c"
    by (simp add: ActivationClaims_reread_def reread_base_def)
  have struct: "ActivationClaims_checkStructure L (ActivationClaims_reread c) = Inr ()"
    using assms
    by (simp add: ActivationClaims_checkStructure_def ActivationClaims_reread_def reread_base_def)
  show ?thesis
    unfolding readActivation_def ActivationClaims_printed_def b bindE.simps reads if_not_Nil Let_def c struct
    by (rule refl)
qed

lemma ActivationClaims_encode_Inr:
  assumes "ActivationClaims_encodeWithSigner L now c k sign = (Inr token, c')"
  shows "c' = c\<lparr>issuer := k, issuedAt := now\<rparr>"
    and "kind_check L CHR ''A'' k \<or> kind_check L CHR ''O'' k"
    and "ActivationClaims_checkStructure L c' = Inr ()"
    and "\<not> isBlocking (ActivationClaims_report L now c' []) False"
    and "finishEncode L (issuer c') sign (basePayload c') (ActivationClaims_nats c') = Inr token"
  using assms
  by (auto simp: ActivationClaims_encodeWithSigner_def Let_def ActivationClaims_validate_def bindE_Inr_iff
      checkIssuerKind_Inr_iff throwFirstBlocking_Inr_iff split: sum.splits)

lemma ActivationClaims_report_errors:
  "isBlocking (ActivationClaims_report L now c []) False \<longleftrightarrow>
     importSubject c = [] \<or> importType c = Unknown \<or>
     (\<exists>a. a_issuerAccount c = Some a \<and> \<not> IsValidPublicAccountKey L a)"
  by (cases "importType c")
     (auto simp: isBlocking_False_errors ActivationClaims_report_def Let_def split: option.splits)

lemma tame_readActivation: "natsOf p = Inr (JObject n) \<Longrightarrow> tame (readActivation L p)"
proof -
  assume n: "natsOf p = Inr (JObject n)"
  have st: "tame (ActivationClaims_checkStructure L c)" for c
    unfolding ActivationClaims_checkStructure_def by (intro tame_intros) simp_all
  show ?thesis
    unfolding readActivation_def n bindE.simps Let_def by (intro tame_intros st) simp_all
qed

interpretation activation_class:
  claims_class readActivation decodeActivationClaims ActivationClaims_encodeWithSigner
    ActivationClaims_printed ActivationClaims_reread
proof
  show "decodeActivationClaims L t =
      bindE (decodeEnvelope L t) (\<lambda>env. guardJson L (readActivation L (payload env)))" for L t
    by (simp add: decodeActivationClaims_def)
  show "natsOf p = Inr (JObject n) \<Longrightarrow> tame (readActivation L p)" for p n L
    by (rule tame_readActivation)
next
  fix L now c k sign token c'
  assume enc: "ActivationClaims_encodeWithSigner L now c k sign = (Inr token, c')"
  note e = ActivationClaims_encode_Inr [OF enc]
  have "importType c' \<noteq> Unknown" using e(4) by (simp add: ActivationClaims_report_errors)
  then show "readActivation L (json_norm (ActivationClaims_printed L c')) = Inr (ActivationClaims_reread c')"
    by (rule readActivation_roundtrip [OF e(3)])
  assume "lib_ok L" "json_faithful L header_json" "json_faithful L (ActivationClaims_printed L c')"
    "length token \<le> MAX_JWT_SIZE"
  then show "decodeEnvelope L token =
      Inr \<lparr>payload = json_norm (ActivationClaims_printed L c'), version = 2, algorithm = JWT_ALGORITHM\<rparr>"
    using finishEncode_opens [OF _ _ e(5), of "''activation''"] ActivationClaims_nats_fields(1,2) [of c']
    by (simp add: ActivationClaims_printed_def del: json_norm.simps)
qed

section \<open>What is accepted and what is required\<close>

lemma ActivationClaims_checkStructure_Inr:
  "ActivationClaims_checkStructure L c = Inr () \<longleftrightarrow>
     subject c \<noteq> [] \<and> IsValidPublicAccountKey L (subject c) \<and>
     (IsValidPublicAccountKey L (issuer c) \<or> IsValidPublicOperatorKey L (issuer c))"
  by (auto simp: ActivationClaims_checkStructure_def bindE_Inr_iff checkSubjectKind_Inr_iff
      checkIssuerKind_Inr_iff kind_check_def)

lemma readActivation_Inr:
  assumes "readActivation L p = Inr c"
  shows "ActivationClaims_checkStructure L c = Inr ()" and "at_string p ''iss'' = Inr (issuer c)"
    and "at_string p ''sub'' = Inr (subject c)"
  using assms unfolding readActivation_def by (auto simp: bindE_Inr_iff Let_def)

lemma decodeActivationClaims_sound:
  assumes "decodeActivationClaims L t = Inr c"
  shows "names_signer L t (issuer c) (subject c)"
    and "IsValidPublicAccountKey L (issuer c) \<or> IsValidPublicOperatorKey L (issuer c)"
    and "IsValidPublicAccountKey L (subject c)"
proof -
  obtain env where env: "decodeEnvelope L t = Inr env" "readActivation L (payload env) = Inr c"
    by (rule activation_class.decoded_authentic [OF assms])
  note r = readActivation_Inr [OF env(2)]
  show "names_signer L t (issuer c) (subject c)"
    by (rule envelope_names_signer [OF env(1) r(2,3)])
  show "IsValidPublicAccountKey L (issuer c) \<or> IsValidPublicOperatorKey L (issuer c)"
    "IsValidPublicAccountKey L (subject c)"
    using r(1) by (simp_all add: ActivationClaims_checkStructure_Inr)
qed

lemma appending_ActivationClaims_report: "appending (ActivationClaims_report L now c)"
  unfolding ActivationClaims_report_def Let_def by (intro appending_intros appending_addTimeChecks)

interpretation activation_report: reporter "ActivationClaims_report L now c"
  by (rule reporterI [OF appending_ActivationClaims_report])

section \<open>Properties\<close>

text \<open>
  What an activation encoder produced, the decoder returns, up to an empty name, times that are
  not positive and the raw \<open>nats\<close> object; the import type survives because an unknown one does not
  pass the checks.
\<close>

lemma activation_encode_decode:
  assumes "ActivationClaims_encodeWithSigner L now c k sign = (Inr token, c')"
    and "lib_ok L" and "json_faithful L header_json" and "json_faithful L (ActivationClaims_printed L c')"
    and "length token \<le> MAX_JWT_SIZE"
  shows "decodeActivationClaims L token = Inr (ActivationClaims_reread c') \<and>
    importType c' \<noteq> Unknown \<and> c' = c\<lparr>issuer := k, issuedAt := now\<rparr>"
  using activation_class.decode_encoded [OF assms] ActivationClaims_encode_Inr(1,4) [OF assms(1)]
  unfolding ActivationClaims_report_errors by blast

definition demo_activation_stamped :: activation_claims where
  "demo_activation_stamped = (setImportType Stream (setImportSubject ''foo'' (ActivationClaims_new ''A2'')))
     \<lparr>issuer := ''A1'', issuedAt := 5\<rparr>"

lemma demo_activation_encodes:
  "ActivationClaims_encodeWithSigner (demo_lib j) 5
     (setImportType Stream (setImportSubject ''foo'' (ActivationClaims_new ''A2''))) ''A1''
     (signerFor (demo_pair ''A1'')) = (Inr (demo_token ''A1''), demo_activation_stamped)"
proof -
  have "checkIssuerKind (demo_lib j) ''A1'' ''AO'' ''Activation'' = Inr ()"
    by (simp add: checkIssuerKind_Inr_iff kind_check_def demo_lib_def starts_with_def)
  moreover have "ActivationClaims_checkStructure (demo_lib j) demo_activation_stamped = Inr ()"
    by (simp add: ActivationClaims_checkStructure_Inr demo_activation_stamped_def setImportType_def
        setImportSubject_def ActivationClaims_new_def demo_lib_def starts_with_def)
  moreover have "ActivationClaims_report (demo_lib j) 5 demo_activation_stamped [] = []"
    by (simp add: ActivationClaims_report_def demo_activation_stamped_def setImportType_def
        setImportSubject_def ActivationClaims_new_def addTimeChecks_def error_if_def Let_def)
  ultimately show ?thesis
    by (simp add: ActivationClaims_encodeWithSigner_def ActivationClaims_validate_def demo_finish
        flip: demo_activation_stamped_def)
qed

lemma activation_encode_decode_witness:
  "decodeActivationClaims
     (demo_lib (demo_wire demo_activation_stamped (ActivationClaims_nats demo_activation_stamped)))
     (demo_token ''A1'') = Inr (ActivationClaims_reread demo_activation_stamped)"
proof -
  let ?L = "demo_lib (demo_wire demo_activation_stamped (ActivationClaims_nats demo_activation_stamped))"
  have "json_faithful ?L (ActivationClaims_printed ?L demo_activation_stamped)"
    unfolding ActivationClaims_printed_def demo_wirePayload by (rule demo_faithful)
  then show ?thesis
    using activation_encode_decode [OF demo_activation_encodes demo_lib_ok demo_header _ demo_token_length]
    by blast
qed

text \<open>
  The hash of an activation exists exactly when issuer, grantee and import subject are there; it
  is 56 characters of padded base32, and it depends on the import subject only up to its first
  wildcard token: two activations between the same parties whose cleaned subjects agree have the same.
\<close>

lemma hashID_exact:
  assumes "importSubject c \<noteq> []" and "cleanSubject s = cleanSubject (importSubject c)" and "s \<noteq> []"
  shows "hashID (c\<lparr>importSubject := s\<rparr>) = hashID c \<and>
    (case hashID c of
       Inr h \<Rightarrow> issuer c \<noteq> [] \<and> subject c \<noteq> [] \<and> length h = 56 \<and>
         set h \<subseteq> insert CHR ''='' (set base32_alphabet)
     | Inl e \<Rightarrow> (issuer c = [] \<or> subject c = []) \<and> (\<exists>m. e = InvalidClaimsError m))"
proof -
  have "length (base32StdPadded (sha256 m)) = 56" for m
    by (simp add: base32StdPadded_def pad8_eq length_base32_loop length_sha256)
  moreover have "set (base32StdPadded b) \<subseteq> insert CHR ''='' (set base32_alphabet)" for b
    using base32_of_bits_alphabet by (auto simp: base32StdPadded_eq Let_def)
  ultimately show ?thesis using assms by (auto simp: hashID_def Let_def)
qed

lemma hashID_exact_witness:
  "hashID (setImportSubject ''foo.>'' (setImportSubject ''foo.*'' demo_activation_stamped)) =
     hashID (setImportSubject ''foo.*'' demo_activation_stamped)"
proof -
  let ?c = "setImportSubject ''foo.*'' demo_activation_stamped"
  have "importSubject ?c = ''foo.*''" by (simp add: setImportSubject_def)
  moreover have "cleanSubject ''foo.>'' = cleanSubject ''foo.*''" by code_simp
  ultimately have "hashID (?c\<lparr>importSubject := ''foo.>''\<rparr>) = hashID ?c"
    using hashID_exact [of ?c "''foo.>''"] by simp
  then show ?thesis by (simp only: setImportSubject_def [of "''foo.>''"])
qed

end
