(* ===== verification/AccountData.thy ===== *)
theory AccountData
  imports ClaimsBase
begin

text \<open>
  The data of an account (\<^verbatim>\<open>include/jwt/account_claims.hpp\<close>) and its JSON forms (the readers and writers
  at the head of \<^verbatim>\<open>src/account_claims.cpp\<close>): limits with their JetStream tiers, weighted mappings, exports,
  imports and the external authorization.

  Each writer and reader pair is a \<open>json_codec\<close>, or, where the reader refuses values the writer can write
  (a sampling rate out of range), has a round trip under that condition. A map is read entry by entry
  into a new map, so reading gives \<open>smap_of\<close> of it, which is the map itself when it is in key order,
  as every \<open>std::map\<close> is.
\<close>

section \<open>The data\<close>

record JetStreamLimits =
  memStorage :: int64
  diskStorage :: int64
  streams :: int64
  consumer :: int64
  maxAckPending :: int64
  memoryMaxStreamBytes :: int64
  diskMaxStreamBytes :: int64
  maxBytesRequired :: bool

definition no_jetStream :: JetStreamLimits where
  "no_jetStream =
     \<lparr>memStorage = 0, diskStorage = 0, streams = 0, consumer = 0, maxAckPending = 0,
      memoryMaxStreamBytes = 0, diskMaxStreamBytes = 0, maxBytesRequired = False\<rparr>"

record AccountLimits =
  l_subs :: int64
  l_data :: int64
  l_payload :: int64
  l_imports :: int64
  l_exports :: int64
  wildcardExports :: bool
  disallowBearer :: bool
  conn :: int64
  leafNodeConn :: int64
  jetStream :: JetStreamLimits
  tieredLimits :: "JetStreamLimits smap"

definition unlimited_account :: AccountLimits where
  "unlimited_account =
     \<lparr>l_subs = - 1, l_data = - 1, l_payload = - 1, l_imports = - 1, l_exports = - 1,
      wildcardExports = True, disallowBearer = False, conn = - 1, leafNodeConn = - 1,
      jetStream = no_jetStream, tieredLimits = []\<rparr>"

definition zero_account :: AccountLimits where
  "zero_account =
     \<lparr>l_subs = 0, l_data = 0, l_payload = 0, l_imports = 0, l_exports = 0,
      wildcardExports = False, disallowBearer = False, conn = 0, leafNodeConn = 0,
      jetStream = no_jetStream, tieredLimits = []\<rparr>"

record WeightedMapping =
  wm_subject :: string
  wm_weight :: byte
  wm_cluster :: string

record ServiceLatency =
  sampling :: int32
  latency_results :: string

record Export =
  e_name :: string
  e_subject :: string
  e_type :: ExportType
  tokenReq :: bool
  e_revocations :: "int64 smap"
  responseType :: string
  responseThresholdNanos :: int64
  latency :: "ServiceLatency option"
  accountTokenPosition :: uint32
  advertise :: bool
  e_allowTrace :: bool
  e_description :: string
  e_infoURL :: string

record Import =
  i_name :: string
  i_subject :: string
  i_account :: string
  i_token :: string
  i_to :: string
  localSubject :: string
  i_type :: ExportType
  share :: bool
  i_allowTrace :: bool

record ExternalAuthorization =
  authUsers :: "string list"
  allowedAccounts :: "string list"
  xkey :: string

definition no_authorization :: ExternalAuthorization where
  "no_authorization = \<lparr>authUsers = [], allowedAccounts = [], xkey = []\<rparr>"

definition isEnabled :: "ExternalAuthorization \<Rightarrow> bool" where
  "isEnabled a \<longleftrightarrow> authUsers a \<noteq> []"

section \<open>Limits\<close>

definition jetStreamLimitsInto :: "json smap \<Rightarrow> JetStreamLimits \<Rightarrow> json smap" where
  "jetStreamLimitsInto out j =
     (let m1 = setIf (memStorage j \<noteq> 0) ''mem_storage'' (JInteger (memStorage j)) out;
          m2 = setIf (diskStorage j \<noteq> 0) ''disk_storage'' (JInteger (diskStorage j)) m1;
          m3 = setIf (streams j \<noteq> 0) ''streams'' (JInteger (streams j)) m2;
          m4 = setIf (consumer j \<noteq> 0) ''consumer'' (JInteger (consumer j)) m3;
          m5 = setIf (maxAckPending j \<noteq> 0) ''max_ack_pending'' (JInteger (maxAckPending j)) m4;
          m6 = setIf (memoryMaxStreamBytes j \<noteq> 0) ''mem_max_stream_bytes''
                 (JInteger (memoryMaxStreamBytes j)) m5;
          m7 = setIf (diskMaxStreamBytes j \<noteq> 0) ''disk_max_stream_bytes''
                 (JInteger (diskMaxStreamBytes j)) m6
      in setIf (maxBytesRequired j) ''max_bytes_required'' (JBool True) m7)"

definition jetStreamLimitsFrom :: "json \<Rightarrow> exn + JetStreamLimits" where
  "jetStreamLimitsFrom j =
     bindE (intField j ''mem_storage'' 0) (\<lambda>ms.
     bindE (intField j ''disk_storage'' 0) (\<lambda>ds.
     bindE (intField j ''streams'' 0) (\<lambda>st.
     bindE (intField j ''consumer'' 0) (\<lambda>co.
     bindE (intField j ''max_ack_pending'' 0) (\<lambda>ma.
     bindE (intField j ''mem_max_stream_bytes'' 0) (\<lambda>mm.
     bindE (intField j ''disk_max_stream_bytes'' 0) (\<lambda>dm.
     bindE (value_bool j ''max_bytes_required'' False) (\<lambda>mb.
       Inr \<lparr>memStorage = ms, diskStorage = ds, streams = st, consumer = co, maxAckPending = ma,
            memoryMaxStreamBytes = mm, diskMaxStreamBytes = dm, maxBytesRequired = mb\<rparr>))))))))"

definition tierToJson :: "JetStreamLimits \<Rightarrow> json" where
  "tierToJson t = JObject (jetStreamLimitsInto [] t)"

definition tierFromJson :: "json \<Rightarrow> exn + JetStreamLimits" where
  "tierFromJson tier =
     bindE (throw_if (\<not> is_object tier) (MalformedTokenError ''tiered_limits entry must be an object''))
       (\<lambda>_. jetStreamLimitsFrom tier)"

definition accountLimitsToJson :: "AccountLimits \<Rightarrow> json" where
  "accountLimitsToJson l =
     (let m1 = setIf (l_subs l \<noteq> 0) ''subs'' (JInteger (l_subs l)) [];
          m2 = setIf (l_data l \<noteq> 0) ''data'' (JInteger (l_data l)) m1;
          m3 = setIf (l_payload l \<noteq> 0) ''payload'' (JInteger (l_payload l)) m2;
          m4 = setIf (l_imports l \<noteq> 0) ''imports'' (JInteger (l_imports l)) m3;
          m5 = setIf (l_exports l \<noteq> 0) ''exports'' (JInteger (l_exports l)) m4;
          m6 = setIf (wildcardExports l) ''wildcards'' (JBool True) m5;
          m7 = setIf (disallowBearer l) ''disallow_bearer'' (JBool True) m6;
          m8 = setIf (conn l \<noteq> 0) ''conn'' (JInteger (conn l)) m7;
          m9 = setIf (leafNodeConn l \<noteq> 0) ''leaf'' (JInteger (leafNodeConn l)) m8;
          m10 = jetStreamLimitsInto m9 (jetStream l)
      in JObject (setIf (tieredLimits l \<noteq> []) ''tiered_limits''
                    (JObject (smap_of (smap_map tierToJson (tieredLimits l)))) m10))"

definition tieredField :: "json \<Rightarrow> exn + JetStreamLimits smap" where
  "tieredField j =
     bindE (objectField j ''tiered_limits'') (\<lambda>t.
       case t of None \<Rightarrow> Inr [] | Some o' \<Rightarrow> readItems tierFromJson (fields_of o'))"

text \<open>When tiers are present, the flat JetStream limits are zeroed.\<close>

definition accountLimitsFromJson :: "json \<Rightarrow> exn + AccountLimits" where
  "accountLimitsFromJson j =
     bindE (intField j ''subs'' 0) (\<lambda>su.
     bindE (intField j ''data'' 0) (\<lambda>da.
     bindE (intField j ''payload'' 0) (\<lambda>pa.
     bindE (intField j ''imports'' 0) (\<lambda>im.
     bindE (intField j ''exports'' 0) (\<lambda>ex.
     bindE (value_bool j ''wildcards'' False) (\<lambda>wi.
     bindE (value_bool j ''disallow_bearer'' False) (\<lambda>db.
     bindE (intField j ''conn'' 0) (\<lambda>co.
     bindE (intField j ''leaf'' 0) (\<lambda>le.
     bindE (jetStreamLimitsFrom j) (\<lambda>js.
     bindE (tieredField j) (\<lambda>ti.
       Inr \<lparr>l_subs = su, l_data = da, l_payload = pa, l_imports = im, l_exports = ex,
            wildcardExports = wi, disallowBearer = db, conn = co, leafNodeConn = le,
            jetStream = (if ti \<noteq> [] then no_jetStream else js), tieredLimits = ti\<rparr>)))))))))))"

section \<open>Mappings\<close>

definition mappingToJson :: "WeightedMapping \<Rightarrow> json" where
  "mappingToJson wm =
     (let m0 = smap_put ''subject'' (JString (wm_subject wm)) [];
          m1 = setIf (wm_weight wm \<noteq> 0) ''weight'' (JUnsigned (ucast (wm_weight wm))) m0
      in JObject (setIf (wm_cluster wm \<noteq> []) ''cluster'' (JString (wm_cluster wm)) m1))"

definition mappingFromJson :: "json \<Rightarrow> exn + WeightedMapping" where
  "mappingFromJson entry =
     bindE (value_string entry ''subject'' []) (\<lambda>s.
     bindE (uintField entry ''weight'' 0 255) (\<lambda>w.
     bindE (value_string entry ''cluster'' []) (\<lambda>c.
       Inr \<lparr>wm_subject = s, wm_weight = ucast w, wm_cluster = c\<rparr>)))"

definition mappingsToJson :: "WeightedMapping list \<Rightarrow> json" where
  "mappingsToJson wms = JArray (map mappingToJson wms)"

fun mappingsFromJson :: "json \<Rightarrow> exn + WeightedMapping list" where
  "mappingsFromJson (JArray xs) = mapE mappingFromJson xs"
| "mappingsFromJson _ = Inl (MalformedTokenError ''mappings entry must be an array'')"

section \<open>Exports and imports\<close>

definition latencyToJson :: "ServiceLatency \<Rightarrow> json" where
  "latencyToJson sl =
     JObject (smap_put ''results'' (JString (latency_results sl))
       (smap_put ''sampling''
         (if sampling sl = 0 then JString ''headers'' else JInteger (scast (sampling sl))) []))"

definition latencyFromJson :: "json \<Rightarrow> exn + ServiceLatency" where
  "latencyFromJson lat =
     bindE (case jget lat ''sampling'' of
              Some (JString _) \<Rightarrow> Inr 0
            | _ \<Rightarrow> bindE (uintField lat ''sampling'' 0 100) (\<lambda>u. Inr (ucast u)))
       (\<lambda>sm. bindE (value_string lat ''results'' []) (\<lambda>r.
          Inr \<lparr>sampling = sm, latency_results = r\<rparr>))"

definition revocationsToJson :: "int64 smap \<Rightarrow> json" where
  "revocationsToJson r = JObject (smap_of (smap_map JInteger r))"

definition revocationsField :: "json \<Rightarrow> exn + int64 smap" where
  "revocationsField j =
     bindE (objectField j ''revocations'') (\<lambda>r.
       case r of None \<Rightarrow> Inr [] | Some o' \<Rightarrow> readItems (\<lambda>v. intValue v ''revocations'') (fields_of o'))"

definition exportToJson :: "Export \<Rightarrow> json" where
  "exportToJson e =
     (let m1 = setIf (e_name e \<noteq> []) ''name'' (JString (e_name e)) [];
          m2 = setIf (e_subject e \<noteq> []) ''subject'' (JString (e_subject e)) m1;
          m3 = setIf (e_type e \<noteq> Unknown) ''type'' (JString (exportTypeStr (e_type e))) m2;
          m4 = setIf (tokenReq e) ''token_req'' (JBool True) m3;
          m5 = setIf (e_revocations e \<noteq> []) ''revocations'' (revocationsToJson (e_revocations e)) m4;
          m6 = setIf (responseType e \<noteq> []) ''response_type'' (JString (responseType e)) m5;
          m7 = setIf (responseThresholdNanos e \<noteq> 0) ''response_threshold''
                 (JInteger (responseThresholdNanos e)) m6;
          m8 = putOpt ''service_latency'' latencyToJson (latency e) m7;
          m9 = setIf (accountTokenPosition e \<noteq> 0) ''account_token_position''
                 (JUnsigned (ucast (accountTokenPosition e))) m8;
          m10 = setIf (advertise e) ''advertise'' (JBool True) m9;
          m11 = setIf (e_allowTrace e) ''allow_trace'' (JBool True) m10;
          m12 = setIf (e_description e \<noteq> []) ''description'' (JString (e_description e)) m11
      in JObject (setIf (e_infoURL e \<noteq> []) ''info_url'' (JString (e_infoURL e)) m12))"

definition latencyField :: "json \<Rightarrow> exn + ServiceLatency option" where
  "latencyField j =
     bindE (objectField j ''service_latency'') (\<lambda>l.
       case l of None \<Rightarrow> Inr None | Some lat \<Rightarrow> bindE (latencyFromJson lat) (\<lambda>sl. Inr (Some sl)))"

definition exportFromJson :: "json \<Rightarrow> exn + Export" where
  "exportFromJson j =
     bindE (value_string j ''name'' []) (\<lambda>nm.
     bindE (value_string j ''subject'' []) (\<lambda>sb.
     bindE (value_string j ''type'' []) (\<lambda>ts.
     bindE (exportTypeFrom ts) (\<lambda>ty.
     bindE (value_bool j ''token_req'' False) (\<lambda>tr.
     bindE (revocationsField j) (\<lambda>rv.
     bindE (value_string j ''response_type'' []) (\<lambda>rt.
     bindE (intField j ''response_threshold'' 0) (\<lambda>th.
     bindE (latencyField j) (\<lambda>la.
     bindE (uintField j ''account_token_position'' 0 (2 ^ 32 - 1)) (\<lambda>tp.
     bindE (value_bool j ''advertise'' False) (\<lambda>ad.
     bindE (value_bool j ''allow_trace'' False) (\<lambda>at.
     bindE (value_string j ''description'' []) (\<lambda>de.
     bindE (value_string j ''info_url'' []) (\<lambda>iu.
       Inr \<lparr>e_name = nm, e_subject = sb, e_type = ty, tokenReq = tr, e_revocations = rv,
            responseType = rt, responseThresholdNanos = th, latency = la,
            accountTokenPosition = ucast tp, advertise = ad, e_allowTrace = at,
            e_description = de, e_infoURL = iu\<rparr>))))))))))))))"

definition importToJson :: "Import \<Rightarrow> json" where
  "importToJson i =
     (let m1 = setIf (i_name i \<noteq> []) ''name'' (JString (i_name i)) [];
          m2 = setIf (i_subject i \<noteq> []) ''subject'' (JString (i_subject i)) m1;
          m3 = setIf (i_account i \<noteq> []) ''account'' (JString (i_account i)) m2;
          m4 = setIf (i_token i \<noteq> []) ''token'' (JString (i_token i)) m3;
          m5 = setIf (i_to i \<noteq> []) ''to'' (JString (i_to i)) m4;
          m6 = setIf (localSubject i \<noteq> []) ''local_subject'' (JString (localSubject i)) m5;
          m7 = setIf (i_type i \<noteq> Unknown) ''type'' (JString (exportTypeStr (i_type i))) m6;
          m8 = setIf (share i) ''share'' (JBool True) m7
      in JObject (setIf (i_allowTrace i) ''allow_trace'' (JBool True) m8))"

definition importFromJson :: "json \<Rightarrow> exn + Import" where
  "importFromJson j =
     bindE (value_string j ''name'' []) (\<lambda>nm.
     bindE (value_string j ''subject'' []) (\<lambda>sb.
     bindE (value_string j ''account'' []) (\<lambda>ac.
     bindE (value_string j ''token'' []) (\<lambda>tk.
     bindE (value_string j ''to'' []) (\<lambda>to.
     bindE (value_string j ''local_subject'' []) (\<lambda>ls.
     bindE (value_string j ''type'' []) (\<lambda>ts.
     bindE (exportTypeFrom ts) (\<lambda>ty.
     bindE (value_bool j ''share'' False) (\<lambda>sh.
     bindE (value_bool j ''allow_trace'' False) (\<lambda>at.
       Inr \<lparr>i_name = nm, i_subject = sb, i_account = ac, i_token = tk, i_to = to,
            localSubject = ls, i_type = ty, share = sh, i_allowTrace = at\<rparr>))))))))))"

section \<open>External authorization\<close>

definition externalAuthorizationToJson :: "ExternalAuthorization \<Rightarrow> json" where
  "externalAuthorizationToJson a =
     (let m1 = setIf (authUsers a \<noteq> []) ''auth_users'' (json_strings (authUsers a)) [];
          m2 = setIf (allowedAccounts a \<noteq> []) ''allowed_accounts'' (json_strings (allowedAccounts a)) m1
      in JObject (setIf (xkey a \<noteq> []) ''xkey'' (JString (xkey a)) m2))"

definition externalAuthorizationFromJson :: "json \<Rightarrow> exn + ExternalAuthorization" where
  "externalAuthorizationFromJson j =
     bindE (stringsField j ''auth_users'') (\<lambda>us.
     bindE (stringsField j ''allowed_accounts'') (\<lambda>ac.
     bindE (value_string j ''xkey'' []) (\<lambda>xk.
       Inr \<lparr>authUsers = us, allowedAccounts = ac, xkey = xk\<rparr>)))"

section \<open>Round trips\<close>

lemma written_type:
  assumes "is_object j"
    and "jget j ''type'' = (if t \<noteq> Unknown then Some (JString (exportTypeStr t)) else None)"
  shows "bindE (value_string (json_norm j) ''type'' []) (\<lambda>s. bindE (exportTypeFrom s) f) = f t"
  using written_string [OF assms, of "[]"]
  by (cases t) (simp_all add: exportTypeFrom_def del: value_string_norm)

subsection \<open>Limits\<close>

lemma jetStream_get:
  "smap_get (jetStreamLimitsInto m j) k =
     (if k = ''max_bytes_required'' \<and> maxBytesRequired j then Some (JBool True)
      else if k = ''disk_max_stream_bytes'' \<and> diskMaxStreamBytes j \<noteq> 0 then Some (JInteger (diskMaxStreamBytes j))
      else if k = ''mem_max_stream_bytes'' \<and> memoryMaxStreamBytes j \<noteq> 0 then Some (JInteger (memoryMaxStreamBytes j))
      else if k = ''max_ack_pending'' \<and> maxAckPending j \<noteq> 0 then Some (JInteger (maxAckPending j))
      else if k = ''consumer'' \<and> consumer j \<noteq> 0 then Some (JInteger (consumer j))
      else if k = ''streams'' \<and> streams j \<noteq> 0 then Some (JInteger (streams j))
      else if k = ''disk_storage'' \<and> diskStorage j \<noteq> 0 then Some (JInteger (diskStorage j))
      else if k = ''mem_storage'' \<and> memStorage j \<noteq> 0 then Some (JInteger (memStorage j))
      else smap_get m k)"
  unfolding jetStreamLimitsInto_def Let_def setIf_get by (rule refl)

lemma jetStream_reads:
  assumes "is_object o'"
    and "jget o' ''mem_storage'' = (if memStorage j \<noteq> 0 then Some (JInteger (memStorage j)) else None)"
    and "jget o' ''disk_storage'' = (if diskStorage j \<noteq> 0 then Some (JInteger (diskStorage j)) else None)"
    and "jget o' ''streams'' = (if streams j \<noteq> 0 then Some (JInteger (streams j)) else None)"
    and "jget o' ''consumer'' = (if consumer j \<noteq> 0 then Some (JInteger (consumer j)) else None)"
    and "jget o' ''max_ack_pending'' =
           (if maxAckPending j \<noteq> 0 then Some (JInteger (maxAckPending j)) else None)"
    and "jget o' ''mem_max_stream_bytes'' =
           (if memoryMaxStreamBytes j \<noteq> 0 then Some (JInteger (memoryMaxStreamBytes j)) else None)"
    and "jget o' ''disk_max_stream_bytes'' =
           (if diskMaxStreamBytes j \<noteq> 0 then Some (JInteger (diskMaxStreamBytes j)) else None)"
    and "jget o' ''max_bytes_required'' = (if maxBytesRequired j then Some (JBool True) else None)"
  shows "jetStreamLimitsFrom (json_norm o') = Inr j"
  using assms(2-8) [THEN written_int] written_bool [OF assms(1,9)]
  by (cases j) (simp add: jetStreamLimitsFrom_def del: value_bool_norm)

lemma tier_roundtrip: "tierFromJson (json_norm (tierToJson t)) = Inr t"
proof -
  have "jetStreamLimitsFrom (json_norm (tierToJson t)) = Inr t"
    by (rule jetStream_reads) (simp_all add: tierToJson_def jetStream_get)
  moreover have "is_object (json_norm (tierToJson t))" by (simp add: tierToJson_def)
  ultimately show ?thesis by (simp add: tierFromJson_def)
qed

interpretation tier_codec: json_codec tierToJson tierFromJson "\<lambda>t. t"
  by unfold_locales (simp_all add: tier_roundtrip)

text \<open>An object that was written when a map is not empty, and its reader.\<close>

lemma written_items:
  assumes "jget j k = (if m \<noteq> [] then Some (JObject (smap_of (smap_map wr m))) else None)"
    and "\<And>x. rd (json_norm (wr x)) = Inr (nf x)"
  shows "bindE (objectField (json_norm j) k) (\<lambda>v. case v of None \<Rightarrow> Inr [] | Some o' \<Rightarrow> readItems rd (fields_of o')) =
    Inr (smap_of (smap_map nf m))"
proof (cases "m = []")
  case True
  then show ?thesis using assms(1) by (simp add: unwritten_object smap_of_def del: json_norm.simps)
next
  case False
  have "readItems rd (smap_map (\<lambda>x. json_norm (wr x)) (smap_of m)) = Inr (smap_of (smap_map nf (smap_of m)))"
    by (rule readItems_map) (rule assms(2))
  then have "readItems rd (smap_map json_norm (smap_of (smap_map wr m))) = Inr (smap_of (smap_map nf m))"
    unfolding smap_of_map by (simp add: smap_of_map [symmetric] comp_def case_prod_unfold)
  then show ?thesis using False assms(1)
    by (simp add: written_object)
qed

lemma tieredField_roundtrip:
  "jget j ''tiered_limits'' = (if m \<noteq> [] then Some (JObject (smap_of (smap_map tierToJson m))) else None) \<Longrightarrow>
     tieredField (json_norm j) = Inr (smap_of m)"
  using written_items [of j "''tiered_limits''" m tierToJson tierFromJson "\<lambda>t. t"] tier_roundtrip
  by (simp add: tieredField_def)

lemmas limits_get = accountLimitsToJson_def Let_def jget.simps setIf_get jetStream_get smap_get_Nil

text \<open>Reading limits back: the map of tiers in key order; flat JetStream limits only without tiers.\<close>

definition reread_account_limits :: "AccountLimits \<Rightarrow> AccountLimits" where
  "reread_account_limits l =
     l\<lparr>jetStream := (if tieredLimits l \<noteq> [] then no_jetStream else jetStream l),
       tieredLimits := smap_of (tieredLimits l)\<rparr>"

lemma limits_roundtrip: "accountLimitsFromJson (json_norm (accountLimitsToJson l)) = Inr (reread_account_limits l)"
proof -
  let ?j = "accountLimitsToJson l"
  have obj: "is_object ?j" by (simp add: accountLimitsToJson_def Let_def)
  have ints:
    "jget ?j ''subs'' = (if l_subs l \<noteq> 0 then Some (JInteger (l_subs l)) else None)"
    "jget ?j ''data'' = (if l_data l \<noteq> 0 then Some (JInteger (l_data l)) else None)"
    "jget ?j ''payload'' = (if l_payload l \<noteq> 0 then Some (JInteger (l_payload l)) else None)"
    "jget ?j ''imports'' = (if l_imports l \<noteq> 0 then Some (JInteger (l_imports l)) else None)"
    "jget ?j ''exports'' = (if l_exports l \<noteq> 0 then Some (JInteger (l_exports l)) else None)"
    "jget ?j ''conn'' = (if conn l \<noteq> 0 then Some (JInteger (conn l)) else None)"
    "jget ?j ''leaf'' = (if leafNodeConn l \<noteq> 0 then Some (JInteger (leafNodeConn l)) else None)"
    by (simp_all add: limits_get)
  have bools: "jget ?j ''wildcards'' = (if wildcardExports l then Some (JBool True) else None)"
    "jget ?j ''disallow_bearer'' = (if disallowBearer l then Some (JBool True) else None)"
    by (simp_all add: limits_get)
  have js: "jetStreamLimitsFrom (json_norm ?j) = Inr (jetStream l)"
    by (rule jetStream_reads [OF obj]) (simp_all add: limits_get)
  have tiers: "tieredField (json_norm ?j) = Inr (smap_of (tieredLimits l))"
    by (rule tieredField_roundtrip) (simp add: limits_get)
  show ?thesis
    using ints [THEN written_int] written_bool [OF obj bools(1)] written_bool [OF obj bools(2)]
    by (simp add: accountLimitsFromJson_def js tiers reread_account_limits_def del: value_bool_norm)
qed

interpretation limits_codec: json_codec accountLimitsToJson accountLimitsFromJson reread_account_limits
  by unfold_locales (simp_all add: limits_roundtrip reread_account_limits_def)

subsection \<open>Mappings and revocations\<close>

lemma ucast_down: "(ucast (ucast (w :: byte) :: uint64) :: byte) = w"
  by (rule bit_word_eqI) (auto simp: bit_simps)

lemma uint_ucast_byte: "uint (ucast (w :: byte) :: uint64) = uint w"
  using uint_bounded [of w] by (simp add: unsigned_ucast_eq take_bit_int_eq_self)

lemma ucast_le_255: "(ucast (w :: byte) :: uint64) \<le> 255"
  using uint_bounded [of w] by (simp add: word_le_def uint_ucast_byte)

lemma mapping_roundtrip: "mappingFromJson (json_norm (mappingToJson wm)) = Inr wm"
proof -
  let ?j = "mappingToJson wm"
  have obj: "is_object ?j" by (simp add: mappingToJson_def Let_def)
  have "jget ?j ''subject'' = Some (JString (wm_subject wm))"
    and c: "jget ?j ''cluster'' = (if wm_cluster wm \<noteq> [] then Some (JString (wm_cluster wm)) else None)"
    and w: "jget ?j ''weight'' =
      (if wm_weight wm \<noteq> 0 then Some (JUnsigned (ucast (wm_weight wm))) else None)"
    by (simp_all add: mappingToJson_def Let_def setIf_get smap_get_Cons)
  moreover have "(ucast (if wm_weight wm \<noteq> 0 then ucast (wm_weight wm) :: uint64 else 0) :: byte) = wm_weight wm"
    by (simp add: ucast_down)
  ultimately show ?thesis
    using written_string [OF obj c, of "[]"] written_uint [OF w ucast_le_255, of 0]
    by (cases ?j) (auto simp: mappingFromJson_def simp del: if_not_0)
qed

interpretation mapping_codec: json_codec mappingToJson mappingFromJson "\<lambda>wm. wm"
  by unfold_locales (simp_all add: mapping_roundtrip)

lemma mappings_roundtrip: "mappingsFromJson (json_norm (mappingsToJson wms)) = Inr wms"
  using mapping_codec.reread_list [of wms] by (simp add: mappingsToJson_def)

interpretation mappings_codec: json_codec mappingsToJson mappingsFromJson "\<lambda>wms. wms"
  by unfold_locales (simp_all add: mappings_roundtrip)

lemma revocationsField_roundtrip:
  "jget j ''revocations'' = (if m \<noteq> [] then Some (revocationsToJson m) else None) \<Longrightarrow>
     revocationsField (json_norm j) = Inr (smap_of m)"
  using written_items [of j "''revocations''" m JInteger "\<lambda>v. intValue v ''revocations''" "\<lambda>t. t"]
  by (simp add: revocationsField_def revocationsToJson_def del: json_norm.simps)

subsection \<open>Exports and imports\<close>

text \<open>The sampling rates that pass the checks, which are those that can be read back.\<close>

definition sampling_ok :: "int32 \<Rightarrow> bool" where
  "sampling_ok s \<longleftrightarrow> s = 0 \<or> 1 \<le> sint s \<and> sint s \<le> 100"

lemma latency_roundtrip:
  assumes "sampling_ok (sampling sl)"
  shows "latencyFromJson (json_norm (latencyToJson sl)) = Inr sl"
proof (cases "sampling sl = 0")
  case True
  then show ?thesis by (cases sl) (simp add: latencyFromJson_def latencyToJson_def smap_get_Cons)
next
  case False
  let ?u = "scast (sampling sl) :: int64"
  have s: "1 \<le> sint ?u" "sint ?u \<le> 100"
    using assms False by (simp_all add: sampling_ok_def sint_scast_int32)
  then have "uint ?u = sint ?u" by (simp add: uint_sint_nonneg)
  then have "?u \<le> 100" using s by (simp add: word_le_def)
  moreover have "json_norm (JInteger ?u) = JUnsigned ?u" using s by simp
  ultimately show ?thesis
    using False
    by (cases sl) (simp add: latencyFromJson_def latencyToJson_def uintField_def Let_def smap_get_Cons
        ucast_scast_int32 del: json_norm.simps(1))
qed

lemma latencyField_roundtrip:
  assumes "jget j ''service_latency'' = map_option latencyToJson la"
    and "\<And>sl. la = Some sl \<Longrightarrow> sampling_ok (sampling sl)"
  shows "latencyField (json_norm j) = Inr la"
proof (cases la)
  case None
  then show ?thesis using assms(1) by (simp add: latencyField_def unwritten_object)
next
  case (Some sl)
  then have "objectField (json_norm j) ''service_latency'' = Inr (Some (json_norm (latencyToJson sl)))"
    using assms(1) by (simp add: latencyToJson_def written_object del: json_norm.simps)
  then show ?thesis using latency_roundtrip [OF assms(2) [OF Some]] Some by (simp add: latencyField_def)
qed

definition readable_export :: "Export \<Rightarrow> bool" where
  "readable_export e \<longleftrightarrow> (case latency e of None \<Rightarrow> True | Some sl \<Rightarrow> sampling_ok (sampling sl))"

definition reread_export :: "Export \<Rightarrow> Export" where
  "reread_export e = e\<lparr>e_revocations := smap_of (e_revocations e)\<rparr>"

lemmas export_get = exportToJson_def Let_def jget.simps setIf_get putOpt_get smap_get_Nil

lemma ucast_down32: "(ucast (ucast (w :: uint32) :: uint64) :: uint32) = w"
  by (rule bit_word_eqI) (auto simp: bit_simps)

lemma ucast_le_32: "(ucast (w :: uint32) :: uint64) \<le> 2 ^ 32 - 1"
proof -
  have "uint (ucast w :: uint64) = uint w"
    using uint_bounded [of w] by (simp add: unsigned_ucast_eq take_bit_int_eq_self)
  then show ?thesis using uint_bounded [of w] by (simp add: word_le_def)
qed

lemma export_roundtrip:
  assumes "readable_export e"
  shows "exportFromJson (json_norm (exportToJson e)) = Inr (reread_export e)"
proof -
  let ?j = "exportToJson e"
  have obj: "is_object ?j" by (simp add: exportToJson_def Let_def)
  have strs:
    "jget ?j ''name'' = (if e_name e \<noteq> [] then Some (JString (e_name e)) else None)"
    "jget ?j ''subject'' = (if e_subject e \<noteq> [] then Some (JString (e_subject e)) else None)"
    "jget ?j ''response_type'' = (if responseType e \<noteq> [] then Some (JString (responseType e)) else None)"
    "jget ?j ''description'' = (if e_description e \<noteq> [] then Some (JString (e_description e)) else None)"
    "jget ?j ''info_url'' = (if e_infoURL e \<noteq> [] then Some (JString (e_infoURL e)) else None)"
    by (simp_all add: export_get)
  have bools:
    "jget ?j ''token_req'' = (if tokenReq e then Some (JBool True) else None)"
    "jget ?j ''advertise'' = (if advertise e then Some (JBool True) else None)"
    "jget ?j ''allow_trace'' = (if e_allowTrace e then Some (JBool True) else None)"
    by (simp_all add: export_get)
  have ty: "jget ?j ''type'' = (if e_type e \<noteq> Unknown then Some (JString (exportTypeStr (e_type e))) else None)"
    by (simp add: export_get)
  have th: "jget ?j ''response_threshold'' =
      (if responseThresholdNanos e \<noteq> 0 then Some (JInteger (responseThresholdNanos e)) else None)"
    by (simp add: export_get)
  have tp: "jget ?j ''account_token_position'' =
      (if accountTokenPosition e \<noteq> 0 then Some (JUnsigned (ucast (accountTokenPosition e))) else None)"
    by (simp add: export_get)
  have rv: "revocationsField (json_norm ?j) = Inr (smap_of (e_revocations e))"
    by (rule revocationsField_roundtrip) (simp add: export_get)
  have la: "latencyField (json_norm ?j) = Inr (latency e)"
    by (rule latencyField_roundtrip)
       (use assms in \<open>simp_all add: export_get readable_export_def split: option.splits\<close>)
  note reads = strs [THEN written_string [OF obj]] bools [THEN written_bool [OF obj]]
    written_type [OF obj ty] written_int [OF th] written_uint [OF tp ucast_le_32] rv la
  have pos: "ucast (if accountTokenPosition e \<noteq> 0 then ucast (accountTokenPosition e) :: uint64 else 0) =
      accountTokenPosition e"
    by (simp add: ucast_down32)
  show ?thesis
    unfolding exportFromJson_def reads bindE.simps if_not_Nil if_not_0 pos reread_export_def
    by (cases e) simp
qed

lemmas import_get = importToJson_def Let_def jget.simps setIf_get smap_get_Nil

lemma import_roundtrip: "importFromJson (json_norm (importToJson i)) = Inr i"
proof -
  let ?j = "importToJson i"
  have obj: "is_object ?j" by (simp add: importToJson_def Let_def)
  have strs:
    "jget ?j ''name'' = (if i_name i \<noteq> [] then Some (JString (i_name i)) else None)"
    "jget ?j ''subject'' = (if i_subject i \<noteq> [] then Some (JString (i_subject i)) else None)"
    "jget ?j ''account'' = (if i_account i \<noteq> [] then Some (JString (i_account i)) else None)"
    "jget ?j ''token'' = (if i_token i \<noteq> [] then Some (JString (i_token i)) else None)"
    "jget ?j ''to'' = (if i_to i \<noteq> [] then Some (JString (i_to i)) else None)"
    "jget ?j ''local_subject'' = (if localSubject i \<noteq> [] then Some (JString (localSubject i)) else None)"
    by (simp_all add: import_get)
  have bools:
    "jget ?j ''share'' = (if share i then Some (JBool True) else None)"
    "jget ?j ''allow_trace'' = (if i_allowTrace i then Some (JBool True) else None)"
    by (simp_all add: import_get)
  have ty: "jget ?j ''type'' = (if i_type i \<noteq> Unknown then Some (JString (exportTypeStr (i_type i))) else None)"
    by (simp add: import_get)
  note reads = strs [THEN written_string [OF obj]] bools [THEN written_bool [OF obj]] written_type [OF obj ty]
  show ?thesis
    unfolding importFromJson_def reads bindE.simps if_not_Nil by (cases i) simp
qed

interpretation import_codec: json_codec importToJson importFromJson "\<lambda>i. i"
  by unfold_locales (simp_all add: import_roundtrip)

subsection \<open>External authorization\<close>

lemma authorization_roundtrip:
  "externalAuthorizationFromJson (json_norm (externalAuthorizationToJson a)) = Inr a"
proof -
  let ?j = "externalAuthorizationToJson a"
  have obj: "is_object ?j" by (simp add: externalAuthorizationToJson_def Let_def)
  have us: "jget ?j ''auth_users'' = (if authUsers a \<noteq> [] then Some (json_strings (authUsers a)) else None)"
    and ac: "jget ?j ''allowed_accounts'' =
      (if allowedAccounts a \<noteq> [] then Some (json_strings (allowedAccounts a)) else None)"
    and xk: "jget ?j ''xkey'' = (if xkey a \<noteq> [] then Some (JString (xkey a)) else None)"
    by (simp_all add: externalAuthorizationToJson_def Let_def setIf_get)
  show ?thesis
    unfolding externalAuthorizationFromJson_def written_strings [OF us] written_strings [OF ac]
      written_string [OF obj xk] bindE.simps if_not_Nil
    by (cases a) simp
qed

interpretation authorization_codec:
  json_codec externalAuthorizationToJson externalAuthorizationFromJson "\<lambda>a. a"
  by unfold_locales (simp_all add: authorization_roundtrip)

end
