(* ===== verification/AccountState.thy ===== *)
theory AccountState
  imports AccountData
begin

text \<open>
  The account object and the methods that change it (\<^verbatim>\<open>src/account_claims.cpp\<close>): signing keys and scopes,
  revocations, external authorization. An account is built from \<open>AccountClaims_new\<close> by these methods, and by
  its accessors that hand out references to limits, permissions, mappings, exports, imports, tags and the
  authorization, which the model has as record updates.

  The lemmas show the invariant the methods keep (maps in key order, every scope filed under its own
  key and listed among the signing keys), and that the map of revocations implements the abstract set
  of revoked (key, issue time) pairs.
\<close>

section \<open>The object\<close>

record account_claims = base +
  a_limits :: AccountLimits
  defaultPermissions :: Permissions
  mappings :: "WeightedMapping list smap"
  acc_exports :: "Export list"
  acc_imports :: "Import list"
  revocations :: "int64 smap"
  authorization :: ExternalAuthorization
  a_description :: string
  a_infoURL :: string
  signingKeys :: "string list"
  scopes :: "UserScope smap"

definition AccountClaims_new :: "string \<Rightarrow> account_claims" where
  "AccountClaims_new accountPublicKey =
     \<lparr>natsRaw = [], subject = accountPublicKey, issuer = [], name = None, issuedAt = 0,
      expires = 0, audience = [], notBefore = 0, tags = [], a_limits = unlimited_account,
      defaultPermissions = no_permissions, mappings = [], acc_exports = [], acc_imports = [],
      revocations = [], authorization = no_authorization, a_description = [], a_infoURL = [],
      signingKeys = [], scopes = []\<rparr>"

definition AccountClaims_setIssuer :: "string \<Rightarrow> account_claims \<Rightarrow> account_claims" where
  "AccountClaims_setIssuer k c = c\<lparr>issuer := k\<rparr>"

definition AccountClaims_addSigningKey :: "string \<Rightarrow> account_claims \<Rightarrow> account_claims" where
  "AccountClaims_addSigningKey k c = c\<lparr>signingKeys := signingKeys c @ [k]\<rparr>"

definition setScope :: "UserScope \<Rightarrow> account_claims \<Rightarrow> account_claims" where
  "setScope s c =
     (let c1 = (if key s \<in> set (signingKeys c) then c else c\<lparr>signingKeys := signingKeys c @ [key s]\<rparr>)
      in c1\<lparr>scopes := smap_put (key s) s (scopes c1)\<rparr>)"

definition getScope :: "account_claims \<Rightarrow> string \<Rightarrow> UserScope option" where
  "getScope c signingKey = smap_get (scopes c) signingKey"

definition setDescription :: "string \<Rightarrow> account_claims \<Rightarrow> account_claims" where
  "setDescription d c = c\<lparr>a_description := d\<rparr>"

definition setInfoURL :: "string \<Rightarrow> account_claims \<Rightarrow> account_claims" where
  "setInfoURL u c = c\<lparr>a_infoURL := u\<rparr>"

definition enableExternalAuthorization :: "string list \<Rightarrow> account_claims \<Rightarrow> account_claims" where
  "enableExternalAuthorization userPublicKeys c =
     fold (\<lambda>u c. let users = authUsers (authorization c)
                 in if u \<in> set users then c
                    else c\<lparr>authorization := (authorization c)\<lparr>authUsers := users @ [u]\<rparr>\<rparr>) userPublicKeys c"

definition hasExternalAuthorization :: "account_claims \<Rightarrow> bool" where
  "hasExternalAuthorization c = isEnabled (authorization c)"

section \<open>Revocations\<close>

definition RevokeAll :: string where
  "RevokeAll = ''*''"

definition revokeAt :: "string \<Rightarrow> int64 \<Rightarrow> account_claims \<Rightarrow> account_claims" where
  "revokeAt pubKey unixTimestamp c =
     (case smap_get (revocations c) pubKey of
        Some t \<Rightarrow>
          if sint t > sint unixTimestamp then c
          else c\<lparr>revocations := smap_put pubKey unixTimestamp (revocations c)\<rparr>
      | None \<Rightarrow> c\<lparr>revocations := smap_put pubKey unixTimestamp (revocations c)\<rparr>)"

definition revoke :: "int64 \<Rightarrow> string \<Rightarrow> account_claims \<Rightarrow> account_claims" where
  "revoke now pubKey c = revokeAt pubKey now c"

definition clearRevocation :: "string \<Rightarrow> account_claims \<Rightarrow> account_claims" where
  "clearRevocation pubKey c = c\<lparr>revocations := smap_del pubKey (revocations c)\<rparr>"

definition isRevoked :: "account_claims \<Rightarrow> string \<Rightarrow> int64 \<Rightarrow> bool" where
  "isRevoked c pubKey claimIssuedAt =
     (if (case smap_get (revocations c) RevokeAll of None \<Rightarrow> False | Some t \<Rightarrow> sint t \<ge> sint claimIssuedAt)
      then True
      else case smap_get (revocations c) pubKey of None \<Rightarrow> False | Some t \<Rightarrow> sint t \<ge> sint claimIssuedAt)"

section \<open>What revocations mean\<close>

text \<open>The abstract state: the pairs of a key and an issue time that are revoked.\<close>

definition revoked :: "account_claims \<Rightarrow> (string \<times> int) set" where
  "revoked c = {(k, i). \<exists>t. smap_get (revocations c) k = Some t \<and> i \<le> sint t}"

text \<open>A sequence of calls.\<close>

datatype revocation_call = RevokeAt string int64 | ClearRevocation string

fun do_call :: "revocation_call \<Rightarrow> account_claims \<Rightarrow> account_claims" where
  "do_call (RevokeAt k t) c = revokeAt k t c"
| "do_call (ClearRevocation k) c = clearRevocation k c"

fun abstract_call :: "revocation_call \<Rightarrow> (string \<times> int) set \<Rightarrow> (string \<times> int) set" where
  "abstract_call (RevokeAt k t) R = R \<union> {k} \<times> {..sint t}"
| "abstract_call (ClearRevocation k) R = R - {k} \<times> UNIV"

lemma revoked_revokeAt: "revoked (revokeAt k t c) = revoked c \<union> {k} \<times> {..sint t}"
proof (cases "smap_get (revocations c) k")
  case None
  then show ?thesis by (auto simp: revoked_def revokeAt_def split: if_splits)
next
  case (Some t')
  then show ?thesis
    by (cases "sint t' > sint t") (auto simp: revoked_def revokeAt_def split: if_splits)
qed

lemma revoked_clear: "revoked (clearRevocation k c) = revoked c - {k} \<times> UNIV"
  by (auto simp: revoked_def clearRevocation_def split: if_splits)

lemma isRevoked_iff:
  "isRevoked c k i \<longleftrightarrow> (RevokeAll, sint i) \<in> revoked c \<or> (k, sint i) \<in> revoked c"
  by (auto simp: isRevoked_def revoked_def split: option.splits)

lemma revoked_calls: "revoked (fold do_call calls c) = fold abstract_call calls (revoked c)"
proof (induction calls arbitrary: c)
  case (Cons call calls)
  have "revoked (do_call call c) = abstract_call call (revoked c)"
    by (cases call) (simp_all add: revoked_revokeAt revoked_clear)
  with Cons.IH show ?case by simp
qed simp

lemma revoked_new: "revoked (AccountClaims_new k) = {}"
  by (simp add: revoked_def AccountClaims_new_def)

section \<open>The invariant of an account\<close>

text \<open>
  Every map is in key order, as a \<open>std::map\<close> is; a scope is filed under its own key, and that key is
  among the signing keys.
\<close>

definition account_inv :: "account_claims \<Rightarrow> bool" where
  "account_inv c \<longleftrightarrow>
     smap_ok (scopes c) \<and> smap_ok (revocations c) \<and>
     (\<forall>k s. smap_get (scopes c) k = Some s \<longrightarrow> key s = k \<and> k \<in> set (signingKeys c))"

lemma account_inv_new: "account_inv (AccountClaims_new k)"
  by (simp add: account_inv_def AccountClaims_new_def)

lemma account_inv_addSigningKey: "account_inv c \<Longrightarrow> account_inv (AccountClaims_addSigningKey k c)"
  by (auto simp: account_inv_def AccountClaims_addSigningKey_def)

lemma account_inv_setScope: "account_inv c \<Longrightarrow> account_inv (setScope s c)"
  by (auto simp: account_inv_def setScope_def Let_def smap_ok_put split: if_splits)

lemma account_inv_revokeAt: "account_inv c \<Longrightarrow> account_inv (revokeAt k t c)"
  by (auto simp: account_inv_def revokeAt_def smap_ok_put split: option.splits)

lemma account_inv_clear: "account_inv c \<Longrightarrow> account_inv (clearRevocation k c)"
  by (auto simp: account_inv_def clearRevocation_def smap_ok_del)

text \<open>The methods as steps on an account; the invariant holds in every state they reach.\<close>

inductive account_step :: "account_claims \<Rightarrow> account_claims \<Rightarrow> bool" where
  step_setIssuer: "account_step c (AccountClaims_setIssuer k c)"
| step_setName: "account_step c (setName n c)"
| step_setExpires: "account_step c (setExpires e c)"
| step_setAudience: "account_step c (setAudience a c)"
| step_setNotBefore: "account_step c (setNotBefore nb c)"
| step_addSigningKey: "account_step c (AccountClaims_addSigningKey k c)"
| step_setScope: "account_step c (setScope s c)"
| step_revoke: "account_step c (revoke now k c)"
| step_revokeAt: "account_step c (revokeAt k t c)"
| step_clear: "account_step c (clearRevocation k c)"
| step_description: "account_step c (setDescription d c)"
| step_infoURL: "account_step c (setInfoURL u c)"
| step_enable: "account_step c (enableExternalAuthorization us c)"
| step_limits: "account_step c (c\<lparr>a_limits := l\<rparr>)"
| step_permissions: "account_step c (c\<lparr>defaultPermissions := p\<rparr>)"
| step_mappings: "account_step c (c\<lparr>mappings := m\<rparr>)"
| step_exports: "account_step c (c\<lparr>acc_exports := es\<rparr>)"
| step_imports: "account_step c (c\<lparr>acc_imports := ims\<rparr>)"
| step_authorization: "account_step c (c\<lparr>authorization := a\<rparr>)"
| step_tags: "account_step c (c\<lparr>tags := ts\<rparr>)"

inductive built :: "string \<Rightarrow> account_claims \<Rightarrow> bool" for k where
  built_new: "built k (AccountClaims_new k)"
| built_step: "built k c \<Longrightarrow> account_step c c' \<Longrightarrow> built k c'"

inductive_cases account_stepE: "account_step c c'"

lemma enable_keeps:
  "signingKeys (enableExternalAuthorization us c) = signingKeys c"
  "scopes (enableExternalAuthorization us c) = scopes c"
  "revocations (enableExternalAuthorization us c) = revocations c"
  "subject (enableExternalAuthorization us c) = subject c"
proof -
  let ?f = "\<lambda>u (c :: account_claims). let users = authUsers (authorization c)
                 in if u \<in> set users then c
                    else c\<lparr>authorization := (authorization c)\<lparr>authUsers := users @ [u]\<rparr>\<rparr>"
  have "signingKeys (fold ?f us c) = signingKeys c \<and> scopes (fold ?f us c) = scopes c \<and>
      revocations (fold ?f us c) = revocations c \<and> subject (fold ?f us c) = subject c"
    by (induction us arbitrary: c) (simp_all add: Let_def)
  then show
    "signingKeys (enableExternalAuthorization us c) = signingKeys c"
    "scopes (enableExternalAuthorization us c) = scopes c"
    "revocations (enableExternalAuthorization us c) = revocations c"
    "subject (enableExternalAuthorization us c) = subject c"
    by (simp_all add: enableExternalAuthorization_def)
qed

lemma account_inv_cong:
  "scopes c' = scopes c \<Longrightarrow> revocations c' = revocations c \<Longrightarrow> signingKeys c' = signingKeys c \<Longrightarrow>
     account_inv c' = account_inv c"
  by (simp add: account_inv_def)

lemma account_inv_step: "account_step c c' \<Longrightarrow> account_inv c \<Longrightarrow> account_inv c'"
proof (induction rule: account_step.induct)
  case (step_enable c us)
  then show ?case using account_inv_cong enable_keeps by metis
qed (auto simp: account_inv_addSigningKey account_inv_setScope account_inv_revokeAt account_inv_clear revoke_def,
     auto simp: account_inv_def AccountClaims_setIssuer_def setName_def setExpires_def setAudience_def
       setNotBefore_def setDescription_def setInfoURL_def)

lemma built_inv: "built k c \<Longrightarrow> account_inv c"
  by (induction rule: built.induct) (auto intro: account_inv_new account_inv_step)

lemma step_keeps_subject: "account_step c c' \<Longrightarrow> subject c' = subject c"
  by (induction rule: account_step.induct)
     (simp_all add: AccountClaims_setIssuer_def setName_def setExpires_def setAudience_def setNotBefore_def
       setDescription_def setInfoURL_def AccountClaims_addSigningKey_def setScope_def revoke_def revokeAt_def
       clearRevocation_def enable_keeps Let_def split: option.splits)

lemma built_subject: "built k c \<Longrightarrow> subject c = k"
  by (induction rule: built.induct) (auto simp: AccountClaims_new_def step_keeps_subject)

section \<open>Properties\<close>

text \<open>
  C11: Revocation. After any sequence of revocations and clearings a token of a key issued at \<open>i\<close> is
  revoked exactly when the same sequence on the abstract set of revoked pairs leaves the key, or the
  wildcard, revoked at \<open>i\<close>: revoking adds every issue time up to the given one, and never takes one
  away; only clearing does.
\<close>

theorem revocation_refines:
  "isRevoked (fold do_call calls (AccountClaims_new a)) k i \<longleftrightarrow>
     (RevokeAll, sint i) \<in> fold abstract_call calls {} \<or> (k, sint i) \<in> fold abstract_call calls {}"
  by (simp add: isRevoked_iff revoked_calls revoked_new)

text \<open>
  A revocation only moves forward: revoking at \<open>t\<close> leaves the later of \<open>t\<close> and the time that
  was there, so revoking twice is revoking once at the later time, in either order.
\<close>

lemma revokeAt_keeps_latest:
  "smap_get (revocations (revokeAt k t c)) k =
     Some (case smap_get (revocations c) k of None \<Rightarrow> t | Some t' \<Rightarrow> if sint t < sint t' then t' else t) \<and>
   revoked (revokeAt k t (revokeAt k u c)) = revoked (revokeAt k u (revokeAt k t c)) \<and>
   (isRevoked (revokeAt k t c) k' i \<longleftrightarrow> isRevoked c k' i \<or> (k = k' \<or> k = RevokeAll) \<and> sint i \<le> sint t)"
proof (intro conjI)
  show "smap_get (revocations (revokeAt k t c)) k =
      Some (case smap_get (revocations c) k of None \<Rightarrow> t | Some t' \<Rightarrow> if sint t < sint t' then t' else t)"
    by (simp add: revokeAt_def split: option.splits)
qed (auto simp: revoked_revokeAt isRevoked_iff)

text \<open>
  C17: Every account built with the methods of the class, in any order, has its scopes filed under their
  own keys, each listed among the signing keys, and its maps in order; its subject is the key it was
  created with. So \<open>getScope\<close> answers with the scope set last for that very key, and only for a listed
  signing key.
\<close>

theorem built_account_invariant:
  assumes "built k c"
  shows "account_inv c \<and> subject c = k \<and>
    (getScope c sk = None \<or> sk \<in> set (signingKeys c) \<and> map_option key (getScope c sk) = Some sk) \<and>
    getScope (setScope s c) sk = (if sk = key s then Some s else getScope c sk)"
proof (intro conjI)
  show "account_inv c" "subject c = k" by (rule built_inv [OF assms], rule built_subject [OF assms])
  then show "getScope c sk = None \<or> sk \<in> set (signingKeys c) \<and> map_option key (getScope c sk) = Some sk"
    by (cases "getScope c sk") (auto simp: account_inv_def getScope_def)
  show "getScope (setScope s c) sk = (if sk = key s then Some s else getScope c sk)"
    by (simp add: getScope_def setScope_def Let_def)
qed

lemma built_account_invariant_witness:
  "account_inv (revokeAt ''U1'' 7 (setScope new_scope (AccountClaims_new ''A1'')))"
proof -
  have "built ''A1'' (setScope new_scope (AccountClaims_new ''A1''))"
    by (rule built_step [OF built_new step_setScope])
  then have "built ''A1'' (revokeAt ''U1'' 7 (setScope new_scope (AccountClaims_new ''A1'')))"
    by (rule built_step [OF _ step_revokeAt])
  from built_account_invariant [OF this] show ?thesis by (rule conjunct1)
qed

end
