(* ===== verification/AccountChecks.thy ===== *)
theory AccountChecks
  imports AccountData ActivationClaims
begin

text \<open>
  The checks on the parts of an account (\<^verbatim>\<open>src/account_claims.cpp\<close>): limits and weighted mappings,
  external authorization, exports and imports, with the activation tokens of imports.

  Checking imports can throw: \<open>std::stoi\<close> on a reference of the local subject, and whatever the activation
  decoder lets through. The lemmas say in closed form which mappings and which sets of export subjects
  pass, and exactly when the checks throw.
\<close>

section \<open>Limits and mappings\<close>

text \<open>One entry of the loop over the destinations; the state is \<open>perCluster\<close>, \<open>total\<close>, the report.\<close>

definition mapping_weight :: "WeightedMapping \<Rightarrow> uint32" where
  "mapping_weight wm = (if wm_weight wm = 0 then 100 else ucast (wm_weight wm))"

definition mapping_exceeds :: "string" where
  "mapping_exceeds = '' exceeds 100% among all of it'' @ [CHR 0x27] @ ''s weighted to mappings''"

definition mapping_step ::
  "string \<Rightarrow> WeightedMapping \<Rightarrow> uint32 smap \<times> uint32 \<times> results \<Rightarrow> uint32 smap \<times> uint32 \<times> results" where
  "mapping_step from' wm st =
     (case st of (perCluster, tot, vr) \<Rightarrow>
        let weight = mapping_weight wm;
            vr1 = error_if (weight > 100)
                    (''Mapping '' @ quoted from' @ '' has a weight '' @ nat_to_string (unat weight) @
                     '' that exceeds 100'') vr
        in if wm_cluster wm \<noteq> []
           then let t = (case smap_get perCluster (wm_cluster wm) of None \<Rightarrow> 0 | Some x \<Rightarrow> x) + weight
                in (smap_put (wm_cluster wm) t perCluster, tot,
                    error_if (t > 100) (''Mapping '' @ quoted from' @ '' in cluster '' @
                      quoted (wm_cluster wm) @ mapping_exceeds) vr1)
           else (perCluster, tot + weight, vr1))"

definition validateMapping :: "string \<times> WeightedMapping list \<Rightarrow> results \<Rightarrow> results" where
  "validateMapping entry vr =
     (case entry of (from', wms) \<Rightarrow>
        case fold (mapping_step from') wms ([], 0, vr) of (_, tot, vr1) \<Rightarrow>
          error_if (tot > 100) (''Mapping '' @ quoted from' @ mapping_exceeds) vr1)"

definition validateAccountConfig ::
  "AccountLimits \<Rightarrow> WeightedMapping list smap \<Rightarrow> results \<Rightarrow> results" where
  "validateAccountConfig lims maps vr =
     (let vr1 = (if tieredLimits lims \<noteq> []
                 then error_if (smap_has (tieredLimits lims) [])
                        (''Tiered JetStream Limits can not contain a blank '' @ quoted [] @ '' tier name'')
                        (error_if (jetStream lims \<noteq> no_jetStream)
                           ''JetStream Limits and tiered JetStream Limits are mutually exclusive'' vr)
                 else vr)
      in fold validateMapping maps vr1)"

section \<open>External authorization\<close>

definition AnyAccount :: string where
  "AnyAccount = ''*''"

definition allowed_account :: "lib \<Rightarrow> ExternalAuthorization \<Rightarrow> string \<Rightarrow> results \<Rightarrow> results" where
  "allowed_account L a acc vr =
     (if acc = AnyAccount
      then error_if (length (allowedAccounts a) > 1)
             (''AllowedAccounts can only be a list of accounts or '' @ quoted AnyAccount) vr
      else error_if (\<not> IsValidPublicAccountKey L acc)
             (''Account '' @ quoted acc @ '' is not a valid account public key'') vr)"

definition validateExternalAuthorization :: "lib \<Rightarrow> ExternalAuthorization \<Rightarrow> results \<Rightarrow> results" where
  "validateExternalAuthorization L a vr =
     (let vr1 = error_if (allowedAccounts a \<noteq> [] \<and> authUsers a = [])
                  ''External authorization cannot have accounts without users specified'' vr;
          vr2 = fold (\<lambda>u. error_if (\<not> IsValidPublicUserKey L u)
                         (''AuthUser '' @ quoted u @ '' is not a valid user public key'')) (authUsers a) vr1;
          vr3 = fold (allowed_account L a) (allowedAccounts a) vr2
      in error_if (xkey a \<noteq> [] \<and> \<not> IsValidPublicCurveKey L (xkey a))
           (''XKey '' @ quoted (xkey a) @ '' is not a valid public xkey'') vr3)"

section \<open>Exports\<close>

definition check_latency :: "Export \<Rightarrow> results \<Rightarrow> results" where
  "check_latency e vr =
     (case latency e of
        None \<Rightarrow> vr
      | Some sl \<Rightarrow>
          let vr1 = error_if (e_type e \<noteq> Service) ''latency tracking only permitted for services'' vr;
              vr2 = error_if (sampling sl \<noteq> 0 \<and> (sint (sampling sl) < 1 \<or> 100 < sint (sampling sl)))
                      ''sampling percentage needs to be between 1-100'' vr1;
              vr3 = validateSubject (latency_results sl) vr2
          in error_if (subjectHasWildcards (latency_results sl))
               ''results subject can not contain wildcards'' vr3)"

definition check_token_position :: "Export \<Rightarrow> results \<Rightarrow> results" where
  "check_token_position e vr =
     (let pos = unat (accountTokenPosition e)
      in if pos > 0 then
           if \<not> subjectHasWildcards (e_subject e)
           then addError vr (''Account Token Position can only be used with wildcard subjects: '' @ e_subject e)
           else
             let tokens = splitOn (e_subject e) CHR ''.''
             in if pos > length tokens
                then addError vr (''Account Token Position '' @ nat_to_string pos @
                       '' exceeds length of subject '' @ squoted (e_subject e))
                else error_if (tokens ! (pos - 1) \<noteq> ''*'')
                       (''Account Token Position '' @ nat_to_string pos @ '' matches '' @
                        squoted (tokens ! (pos - 1)) @ '' but must match a * in: '' @ e_subject e) vr
         else vr)"

definition check_export :: "Export \<Rightarrow> results \<Rightarrow> results" where
  "check_export e vr =
     (let isService = (e_type e = Service);
          isStream = (e_type e = Stream);
          vr1 = error_if (\<not> isService \<and> \<not> isStream)
                  (''invalid export type: '' @ quoted (exportTypeStr (e_type e))) vr;
          vr2 = error_if (isService \<and> responseType e \<noteq> [] \<and> responseType e \<noteq> ''Singleton'' \<and>
                          responseType e \<noteq> ''Stream'' \<and> responseType e \<noteq> ''Chunked'')
                  (''invalid response type for service: '' @ quoted (responseType e)) vr1;
          vr3 = error_if (isStream \<and> responseType e \<noteq> [])
                  (''invalid response type for stream: '' @ quoted (responseType e)) vr2;
          vr4 = error_if (isStream \<and> e_allowTrace e) ''AllowTrace only valid for service export'' vr3;
          vr5 = check_latency e vr4;
          vr6 = error_if (sint (responseThresholdNanos e) < 0) ''negative response threshold is invalid'' vr5;
          vr7 = error_if (0 < sint (responseThresholdNanos e) \<and> \<not> isService)
                  ''response threshold only valid for services'' vr6;
          vr8 = validateSubject (e_subject e) vr7;
          vr9 = check_token_position e vr8
      in validateInfo (e_description e) (e_infoURL e) vr9)"

text \<open>One export; the state is \<open>serviceSubjects\<close>, \<open>streamSubjects\<close> and the report.\<close>

definition export_step ::
  "Export \<Rightarrow> string list \<times> string list \<times> results \<Rightarrow> string list \<times> string list \<times> results" where
  "export_step e st =
     (case st of (svcs, strms, vr) \<Rightarrow>
        if e_type e = Service then (svcs @ [e_subject e], strms, check_export e vr)
        else (svcs, strms @ [e_subject e], check_export e vr))"

text \<open>The map from each containing subject to the first subject it contains.\<close>

definition overlap_map :: "string list \<Rightarrow> string smap" where
  "overlap_map subjs =
     fold (\<lambda>i. fold (\<lambda>j m.
         if i \<noteq> j \<and> subjectIsContainedIn (subjs ! i) (subjs ! j) \<and> \<not> smap_has m (subjs ! j)
         then smap_put (subjs ! j) (subjs ! i) m else m) [0..<length subjs]) [0..<length subjs] []"

definition overlaps :: "string \<Rightarrow> string list \<Rightarrow> results \<Rightarrow> results" where
  "overlaps kind subjs vr =
     fold (\<lambda>(k, v) vr. addError vr (kind @ '' export subject '' @ quoted k @ '' already exports '' @ quoted v))
       (overlap_map subjs) vr"

definition validateExports :: "Export list \<Rightarrow> results \<Rightarrow> results" where
  "validateExports exs vr =
     (case fold export_step exs ([], [], vr) of (svcs, strms, vr1) \<Rightarrow>
        overlaps ''stream'' strms (overlaps ''service'' svcs vr1))"

section \<open>Imports\<close>

definition service_subject :: "Import \<Rightarrow> string" where
  "service_subject i =
     (let s1 = i_to i;
          s2 = (if s1 = [] then renamingToSubject (localSubject i) else s1)
      in if s2 = [] then i_subject i else s2)"

text \<open>The overlap check of service imports; the state is \<open>subsByAcct\<close> and the report.\<close>

definition service_overlap :: "Import \<Rightarrow> string list smap \<times> results \<Rightarrow> string list smap \<times> results" where
  "service_overlap i st =
     (case st of (subsByAcct, vr) \<Rightarrow>
        let s = service_subject i;
            seen = (case smap_get subsByAcct (i_account i) of None \<Rightarrow> [] | Some ss \<Rightarrow> ss);
            vr1 = fold (\<lambda>other. error_if (subjectIsContainedIn s other \<or> subjectIsContainedIn other s)
                        (''overlapping subject namespace for '' @ quoted s @ '' and '' @ quoted other @
                         '' in same account '' @ quoted (i_account i))) seen vr
        in if s \<in> set seen
           then (smap_put (i_account i) seen subsByAcct,
                 addError vr1 (''overlapping subject namespace for '' @ quoted s @ '' in account '' @
                   quoted (i_account i)))
           else (smap_put (i_account i) (seen @ [s]) subsByAcct, vr1))"

definition check_import :: "Import \<Rightarrow> results \<Rightarrow> exn + results" where
  "check_import i vr =
     (let isService = (i_type i = Service);
          isStream = (i_type i = Stream);
          vr1 = error_if (\<not> isService \<and> \<not> isStream)
                  (''invalid import type: '' @ quoted (exportTypeStr (i_type i))) vr;
          vr2 = error_if (isService \<and> i_allowTrace i) ''AllowTrace only valid for stream import'' vr1;
          vr3 = error_if (i_account i = []) ''account to import from is not specified'' vr2;
          vr4 = warning_if (i_to i \<noteq> []) ''the field to has been deprecated (use LocalSubject instead)'' vr3;
          vr5 = validateSubject (i_subject i) vr4
      in bindE (if localSubject i = [] then Inr vr5
                else bindE (validateRenamingSubject (localSubject i) (i_subject i) vr5) (\<lambda>vr6.
                       Inr (error_if (i_to i \<noteq> []) ''Local Subject replaces To'' vr6)))
           (\<lambda>vr7. Inr (error_if (share i \<and> \<not> isService)
              (''sharing information (for latency tracking) is only valid for services: '' @
               quoted (i_subject i)) vr7)))"

text \<open>The rules for a decoded activation token; its own time checks are left out.\<close>

definition check_activation ::
  "lib \<Rightarrow> int64 \<Rightarrow> string \<Rightarrow> Import \<Rightarrow> activation_claims \<Rightarrow> results \<Rightarrow> results" where
  "check_activation L now accountSubject i act vr =
     (let vr1 = error_if (\<not> (issuer act = i_account i \<or> a_issuerAccount act = Some (i_account i)))
                  (''activation token doesn'' @ [CHR 0x27] @ ''t match account for import '' @ quoted (i_subject i)) vr;
          vr2 = error_if (subject act \<noteq> accountSubject)
                  (''activation token doesn'' @ [CHR 0x27] @ ''t match account it is being included in, '' @
                   quoted (i_subject i)) vr1;
          vr3 = error_if (importType act \<noteq> i_type i)
                  (''mismatch between token import type '' @ exportTypeStr (importType act) @
                   '' and type of import '' @ exportTypeStr (i_type i)) vr2;
          tokenIssues = ActivationClaims_report L now act [];
          vr4 = fold (\<lambda>issue vr. if \<not> timeCheck issue then add vr issue else vr) tokenIssues vr3;
          subj = (if i_type i = Service \<and> i_to i \<noteq> [] then i_to i else i_subject i)
      in error_if (\<not> subjectIsContainedIn subj (importSubject act))
           (''activation token import subject '' @ quoted (importSubject act) @ '' doesn'' @ [CHR 0x27] @
            ''t match import '' @ quoted (i_subject i)) vr4)"

text \<open>\<open>catch (const Error&)\<close> sees the errors of the library only.\<close>

definition check_token :: "lib \<Rightarrow> int64 \<Rightarrow> string \<Rightarrow> Import \<Rightarrow> results \<Rightarrow> exn + results" where
  "check_token L now accountSubject i vr =
     (if i_token i = [] then Inr vr
      else case decodeActivationClaims L (i_token i) of
             Inl e \<Rightarrow>
               if is_jwt_error e
               then Inr (addError vr (''import '' @ quoted (i_subject i) @ '' contains an invalid activation token''))
               else Inl e
           | Inr act \<Rightarrow> Inr (check_activation L now accountSubject i act vr))"

definition import_step ::
  "lib \<Rightarrow> int64 \<Rightarrow> string \<Rightarrow> string list smap \<times> results \<Rightarrow> Import \<Rightarrow> exn + (string list smap \<times> results)" where
  "import_step L now accountSubject st i =
     (case (if i_type i = Service then service_overlap i st else st) of (subsByAcct, vr) \<Rightarrow>
        bindE (check_import i vr) (\<lambda>vr1.
        bindE (check_token L now accountSubject i vr1) (\<lambda>vr2. Inr (subsByAcct, vr2))))"

definition validateExportsImports ::
  "lib \<Rightarrow> int64 \<Rightarrow> Export list \<Rightarrow> Import list \<Rightarrow> string \<Rightarrow> results \<Rightarrow> exn + results" where
  "validateExportsImports L now exs ims accountSubject vr =
     bindE (foldE (import_step L now accountSubject) ([], validateExports exs vr) ims)
       (\<lambda>(_, vr1). Inr vr1)"

section \<open>Weights\<close>

definition weight_of :: "WeightedMapping \<Rightarrow> nat" where
  "weight_of wm = unat (mapping_weight wm)"

text \<open>The weights that go to one cluster; the empty name stands for no cluster.\<close>

definition cluster_sum :: "string \<Rightarrow> WeightedMapping list \<Rightarrow> nat" where
  "cluster_sum c wms = sum_list (map weight_of (filter (\<lambda>wm. wm_cluster wm = c) wms))"

definition at_cluster :: "uint32 smap \<Rightarrow> string \<Rightarrow> uint32" where
  "at_cluster m c = (case smap_get m c of None \<Rightarrow> 0 | Some x \<Rightarrow> x)"

lemma at_cluster_put: "at_cluster (smap_put k v m) c = (if c = k then v else at_cluster m c)"
  by (auto simp: at_cluster_def)

lemma cluster_sum_simps [simp]:
  "cluster_sum c [] = 0"
  "cluster_sum c (wm # wms) = (if wm_cluster wm = c then weight_of wm else 0) + cluster_sum c wms"
  by (simp_all add: cluster_sum_def)

lemma weight_of_le: "weight_of wm \<le> 255"
proof -
  have w: "unat (wm_weight wm) < 256" using unsigned_less [of "wm_weight wm"] by simp
  then have "unat (ucast (wm_weight wm) :: uint32) = unat (wm_weight wm)"
    by (simp add: unsigned_ucast_eq take_bit_nat_eq_self)
  then show ?thesis using w by (simp add: weight_of_def mapping_weight_def)
qed

lemma mapping_weight_word: "mapping_weight wm = word_of_nat (weight_of wm)"
  by (simp add: weight_of_def)

lemma weight_exceeds: "mapping_weight wm > 100 \<longleftrightarrow> weight_of wm > 100"
  by (simp add: weight_of_def word_less_nat_alt)

lemma mapping_step_append:
  "mapping_step f wm (pc, tot, vr @ vs) =
     (case mapping_step f wm (pc, tot, vs) of (pc', tot', is) \<Rightarrow> (pc', tot', vr @ is))"
  by (simp add: mapping_step_def Let_def error_if_def addError_def add_def)

lemma mapping_fold_append:
  "fold (mapping_step f) wms (pc, tot, vr @ vs) =
     (case fold (mapping_step f) wms (pc, tot, vs) of (pc', tot', is) \<Rightarrow> (pc', tot', vr @ is))"
  by (induction wms arbitrary: pc tot vs) (auto simp: mapping_step_append split: prod.splits)

lemma appending_validateMapping: "appending (validateMapping entry)"
  unfolding appending_def
proof
  fix vr
  show "validateMapping entry vr = vr @ validateMapping entry []"
    using mapping_fold_append [of "fst entry" "snd entry" "[]" 0 vr "[]"]
    by (auto simp: validateMapping_def error_if_def addError_def add_def split: prod.splits)
qed

lemma mapping_fold_total:
  "fst (snd (fold (mapping_step f) wms (pc, tot, vr))) = tot + word_of_nat (cluster_sum [] wms)"
proof (induction wms arbitrary: pc tot vr)
  case (Cons wm wms)
  obtain pc1 tot1 vr1 where step: "mapping_step f wm (pc, tot, vr) = (pc1, tot1, vr1)"
    by (cases "mapping_step f wm (pc, tot, vr)")
  then have "tot1 = tot + (if wm_cluster wm = [] then word_of_nat (weight_of wm) else 0)"
    by (auto simp: mapping_step_def Let_def mapping_weight_word split: if_splits)
  with step Cons.IH [of pc1 tot1 vr1] show ?case by simp
qed simp

text \<open>
  The findings of the loop, started on clusters that have not exceeded 100: none exactly when no
  weight exceeds 100 and no cluster does in the end. The sums of the clusters cannot wrap before
  they are reported.
\<close>

lemma mapping_fold_outcome:
  assumes "\<And>c. unat (at_cluster pc c) \<le> 100"
  shows "case fold (mapping_step f) wms (pc, tot, []) of (pc', tot', is) \<Rightarrow>
    tot' = tot + word_of_nat (cluster_sum [] wms) \<and>
    (is = [] \<longleftrightarrow> (\<forall>wm \<in> set wms. weight_of wm \<le> 100) \<and>
       (\<forall>c. c = [] \<or> unat (at_cluster pc c) + cluster_sum c wms \<le> 100))"
  using assms
proof (induction wms arbitrary: pc tot)
  case Nil
  then show ?case by simp
next
  case (Cons wm wms)
  let ?w = "mapping_weight wm" and ?c = "wm_cluster wm"
  obtain pc1 tot1 vr1 where step: "mapping_step f wm (pc, tot, []) = (pc1, tot1, vr1)"
    by (cases "mapping_step f wm (pc, tot, [])")
  obtain pc' tot' is' where rest: "fold (mapping_step f) wms (pc1, tot1, []) = (pc', tot', is')"
    by (cases "fold (mapping_step f) wms (pc1, tot1, [])")
  have all: "fold (mapping_step f) (wm # wms) (pc, tot, []) = (pc', tot', vr1 @ is')"
    using mapping_fold_append [of f wms pc1 tot1 vr1 "[]"] step rest by simp
  show ?case
  proof (cases "?c = []")
    case True
    have pc1: "pc1 = pc" and tot1: "tot1 = tot + ?w" and vr1: "vr1 = [] \<longleftrightarrow> weight_of wm \<le> 100"
      using step True
      by (auto simp: mapping_step_def Let_def error_if_def addError_def add_def weight_exceeds split: if_splits)
    have "unat (at_cluster pc1 c) \<le> 100" for c using Cons.prems by (simp add: pc1)
    from Cons.IH [of pc1 tot1, OF this]
    have IH: "tot' = tot1 + word_of_nat (cluster_sum [] wms)"
      "is' = [] \<longleftrightarrow> (\<forall>wm \<in> set wms. weight_of wm \<le> 100) \<and>
         (\<forall>c. c = [] \<or> unat (at_cluster pc1 c) + cluster_sum c wms \<le> 100)"
      by (simp_all add: rest)
    have "c = [] \<or> unat (at_cluster pc c) + cluster_sum c (wm # wms) \<le> 100 \<longleftrightarrow>
        c = [] \<or> unat (at_cluster pc c) + cluster_sum c wms \<le> 100" for c
      using True by auto
    with IH vr1 True show ?thesis unfolding all by (auto simp: pc1 tot1 mapping_weight_word)
  next
    case False
    let ?t = "at_cluster pc ?c + ?w"
    have t: "unat ?t = unat (at_cluster pc ?c) + weight_of wm"
      using Cons.prems [of ?c] weight_of_le [of wm]
      by (subst unat_word_ariths) (simp add: weight_of_def)
    have pc1: "pc1 = smap_put ?c ?t pc" and tot1: "tot1 = tot"
      and vr1: "vr1 = [] \<longleftrightarrow> weight_of wm \<le> 100 \<and> unat ?t \<le> 100"
      using step False
      by (auto simp: mapping_step_def Let_def error_if_def addError_def add_def weight_of_def at_cluster_def
          word_less_nat_alt split: if_splits)
    show ?thesis
    proof (cases "unat ?t \<le> 100")
      case True
      have "unat (at_cluster pc1 c) \<le> 100" for c
        using True Cons.prems by (simp add: pc1 at_cluster_put)
      from Cons.IH [of pc1 tot1, OF this]
      have IH: "tot' = tot1 + word_of_nat (cluster_sum [] wms)"
        "is' = [] \<longleftrightarrow> (\<forall>wm \<in> set wms. weight_of wm \<le> 100) \<and>
           (\<forall>c. c = [] \<or> unat (at_cluster pc1 c) + cluster_sum c wms \<le> 100)"
        by (simp_all add: rest)
      have "unat (at_cluster pc1 c) + cluster_sum c wms = unat (at_cluster pc c) + cluster_sum c (wm # wms)" for c
        using t by (auto simp: pc1 at_cluster_put)
      with IH vr1 True False tot1 show ?thesis unfolding all by simp
    next
      case 2: False
      then have "\<not> unat (at_cluster pc ?c) + cluster_sum ?c (wm # wms) \<le> 100" using t by simp
      moreover have "vr1 \<noteq> []" using vr1 2 by simp
      moreover have "tot' = tot1 + word_of_nat (cluster_sum [] wms)"
        using mapping_fold_total [of f wms pc1 tot1 "[]"] rest by simp
      ultimately show ?thesis using False tot1 unfolding all by auto
    qed
  qed
qed

lemma validateMapping_passes:
  "validateMapping (f, wms) [] = [] \<longleftrightarrow>
     (\<forall>wm \<in> set wms. weight_of wm \<le> 100) \<and> (\<forall>c. c = [] \<or> cluster_sum c wms \<le> 100) \<and>
     cluster_sum [] wms mod 2 ^ 32 \<le> 100"
proof -
  obtain pc' tot' is' where run: "fold (mapping_step f) wms ([], 0, []) = (pc', tot', is')"
    by (cases "fold (mapping_step f) wms ([], 0 :: uint32, [])")
  have empty: "at_cluster [] c = 0" for c by (simp add: at_cluster_def)
  have out: "tot' = word_of_nat (cluster_sum [] wms)"
    "is' = [] \<longleftrightarrow> (\<forall>wm \<in> set wms. weight_of wm \<le> 100) \<and> (\<forall>c. c = [] \<or> cluster_sum c wms \<le> 100)"
    using mapping_fold_outcome [where pc = "[]" and tot = 0 and f = f and wms = wms] by (simp_all add: empty run)
  have "tot' > 100 \<longleftrightarrow> \<not> cluster_sum [] wms mod 2 ^ 32 \<le> 100"
    by (simp add: out(1) word_less_nat_alt unat_of_nat not_le)
  then show ?thesis
    using out(2) by (auto simp: validateMapping_def run error_if_def addError_def add_def)
qed

section \<open>Overlapping exports\<close>

definition overlaps_at :: "string list \<Rightarrow> nat \<Rightarrow> nat \<Rightarrow> bool" where
  "overlaps_at subjs i j \<longleftrightarrow> i \<noteq> j \<and> subjectIsContainedIn (subjs ! i) (subjs ! j)"

text \<open>The subjects that contain the subject of another export.\<close>

definition containers :: "string list \<Rightarrow> string set" where
  "containers subjs = {subjs ! j | i j. i < length subjs \<and> j < length subjs \<and> overlaps_at subjs i j}"

lemma overlap_inner:
  "fst ` set (fold (\<lambda>j m. if i \<noteq> j \<and> subjectIsContainedIn (subjs ! i) (subjs ! j) \<and> \<not> smap_has m (subjs ! j)
       then smap_put (subjs ! j) (subjs ! i) m else m) js m) =
     fst ` set m \<union> {subjs ! j | j. j \<in> set js \<and> overlaps_at subjs i j}"
  (is "fst ` set (fold ?f js m) = _")
proof (induction js arbitrary: m)
  case (Cons j js)
  have "smap_has m k \<longleftrightarrow> k \<in> fst ` set m" for k
    by (simp add: smap_has_def smap_get_def map_of_eq_None_iff)
  then have "fst ` set (?f j m) = fst ` set m \<union> {subjs ! j | j'. j' = j \<and> overlaps_at subjs i j}"
    by (auto simp: overlaps_at_def fst_set_smap_put)
  with Cons.IH [of "?f j m"] show ?case by auto
qed simp

lemma overlap_keys: "fst ` set (overlap_map subjs) = containers subjs"
proof -
  let ?g = "\<lambda>i. fold (\<lambda>j m. if i \<noteq> j \<and> subjectIsContainedIn (subjs ! i) (subjs ! j) \<and> \<not> smap_has m (subjs ! j)
       then smap_put (subjs ! j) (subjs ! i) m else m) [0..<length subjs]"
  have "fst ` set (fold ?g is m) =
      fst ` set m \<union> {subjs ! j | i j. i \<in> set is \<and> j < length subjs \<and> overlaps_at subjs i j}" for "is" m
  proof (induction "is" arbitrary: m)
    case (Cons i "is")
    then show ?case using overlap_inner [of i subjs "[0..<length subjs]" m] by auto
  qed simp
  from this [of "[0..<length subjs]" "[]"] show ?thesis
    unfolding overlap_map_def containers_def by simp
qed

lemma overlap_map_ok: "smap_ok (overlap_map subjs)"
proof -
  let ?f = "\<lambda>i j m. if i \<noteq> j \<and> subjectIsContainedIn (subjs ! i) (subjs ! j) \<and> \<not> smap_has m (subjs ! j)
       then smap_put (subjs ! j) (subjs ! i) m else m"
  have inner: "smap_ok m \<Longrightarrow> smap_ok (fold (?f i) js m)" for i js m
    by (induction js arbitrary: m) (auto simp: smap_ok_put)
  have "smap_ok m \<Longrightarrow> smap_ok (fold (\<lambda>i. fold (?f i) [0..<length subjs]) is m)" for "is" m
    by (induction "is" arbitrary: m) (auto simp: inner)
  then show ?thesis unfolding overlap_map_def by simp
qed

lemma length_overlap_map: "length (overlap_map subjs) = card (containers subjs)"
  using smap.items_distinct [OF overlap_map_ok, of subjs] distinct_card
  unfolding overlap_keys [symmetric] by (metis length_map list.set_map)

text \<open>The first subject, in the order of the exports, that another export of subject \<open>k\<close> contains.\<close>

definition first_contained :: "string list \<Rightarrow> string \<Rightarrow> string option" where
  "first_contained subjs k =
     map_option ((!) subjs)
       (find (\<lambda>i. list_ex (\<lambda>j. subjs ! j = k \<and> overlaps_at subjs i j) [0..<length subjs]) [0..<length subjs])"

lemma overlap_inner_get:
  "smap_get (fold (\<lambda>j m. if i \<noteq> j \<and> subjectIsContainedIn (subjs ! i) (subjs ! j) \<and> \<not> smap_has m (subjs ! j)
       then smap_put (subjs ! j) (subjs ! i) m else m) js m) k =
     (case smap_get m k of
        Some v \<Rightarrow> Some v
      | None \<Rightarrow> if list_ex (\<lambda>j. subjs ! j = k \<and> overlaps_at subjs i j) js then Some (subjs ! i) else None)"
  by (induction js arbitrary: m) (auto simp: overlaps_at_def smap_has_def split: option.splits)

lemma overlap_map_get: "smap_get (overlap_map subjs) k = first_contained subjs k"
proof -
  let ?g = "\<lambda>i. fold (\<lambda>j m. if i \<noteq> j \<and> subjectIsContainedIn (subjs ! i) (subjs ! j) \<and> \<not> smap_has m (subjs ! j)
       then smap_put (subjs ! j) (subjs ! i) m else m) [0..<length subjs]"
  have "smap_get (fold ?g is m) k =
      (case smap_get m k of
         Some v \<Rightarrow> Some v
       | None \<Rightarrow> map_option ((!) subjs)
           (find (\<lambda>i. list_ex (\<lambda>j. subjs ! j = k \<and> overlaps_at subjs i j) [0..<length subjs]) is))" for "is" m
    by (induction "is" arbitrary: m) (simp_all add: overlap_inner_get split: option.splits)
  then show ?thesis unfolding overlap_map_def first_contained_def by simp
qed

lemma overlap_map_entries:
  "overlap_map subjs = map (\<lambda>k. (k, the (first_contained subjs k))) (sorted_list_of_set (containers subjs))"
proof -
  let ?m = "overlap_map subjs"
  have "map fst ?m = sorted_list_of_set (set (map fst ?m))"
    using smap.items_sorted [OF overlap_map_ok] by (simp only: sorted_list_of_set.idem_if_sorted_distinct strict_sorted_iff)
  then have keys: "map fst ?m = sorted_list_of_set (containers subjs)" by (simp add: overlap_keys)
  have "snd p = the (first_contained subjs (fst p))" if "p \<in> set ?m" for p
    using that smap.in_items_iff [OF overlap_map_ok, of "fst p" "snd p"] by (simp add: overlap_map_get)
  then have "?m = map (\<lambda>k. (k, the (first_contained subjs k))) (map fst ?m)"
    by (simp add: comp_def map_idI prod_eq_iff)
  with keys show ?thesis by simp
qed

lemma first_contained_iff:
  "first_contained subjs k = Some s \<longleftrightarrow>
     (\<exists>i < length subjs. s = subjs ! i \<and> (\<exists>j < length subjs. subjs ! j = k \<and> overlaps_at subjs i j) \<and>
        \<not> (\<exists>h < i. \<exists>j < length subjs. subjs ! j = k \<and> overlaps_at subjs h j))"
proof -
  have first: "find P [0..<n] = Some i \<longleftrightarrow> i < n \<and> P i \<and> \<not> (\<exists>h < i. P h)" for P and i n :: nat
    by (auto simp: find_Some_iff)
  have ex: "list_ex Q [0..<n] \<longleftrightarrow> (\<exists>j < n. Q j)" for Q and n :: nat
    by (auto simp: list_ex_iff)
  have map: "map_option f x = Some s \<longleftrightarrow> (\<exists>i. x = Some i \<and> s = f i)" for f :: "nat \<Rightarrow> string" and x
    by (cases x) auto
  show ?thesis unfolding first_contained_def map first ex by blast
qed

lemma containers_iff: "k \<in> containers subjs \<longleftrightarrow> (\<exists>s. first_contained subjs k = Some s)"
proof -
  have "k \<notin> containers subjs \<longleftrightarrow> first_contained subjs k = None"
    by (auto simp: first_contained_def find_None_iff list_ex_iff containers_def)
  then show ?thesis by auto
qed

lemma overlaps_errors:
  "overlaps kind subjs vr =
     vr @ map (\<lambda>(k, v). \<lparr>description = kind @ '' export subject '' @ quoted k @ '' already exports '' @ quoted v,
                         blocking = True, timeCheck = False\<rparr>) (overlap_map subjs)"
proof -
  have "fold (\<lambda>(k, v) vr. addError vr (kind @ '' export subject '' @ quoted k @ '' already exports '' @ quoted v))
      m vr = vr @ map (\<lambda>(k, v). \<lparr>description = kind @ '' export subject '' @ quoted k @ '' already exports '' @
        quoted v, blocking = True, timeCheck = False\<rparr>) m" for m
    by (induction m arbitrary: vr) (auto simp: addError_def add_def)
  then show ?thesis by (simp add: overlaps_def)
qed

section \<open>Checks that only append\<close>

lemmas appending_then = appending_comp [OF appending_validateSubject] appending_comp [OF appending_validateInfo]

lemma appending_validateAccountConfig: "appending (validateAccountConfig l maps)"
proof -
  have "appending (\<lambda>vr. if tieredLimits l \<noteq> []
      then error_if (smap_has (tieredLimits l) [])
             (''Tiered JetStream Limits can not contain a blank '' @ quoted [] @ '' tier name'')
             (error_if (jetStream l \<noteq> no_jetStream)
                ''JetStream Limits and tiered JetStream Limits are mutually exclusive'' vr)
      else vr)"
    by (intro appending_intros)
  then show ?thesis
    unfolding validateAccountConfig_def Let_def by (intro appending_fold appending_validateMapping)
qed

lemma appending_allowed_account: "appending (allowed_account L a acc)"
  unfolding allowed_account_def by (intro appending_intros)

lemma appending_error_when: "appending (error_if c d)"
  using appending_error_if(1) [OF appending_id] by simp

lemma appending_validateExternalAuthorization: "appending (validateExternalAuthorization L a)"
  unfolding validateExternalAuthorization_def Let_def
  by (intro appending_intros appending_allowed_account appending_error_when)

lemma appending_check_latency: "appending (check_latency e)"
proof (cases "latency e")
  case None
  have "check_latency e = (\<lambda>vr. vr)" by (rule ext) (simp add: check_latency_def None)
  then show ?thesis by (simp add: appending_id)
next
  case (Some sl)
  show ?thesis unfolding check_latency_def Some option.case Let_def
    by (intro appending_intros appending_then)
qed

lemma appending_check_token_position: "appending (check_token_position e)"
  unfolding check_token_position_def Let_def by (intro appending_intros)

lemma appending_check_export: "appending (check_export e)"
  unfolding check_export_def Let_def
  by (intro appending_intros appending_then appending_comp [OF appending_check_latency]
      appending_comp [OF appending_check_token_position])

lemma appending_overlaps: "appending (overlaps kind subjs)"
  by (simp add: appending_def overlaps_errors)

lemma export_loop:
  "fold export_step exs (sv, st, vr) =
     (sv @ map e_subject (filter (\<lambda>e. e_type e = Service) exs),
      st @ map e_subject (filter (\<lambda>e. e_type e \<noteq> Service) exs), fold check_export exs vr)"
  by (induction exs arbitrary: sv st vr) (simp_all add: export_step_def)

lemma validateExports_eq:
  "validateExports exs vr =
     overlaps ''stream'' (map e_subject (filter (\<lambda>e. e_type e \<noteq> Service) exs))
       (overlaps ''service'' (map e_subject (filter (\<lambda>e. e_type e = Service) exs)) (fold check_export exs vr))"
  by (simp add: validateExports_def export_loop)

lemma appending_validateExports: "appending (validateExports exs)"
  unfolding validateExports_eq
  by (intro appending_comp [OF appending_overlaps] appending_fold appending_check_export appending_id)

lemma appending_check_activation: "appending (check_activation L now acct i act)"
proof -
  have "appending (\<lambda>vr. if \<not> timeCheck x then add vr x else vr)" for x
    by (simp add: appending_def add_def)
  then show ?thesis
    unfolding check_activation_def Let_def
    by (intro appending_error_if appending_fold appending_id)
qed

section \<open>When checking imports throws\<close>

text \<open>The exception an import lets out, if any.\<close>

definition import_throw :: "lib \<Rightarrow> Import \<Rightarrow> exn option" where
  "import_throw L i =
     (if localSubject i \<noteq> [] \<and> (\<exists>tk \<in> set (splitOn (localSubject i) CHR ''.''). too_large tk)
      then Some StdOutOfRange
      else if i_token i = [] then None
      else case decodeActivationClaims L (i_token i) of
             Inl e \<Rightarrow> if is_jwt_error e then None else Some e | Inr _ \<Rightarrow> None)"

lemma check_import_Inl:
  "check_import i vr = Inl e \<longleftrightarrow> e = StdOutOfRange \<and> localSubject i \<noteq> [] \<and>
     (\<exists>tk \<in> set (splitOn (localSubject i) CHR ''.''). too_large tk)"
  by (auto simp: check_import_def Let_def bindE_Inl_iff validateRenamingSubject_throws)

lemma check_token_Inl:
  "check_token L now acct i vr = Inl e \<longleftrightarrow>
     i_token i \<noteq> [] \<and> decodeActivationClaims L (i_token i) = Inl e \<and> \<not> is_jwt_error e"
  by (auto simp: check_token_def split: sum.splits)

lemma import_step_Inl: "import_step L now acct st i = Inl e \<longleftrightarrow> import_throw L i = Some e"
proof -
  obtain m vr where st: "(if i_type i = Service then service_overlap i st else st) = (m, vr)"
    by (cases "if i_type i = Service then service_overlap i st else st")
  have "import_step L now acct st i = Inl e \<longleftrightarrow>
      check_import i vr = Inl e \<or> (\<exists>vr1. check_import i vr = Inr vr1 \<and> check_token L now acct i vr1 = Inl e)"
    unfolding import_step_def st by (auto simp: bindE_Inl_iff)
  moreover have "(\<exists>vr1. check_import i vr = Inr vr1) \<longleftrightarrow> \<not> (localSubject i \<noteq> [] \<and>
      (\<exists>tk \<in> set (splitOn (localSubject i) CHR ''.''). too_large tk))"
    using check_import_Inl [of i vr] by (cases "check_import i vr") auto
  ultimately show ?thesis
    by (auto simp: check_import_Inl check_token_Inl import_throw_def split: sum.splits)
qed

lemma import_loop_Inl:
  "foldE (import_step L now acct) st ims = Inl e \<longleftrightarrow>
     (\<exists>i. find (\<lambda>i. import_throw L i \<noteq> None) ims = Some i \<and> import_throw L i = Some e)"
proof (induction ims arbitrary: st)
  case (Cons i ims)
  show ?case
  proof (cases "import_step L now acct st i")
    case (Inl e')
    then have "import_throw L i = Some e'" by (simp add: import_step_Inl)
    with Inl show ?thesis by auto
  next
    case (Inr st')
    then have "import_throw L i = None" using import_step_Inl [of L now acct st i] by (metis Inl_Inr_False not_None_eq)
    with Inr Cons.IH show ?thesis by simp
  qed
qed simp

lemma import_throw_cases:
  assumes "import_throw L i = Some e"
  shows "e = StdOutOfRange \<or> e = type_error 302"
proof (cases "localSubject i \<noteq> [] \<and> (\<exists>tk \<in> set (splitOn (localSubject i) CHR ''.''). too_large tk)")
  case False
  with assms have "decodeActivationClaims L (i_token i) = Inl e" "\<not> is_jwt_error e"
    by (auto simp: import_throw_def split: if_splits sum.splits)
  with activation_class.decode_errors have "decodeEnvelope L (i_token i) = Inl e" by blast
  with \<open>\<not> is_jwt_error e\<close> decodeEnvelope_leak_iff [of L "i_token i" e] show ?thesis by blast
qed (use assms in \<open>auto simp: import_throw_def\<close>)

lemma validateExportsImports_Inl:
  "validateExportsImports L now exs ims acct vr = Inl e \<longleftrightarrow>
     (\<exists>i. find (\<lambda>i. import_throw L i \<noteq> None) ims = Some i \<and> import_throw L i = Some e)"
  by (auto simp: validateExportsImports_def bindE_Inl_iff import_loop_Inl split: prod.splits)

section \<open>What the checks of imports append\<close>

lemma appendingE_check_import: "appendingE (check_import i)"
proof -
  let ?pre = "\<lambda>vr. validateSubject (i_subject i)
    (warning_if (i_to i \<noteq> []) ''the field to has been deprecated (use LocalSubject instead)''
      (error_if (i_account i = []) ''account to import from is not specified''
        (error_if (i_type i = Service \<and> i_allowTrace i) ''AllowTrace only valid for stream import''
          (error_if (i_type i \<noteq> Service \<and> i_type i \<noteq> Stream)
            (''invalid import type: '' @ quoted (exportTypeStr (i_type i))) vr))))"
  have pre: "appending ?pre" by (intro appending_intros appending_then)
  show ?thesis
    unfolding check_import_def Let_def
    by (intro appending_intros appendingE_comp [OF appendingE_validateRenamingSubject pre] pre)
qed

lemma appendingE_check_token: "appendingE (check_token L now acct i)"
proof (cases "decodeActivationClaims L (i_token i)")
  case (Inl e)
  show ?thesis unfolding check_token_def Inl sum.case by (intro appending_intros)
next
  case (Inr act)
  show ?thesis unfolding check_token_def Inr sum.case by (intro appending_intros appending_check_activation)
qed

lemma service_overlap_appends:
  "service_overlap i (m, vr) = (case service_overlap i (m, []) of (m', is) \<Rightarrow> (m', vr @ is))"
proof -
  let ?s = "service_subject i"
  define seen where "seen = (case smap_get m (i_account i) of None \<Rightarrow> [] | Some ss \<Rightarrow> ss)"
  let ?run = "fold (\<lambda>other. error_if (subjectIsContainedIn ?s other \<or> subjectIsContainedIn other ?s)
      (''overlapping subject namespace for '' @ quoted ?s @ '' and '' @ quoted other @
       '' in same account '' @ quoted (i_account i))) seen"
  have "appending ?run" by (intro appending_fold [OF _ appending_id] appending_error_when)
  from appendingD [OF this, of vr] show ?thesis
    by (auto simp: service_overlap_def Let_def seen_def addError_def add_def)
qed

text \<open>The findings of one import, with the map of subjects it was checked against.\<close>

lemma import_step_appends:
  "import_step L now acct (m, vr) i =
     (case import_step L now acct (m, []) i of Inl e \<Rightarrow> Inl e | Inr (m', is) \<Rightarrow> Inr (m', vr @ is))"
proof -
  have run: "appendingE (\<lambda>vr. bindE (check_import i vr) (check_token L now acct i))"
    by (intro appendingE_bind appendingE_check_import appendingE_check_token)
  obtain m1 is1 where st: "(if i_type i = Service then service_overlap i (m, []) else (m, [])) = (m1, is1)"
    by (metis prod.exhaust)
  have st': "(if i_type i = Service then service_overlap i (m, vr) else (m, vr)) = (m1, vr @ is1)"
    using st service_overlap_appends [of i m vr] by (auto split: if_splits)
  have eq: "bindE (check_import i v) (\<lambda>vr1. bindE (check_token L now acct i vr1) (\<lambda>vr2. Inr (m1, vr2))) =
      bindE (bindE (check_import i v) (check_token L now acct i)) (\<lambda>vr2. Inr (m1, vr2))" for v
    by (cases "check_import i v") simp_all
  show ?thesis
    unfolding import_step_def st st' prod.case eq
    using appendingE_eq [OF run, of "vr @ is1"] appendingE_eq [OF run, of is1]
    by (simp split: sum.splits)
qed

lemma import_loop_appends:
  "foldE (import_step L now acct) (m, vr) ims =
     (case foldE (import_step L now acct) (m, []) ims of Inl e \<Rightarrow> Inl e | Inr (m', is) \<Rightarrow> Inr (m', vr @ is))"
proof (induction ims arbitrary: m vr)
  case (Cons i ims)
  show ?case
  proof (cases "import_step L now acct (m, []) i")
    case (Inr st)
    obtain m1 is1 where st: "st = (m1, is1)" by (cases st)
    show ?thesis
      using Cons.IH [of m1 "vr @ is1"] Cons.IH [of m1 is1] import_step_appends [of L now acct m vr i]
      by (simp add: Inr st split: sum.splits prod.splits)
  qed (simp add: import_step_appends [of L now acct m vr i])
qed simp

definition validateImports :: "lib \<Rightarrow> int64 \<Rightarrow> string \<Rightarrow> Import list \<Rightarrow> results \<Rightarrow> exn + results" where
  "validateImports L now acct ims vr =
     bindE (foldE (import_step L now acct) ([], vr) ims) (\<lambda>(_, vr1). Inr vr1)"

lemma appendingE_validateImports: "appendingE (validateImports L now acct ims)"
  unfolding appendingE_def validateImports_def
  by (subst import_loop_appends) (simp split: sum.splits prod.splits)

lemma validateExportsImports_eq:
  "validateExportsImports L now exs ims acct vr = validateImports L now acct ims (validateExports exs vr)"
  by (simp add: validateExportsImports_def validateImports_def)

lemma appendingE_validateExportsImports: "appendingE (validateExportsImports L now exs ims acct)"
  unfolding validateExportsImports_eq
  by (rule appendingE_comp [OF appendingE_validateImports appending_validateExports])

lemma validateExportsImports_Inr:
  assumes "validateExportsImports L now exs ims acct vr = Inr vr'"
  shows "\<exists>is. vr' = validateExports exs vr @ is"
  using assms appendingE_D [OF appendingE_validateImports] unfolding validateExportsImports_eq by blast

text \<open>Nothing blocking in the result: nothing blocking before, in any export, and no overlap.\<close>

lemma validateExportsImports_accepts:
  assumes "validateExportsImports L now exs ims acct vr = Inr vr'" and "\<not> isBlocking vr' False"
  shows "\<not> isBlocking vr False" and "\<forall>e \<in> set exs. \<not> isBlocking (check_export e []) False"
    and "containers (map e_subject (filter (\<lambda>e. e_type e = Service) exs)) = {}"
    and "containers (map e_subject (filter (\<lambda>e. e_type e \<noteq> Service) exs)) = {}"
proof -
  have none: "isBlocking (overlaps kind subjs []) False \<longleftrightarrow> containers subjs \<noteq> {}" for kind subjs
    unfolding overlap_keys [symmetric] by (cases "overlap_map subjs") (auto simp: overlaps_errors)
  have "\<not> isBlocking (validateExports exs vr) False"
    using validateExportsImports_Inr [OF assms(1)] assms(2) by auto
  then have "\<not> isBlocking (fold check_export exs vr) False"
    and 3: "containers (map e_subject (filter (\<lambda>e. e_type e = Service) exs)) = {}"
    and 4: "containers (map e_subject (filter (\<lambda>e. e_type e \<noteq> Service) exs)) = {}"
    unfolding validateExports_eq
    using appending_blocking [OF appending_overlaps] none by metis+
  then show "\<not> isBlocking vr False" "\<forall>e \<in> set exs. \<not> isBlocking (check_export e []) False"
    "containers (map e_subject (filter (\<lambda>e. e_type e = Service) exs)) = {}"
    "containers (map e_subject (filter (\<lambda>e. e_type e \<noteq> Service) exs)) = {}"
    using appending_fold_blocking [where g = check_export and xs = exs and vr = vr and inc = False,
      OF appending_check_export] by auto
qed

text \<open>An export that passes can be read back.\<close>

lemma accepted_export_readable:
  assumes "\<not> isBlocking (check_export e []) False"
  shows "readable_export e"
proof (cases "latency e")
  case None
  then show ?thesis by (simp add: readable_export_def)
next
  case (Some sl)
  have "isBlocking (check_latency e vr) False \<Longrightarrow> isBlocking (check_export e []) False"
    if "vr = error_if (e_type e = Stream \<and> e_allowTrace e) ''AllowTrace only valid for service export''
      (error_if (e_type e = Stream \<and> responseType e \<noteq> [])
        (''invalid response type for stream: '' @ quoted (responseType e))
      (error_if (e_type e = Service \<and> responseType e \<noteq> [] \<and> responseType e \<noteq> ''Singleton'' \<and>
          responseType e \<noteq> ''Stream'' \<and> responseType e \<noteq> ''Chunked'')
        (''invalid response type for service: '' @ quoted (responseType e))
      (error_if (e_type e \<noteq> Service \<and> e_type e \<noteq> Stream)
        (''invalid export type: '' @ quoted (exportTypeStr (e_type e))) [])))" for vr
    unfolding check_export_def Let_def that
    by (intro appending_blockingI [OF appending_validateInfo] appending_blockingI [OF appending_error_when]
        appending_blockingI [OF appending_check_token_position]
        appending_blockingI [OF appending_validateSubject])
  with assms have "\<not> isBlocking (check_latency e []) False"
    using appending_blocking [OF appending_check_latency] by blast
  then have "\<not> (sampling sl \<noteq> 0 \<and> (sint (sampling sl) < 1 \<or> 100 < sint (sampling sl)))"
    using appending_blockingI [OF appending_validateSubject]
    by (auto simp: check_latency_def Some Let_def error_if_blocking)
  then show ?thesis by (auto simp: readable_export_def Some sampling_ok_def)
qed

section \<open>What the mappings that pass look like\<close>

lemma mapping_findings_block:
  "\<forall>i \<in> set (validateMapping entry []). blocking i"
proof -
  have "\<forall>i \<in> set (snd (snd (fold (mapping_step f) wms (pc, tot, vr)))). blocking i"
    if "\<forall>i \<in> set vr. blocking i" for f wms pc tot vr
    using that
  proof (induction wms arbitrary: pc tot vr)
    case (Cons wm wms)
    obtain pc1 tot1 vr1 where step: "mapping_step f wm (pc, tot, vr) = (pc1, tot1, vr1)"
      by (cases "mapping_step f wm (pc, tot, vr)")
    then have "\<forall>i \<in> set vr1. blocking i"
      using Cons.prems by (auto simp: mapping_step_def Let_def error_if_def addError_def add_def split: if_splits)
    with Cons.IH step show ?case by simp
  qed simp
  moreover obtain pc' tot' is' where
    "fold (mapping_step (fst entry)) (snd entry) ([], 0, []) = (pc', tot', is')"
    by (cases "fold (mapping_step (fst entry)) (snd entry) ([], 0 :: uint32, [])")
  ultimately have "\<forall>i \<in> set is'. blocking i" by (metis empty_iff empty_set snd_conv)
  then show ?thesis
    using \<open>fold _ _ _ = _\<close>
    by (auto simp: validateMapping_def error_if_def addError_def add_def case_prod_unfold)
qed

text \<open>All weights at most 100, and at most 100 in all for each cluster and for no cluster.\<close>

definition weights_ok :: "WeightedMapping list \<Rightarrow> bool" where
  "weights_ok wms \<longleftrightarrow> list_all (\<lambda>wm. weight_of wm \<le> 100) wms \<and>
     (\<forall>c. c = [] \<or> cluster_sum c wms \<le> 100) \<and> cluster_sum [] wms mod 2 ^ 32 \<le> 100"

lemma accepted_config:
  assumes "\<not> isBlocking (validateAccountConfig l maps vr) False"
  shows "tieredLimits l = [] \<or> jetStream l = no_jetStream" and "\<forall>(f, wms) \<in> set maps. weights_ok wms"
proof -
  have 1: "\<not> isBlocking (if tieredLimits l \<noteq> []
      then error_if (smap_has (tieredLimits l) [])
             (''Tiered JetStream Limits can not contain a blank '' @ quoted [] @ '' tier name'')
             (error_if (jetStream l \<noteq> no_jetStream)
                ''JetStream Limits and tiered JetStream Limits are mutually exclusive'' vr)
      else vr) False"
    and 2: "\<forall>e \<in> set maps. \<not> isBlocking (validateMapping e []) False"
    using assms appending_fold_blocking [where g = validateMapping and inc = False, OF appending_validateMapping]
    unfolding validateAccountConfig_def Let_def by blast+
  show "tieredLimits l = [] \<or> jetStream l = no_jetStream"
    using 1 by (auto simp: error_if_blocking split: if_splits)
  have "weights_ok wms" if "(f, wms) \<in> set maps" for f wms
  proof -
    have "validateMapping (f, wms) [] = []"
      using 2 that mapping_findings_block [of "(f, wms)"] by (fastforce simp: isBlocking_iff)
    then show ?thesis by (simp add: validateMapping_passes weights_ok_def list_all_iff)
  qed
  then show "\<forall>(f, wms) \<in> set maps. weights_ok wms" by auto
qed

section \<open>Properties\<close>

text \<open>
  C30: Weighted mappings. The check of a mapping adds nothing exactly when every weight (0 counts as 100)
  is at most 100 and so is the sum of each cluster, and the sum of the destinations without a
  cluster is at most 100 in the 32-bit counter the code adds up in. The counters of the clusters
  cannot wrap unreported; the other one is only looked at after the loop, so it can.
\<close>

theorem mapping_weights_exact:
  "(validateMapping (f, wms) [] = [] \<longleftrightarrow> weights_ok wms) \<and>
   validateMapping (f, wms) vr = vr @ validateMapping (f, wms) [] \<and>
   cluster_sum [] wms \<le> 255 * length wms"
proof (intro conjI)
  show "validateMapping (f, wms) [] = [] \<longleftrightarrow> weights_ok wms"
    by (simp add: validateMapping_passes weights_ok_def list_all_iff)
  show "validateMapping (f, wms) vr = vr @ validateMapping (f, wms) []"
    by (rule appendingD [OF appending_validateMapping])
  show "cluster_sum [] wms \<le> 255 * length wms"
  proof (induction wms)
    case (Cons wm wms)
    then show ?case using weight_of_le [of wm] by simp
  qed simp
qed

text \<open>
  C31: Overlapping exports. The overlap check appends exactly these findings: for every subject \<open>k\<close> that contains
  the subject of another export (as \<open>subjectIsContainedIn\<close> decides), in byte order and once each, a blocking one
  which says that \<open>k\<close> already exports the first subject, in the order of the exports, that it contains (no
  export before that one has an overlap with \<open>k\<close>). So a list of subjects passes exactly when none contains another one's. The exports of an account are checked one
  by one, then the services against each other, then the streams.
\<close>

theorem export_overlaps_exact:
  "overlaps kind subjs vr =
     vr @ map (\<lambda>k. \<lparr>description = kind @ '' export subject '' @ quoted k @ '' already exports '' @
                       quoted (the (first_contained subjs k)), blocking = True, timeCheck = False\<rparr>)
            (sorted_list_of_set (containers subjs)) \<and>
   (first_contained subjs k = Some s \<longleftrightarrow>
      (\<exists>i < length subjs. s = subjs ! i \<and> (\<exists>j < length subjs. subjs ! j = k \<and> overlaps_at subjs i j) \<and>
         \<not> (\<exists>h < i. \<exists>j < length subjs. subjs ! j = k \<and> overlaps_at subjs h j))) \<and>
   (k \<in> containers subjs \<longleftrightarrow> (\<exists>s. first_contained subjs k = Some s)) \<and>
   length (overlaps kind subjs vr) = length vr + card (containers subjs) \<and>
   length (errors (overlaps kind subjs vr)) = length (errors vr) + card (containers subjs) \<and>
   (overlaps kind subjs vr = vr \<longleftrightarrow>
     \<not> (\<exists>i < length subjs. \<exists>j < length subjs. i \<noteq> j \<and> subjectIsContainedIn (subjs ! i) (subjs ! j))) \<and>
   validateExports exs vr =
     overlaps ''stream'' (map e_subject (filter (\<lambda>e. e_type e \<noteq> Service) exs))
       (overlaps ''service'' (map e_subject (filter (\<lambda>e. e_type e = Service) exs)) (fold check_export exs vr))"
proof -
  have "overlap_map subjs = [] \<longleftrightarrow> containers subjs = {}"
    using overlap_keys [of subjs] by (metis image_is_empty set_empty)
  also have "\<dots> \<longleftrightarrow> \<not> (\<exists>i < length subjs. \<exists>j < length subjs.
      i \<noteq> j \<and> subjectIsContainedIn (subjs ! i) (subjs ! j))"
    by (auto simp: containers_def overlaps_at_def)
  finally have none: "overlaps kind subjs vr = vr \<longleftrightarrow>
      \<not> (\<exists>i < length subjs. \<exists>j < length subjs. i \<noteq> j \<and> subjectIsContainedIn (subjs ! i) (subjs ! j))"
    by (auto simp: overlaps_errors)
  have all: "overlaps kind subjs vr =
     vr @ map (\<lambda>k. \<lparr>description = kind @ '' export subject '' @ quoted k @ '' already exports '' @
                       quoted (the (first_contained subjs k)), blocking = True, timeCheck = False\<rparr>)
            (sorted_list_of_set (containers subjs))"
    by (simp add: overlaps_errors overlap_map_entries comp_def)
  have counts: "length (overlaps kind subjs vr) = length vr + card (containers subjs)"
    "length (errors (overlaps kind subjs vr)) = length (errors vr) + card (containers subjs)"
    by (simp_all add: overlaps_errors length_overlap_map errors_def comp_def case_prod_unfold)
  show ?thesis
    by (intro conjI all first_contained_iff containers_iff counts none validateExports_eq)
qed

end
