(* ===== verification/AccountClaims.thy ===== *)
theory AccountClaims
  imports AccountState AccountChecks
begin

text \<open>
  Checking, encoding and decoding accounts (\<^verbatim>\<open>src/account_claims.cpp\<close>). The class implements the interface
  \<open>claims_class\<close>; its report is a step that may throw, because the check of its imports may.
\<close>

section \<open>Checks\<close>

definition limitsEmpty :: "AccountLimits \<Rightarrow> bool" where
  "limitsEmpty l \<longleftrightarrow>
     l_subs l = 0 \<and> l_data l = 0 \<and> l_payload l = 0 \<and> l_imports l = 0 \<and> l_exports l = 0 \<and>
     \<not> wildcardExports l \<and> \<not> disallowBearer l \<and> conn l = 0 \<and> leafNodeConn l = 0 \<and>
     jetStream l = no_jetStream \<and> tieredLimits l = []"

definition too_many_imports :: string where
  "too_many_imports = ''the account contains more imports than allowed by the operator''"

definition check_counts :: "account_claims \<Rightarrow> results \<Rightarrow> results" where
  "check_counts c vr =
     (let l = a_limits c;
          nImports = int (length (acc_imports c));
          nExports = int (length (acc_exports c));
          vr1 = error_if (\<not> limitsEmpty l \<and> 0 \<le> sint (l_imports l) \<and> sint (l_imports l) < nImports)
                  too_many_imports vr;
          vr2 = error_if (l_imports l \<noteq> - 1 \<and> sint (l_imports l) < nImports) too_many_imports vr1
      in if l_exports l \<noteq> - 1
         then let vr3 = error_if (sint (l_exports l) < nExports)
                          ''the account contains more exports than allowed by the operator'' vr2
              in if \<not> wildcardExports l
                 then fold (\<lambda>ex. error_if (subjectHasWildcards (e_subject ex))
                        ''the account contains wildcard exports that are not allowed by the operator'')
                        (acc_exports c) vr3
                 else vr3
         else vr2)"

definition check_signing_key :: "lib \<Rightarrow> account_claims \<Rightarrow> string \<Rightarrow> results \<Rightarrow> results" where
  "check_signing_key L c k vr =
     (if smap_has (scopes c) k
      then error_if (\<not> IsValidPublicAccountKey L k) (k @ '' is not an account public key'') vr
      else error_if (\<not> IsValidPublicAccountKey L k)
             (quoted k @ '' is not a valid account signing key'') vr)"

definition AccountClaims_report :: "lib \<Rightarrow> int64 \<Rightarrow> account_claims \<Rightarrow> results \<Rightarrow> exn + results" where
  "AccountClaims_report L now c vr =
     (let vr1 = addTimeChecks now vr (expires c) (notBefore c);
          vr2 = validateAccountConfig (a_limits c) (mappings c) vr1
      in bindE (validateExportsImports L now (acc_exports c) (acc_imports c) (subject c) vr2) (\<lambda>vr3.
         let vr4 = validatePermissions (defaultPermissions c) vr3;
             vr5 = validateExternalAuthorization L (authorization c) vr4;
             vr6 = check_counts c vr5;
             vr7 = fold (check_signing_key L c) (signingKeys c) vr6;
             vr8 = validateInfo (a_description c) (a_infoURL c) vr7
         in Inr (warning_if (IsValidPublicAccountKey L (issuer c) \<and> \<not> limitsEmpty (a_limits c))
              (''self-signed account JWTs shouldn'' @ [CHR 0x27] @ ''t contain operator limits'') vr8)))"

definition AccountClaims_checkStructure :: "lib \<Rightarrow> account_claims \<Rightarrow> exn + unit" where
  "AccountClaims_checkStructure L c =
     bindE (throw_if (subject c = []) (InvalidClaimsError ''Account subject cannot be empty'')) (\<lambda>_.
     bindE (throw_if (issuer c = [])
              (InvalidClaimsError ''Account issuer cannot be empty (must be signed by Operator)'')) (\<lambda>_.
     bindE (checkSubjectKind L (subject c) CHR ''A'' ''Account'') (\<lambda>_.
       checkIssuerKind L (issuer c) ''OA'' ''Account'')))"

definition AccountClaims_validate :: "lib \<Rightarrow> int64 \<Rightarrow> account_claims \<Rightarrow> exn + unit" where
  "AccountClaims_validate L now c =
     bindE (AccountClaims_checkStructure L c) (\<lambda>_.
     bindE (AccountClaims_report L now c []) throwFirstBlocking)"

section \<open>Encoding\<close>

definition permissionsToJson :: "Permissions \<Rightarrow> json" where
  "permissionsToJson p =
     JObject (putOpt ''resp'' respToJson (resp p)
       (smap_of [(''pub'', permissionToJson (pub p)), (''sub'', permissionToJson (sub p))]))"

definition signingKeyToJson :: "UserScope smap \<Rightarrow> string \<Rightarrow> json" where
  "signingKeyToJson sc k = (case smap_get sc k of Some s \<Rightarrow> userScopeToJson s | None \<Rightarrow> JString k)"

text \<open>\<open>std::stable_sort\<close> by subject and \<open>std::sort\<close> of the keys.\<close>

definition AccountClaims_nats :: "account_claims \<Rightarrow> json smap" where
  "AccountClaims_nats c =
     (let n0 = smap_put ''limits'' (accountLimitsToJson (a_limits c)) (natsRaw c);
          n1 = smap_put ''default_permissions'' (permissionsToJson (defaultPermissions c)) n0;
          n2 = setOrErase (mappings c \<noteq> []) ''mappings''
                 (JObject (smap_of (smap_map mappingsToJson (mappings c)))) n1;
          n3 = setOrErase (acc_exports c \<noteq> []) ''exports''
                 (JArray (map exportToJson (sort_key e_subject (acc_exports c)))) n2;
          n4 = setOrErase (acc_imports c \<noteq> []) ''imports''
                 (JArray (map importToJson (sort_key i_subject (acc_imports c)))) n3;
          n5 = setOrErase (revocations c \<noteq> []) ''revocations'' (revocationsToJson (revocations c)) n4;
          n6 = smap_put ''authorization'' (externalAuthorizationToJson (authorization c)) n5;
          n7 = setOrErase (a_description c \<noteq> []) ''description'' (JString (a_description c)) n6;
          n8 = setOrErase (a_infoURL c \<noteq> []) ''info_url'' (JString (a_infoURL c)) n7;
          n9 = setOrErase (signingKeys c \<noteq> []) ''signing_keys''
                 (JArray (map (signingKeyToJson (scopes c)) (sort (signingKeys c)))) n8
      in finishNats ''account'' (tags c) n9)"

definition AccountClaims_encodeWithSigner ::
  "lib \<Rightarrow> int64 \<Rightarrow> account_claims \<Rightarrow> string \<Rightarrow> signer \<Rightarrow> (exn + string) \<times> account_claims" where
  "AccountClaims_encodeWithSigner L now c issuerPublicKey sign =
     (case checkIssuerKind L issuerPublicKey ''OA'' ''Account'' of
        Inl e \<Rightarrow> (Inl e, c)
      | Inr _ \<Rightarrow>
          (let c' = c\<lparr>issuer := issuerPublicKey, issuedAt := now\<rparr>
           in (bindE (AccountClaims_validate L now c') (\<lambda>_.
                 finishEncode L issuerPublicKey sign (basePayload c') (AccountClaims_nats c')), c')))"

definition AccountClaims_encode ::
  "lib \<Rightarrow> int64 \<Rightarrow> account_claims \<Rightarrow> string \<Rightarrow> (exn + string) \<times> account_claims" where
  "AccountClaims_encode L now c seed =
     (case FromSeed L seed of
        Inl e \<Rightarrow> (Inl e, c)
      | Inr keypair \<Rightarrow> AccountClaims_encodeWithSigner L now c (publicString keypair) (signerFor keypair))"

section \<open>Decoding\<close>

definition limitsField :: "json \<Rightarrow> exn + AccountLimits" where
  "limitsField nats =
     bindE (objectField nats ''limits'') (\<lambda>v.
       case v of None \<Rightarrow> Inr zero_account | Some lim \<Rightarrow> accountLimitsFromJson lim)"

definition defaultPermissionsField :: "json \<Rightarrow> exn + Permissions" where
  "defaultPermissionsField nats =
     bindE (objectField nats ''default_permissions'') (\<lambda>v.
       case v of
         None \<Rightarrow> Inr no_permissions
       | Some dp \<Rightarrow>
           bindE (permissionField dp ''pub'') (\<lambda>pb.
           bindE (permissionField dp ''sub'') (\<lambda>sb.
           bindE (respField dp) (\<lambda>rs. Inr \<lparr>pub = pb, sub = sb, resp = rs\<rparr>))))"

definition mappingsField :: "json \<Rightarrow> exn + WeightedMapping list smap" where
  "mappingsField nats =
     bindE (objectField nats ''mappings'') (\<lambda>v.
       case v of None \<Rightarrow> Inr [] | Some maps \<Rightarrow> readItems mappingsFromJson (fields_of maps))"

definition listField :: "(json \<Rightarrow> exn + 'a) \<Rightarrow> json \<Rightarrow> string \<Rightarrow> exn + 'a list" where
  "listField rd nats k =
     bindE (arrayField nats k) (\<lambda>a. case a of None \<Rightarrow> Inr [] | Some xs \<Rightarrow> mapE rd xs)"

definition authorizationField :: "json \<Rightarrow> exn + ExternalAuthorization" where
  "authorizationField nats =
     bindE (objectField nats ''authorization'') (\<lambda>v.
       case v of None \<Rightarrow> Inr no_authorization | Some o' \<Rightarrow> externalAuthorizationFromJson o')"

definition unknown_signing_key :: exn where
  "unknown_signing_key = InvalidClaimsError ''unknown signing key entry in account JWT''"

fun readSigningKey :: "account_claims \<Rightarrow> json \<Rightarrow> exn + account_claims" where
  "readSigningKey c (JString k) = Inr (AccountClaims_addSigningKey k c)"
| "readSigningKey c (JObject m) =
     bindE (value_string (JObject m) ''kind'' []) (\<lambda>kd.
       if kd = ''user_scope''
       then bindE (userScopeFromJson (JObject m)) (\<lambda>s. Inr (setScope s c))
       else Inl unknown_signing_key)"
| "readSigningKey c _ = Inl unknown_signing_key"

definition readSigningKeys :: "json \<Rightarrow> account_claims \<Rightarrow> exn + account_claims" where
  "readSigningKeys nats c =
     bindE (arrayField nats ''signing_keys'') (\<lambda>a.
       case a of None \<Rightarrow> Inr c | Some ks \<Rightarrow> foldE readSigningKey c ks)"

definition readAccount :: "lib \<Rightarrow> json \<Rightarrow> exn + account_claims" where
  "readAccount L p =
     bindE (natsOf p) (\<lambda>nats.
     bindE (checkType nats ''account'') (\<lambda>_.
     bindE (at_string p ''sub'') (\<lambda>sbj.
     bindE (at_string p ''iss'') (\<lambda>iss.
     bindE (intField p ''iat'' 0) (\<lambda>iat.
     bindE (limitsField nats) (\<lambda>lim.
     bindE (defaultPermissionsField nats) (\<lambda>dp.
     bindE (mappingsField nats) (\<lambda>maps.
     bindE (listField exportFromJson nats ''exports'') (\<lambda>exs.
     bindE (listField importFromJson nats ''imports'') (\<lambda>ims.
     bindE (revocationsField nats) (\<lambda>rev.
     bindE (authorizationField nats) (\<lambda>au.
     bindE (value_string nats ''description'' []) (\<lambda>de.
     bindE (value_string nats ''info_url'' []) (\<lambda>iu.
     bindE (readName p) (\<lambda>nm.
     bindE (intField p ''exp'' 0) (\<lambda>ex.
     bindE (value_string p ''aud'' []) (\<lambda>aud.
     bindE (intField p ''nbf'' 0) (\<lambda>nb.
     bindE (stringsField nats ''tags'') (\<lambda>tg.
     bindE (readSigningKeys nats
              \<lparr>natsRaw = fields_of nats, subject = sbj, issuer = iss, name = nm, issuedAt = iat,
               expires = ex, audience = aud, notBefore = nb, tags = tg, a_limits = lim,
               defaultPermissions = dp, mappings = maps, acc_exports = exs, acc_imports = ims,
               revocations = rev, authorization = au, a_description = de, a_infoURL = iu,
               signingKeys = [], scopes = []\<rparr>) (\<lambda>c.
     bindE (AccountClaims_checkStructure L c) (\<lambda>_. Inr c)))))))))))))))))))))"

definition decodeAccountClaims :: "lib \<Rightarrow> string \<Rightarrow> exn + account_claims" where
  "decodeAccountClaims L jwt =
     bindE (decodeEnvelope L jwt) (\<lambda>env. guardJson L (readAccount L (payload env)))"

section \<open>Reading back what was written\<close>

lemma sort_key_Nil [simp]: "sort_key f xs = [] \<longleftrightarrow> xs = []"
  by (metis length_0_conv length_sort)

lemma listField_roundtrip:
  assumes "jget j k = (if xs \<noteq> [] then Some (JArray (map wr ys)) else None)" and "ys = [] \<longleftrightarrow> xs = []"
    and "\<And>x. x \<in> set ys \<Longrightarrow> rd (json_norm (wr x)) = Inr (nf x)"
  shows "listField rd (json_norm j) k = Inr (map nf ys)"
proof (cases "xs = []")
  case True
  then show ?thesis using assms(1,2) by (simp add: listField_def arrayField_def)
next
  case False
  have "mapE rd (map (\<lambda>x. json_norm (wr x)) ys) = Inr (map nf ys)"
    unfolding mapE_map by (rule mapE_Inr_map) (rule assms(3))
  then show ?thesis using False assms(1) by (simp add: listField_def arrayField_def comp_def)
qed

lemma limitsField_roundtrip:
  "jget j ''limits'' = Some (accountLimitsToJson l) \<Longrightarrow> limitsField (json_norm j) = Inr (reread_account_limits l)"
  using limits_roundtrip [of l]
  by (simp add: limitsField_def accountLimitsToJson_def Let_def written_object del: json_norm.simps)

lemma authorizationField_roundtrip:
  "jget j ''authorization'' = Some (externalAuthorizationToJson a) \<Longrightarrow> authorizationField (json_norm j) = Inr a"
  using authorization_roundtrip [of a]
  by (simp add: authorizationField_def externalAuthorizationToJson_def Let_def written_object del: json_norm.simps)

lemma defaultPermissionsField_roundtrip:
  assumes "jget j ''default_permissions'' = Some (permissionsToJson p)"
  shows "defaultPermissionsField (json_norm j) = Inr p"
proof -
  have o': "objectField (json_norm j) ''default_permissions'' = Inr (Some (json_norm (permissionsToJson p)))"
    using assms by (simp add: permissionsToJson_def written_object del: json_norm.simps)
  have "jget (permissionsToJson p) ''pub'' = Some (permissionToJson (pub p))"
    "jget (permissionsToJson p) ''sub'' = Some (permissionToJson (sub p))"
    "jget (permissionsToJson p) ''resp'' = map_option respToJson (resp p)"
    by (simp_all add: permissionsToJson_def putOpt_get smap_get_of)
  then show ?thesis
    by (cases p) (simp add: defaultPermissionsField_def o' permissionField_roundtrip respField_roundtrip)
qed

lemma mappingsField_roundtrip:
  "jget j ''mappings'' = (if m \<noteq> [] then Some (JObject (smap_of (smap_map mappingsToJson m))) else None) \<Longrightarrow>
     mappingsField (json_norm j) = Inr (smap_of m)"
  using written_items [of j "''mappings''" m mappingsToJson mappingsFromJson "\<lambda>t. t"] mappings_roundtrip
  by (simp add: mappingsField_def)

text \<open>Reading the keys that were written; the template of a scope takes its reread form.\<close>

definition reread_key :: "UserScope smap \<Rightarrow> string \<Rightarrow> account_claims \<Rightarrow> account_claims" where
  "reread_key sc k c =
     (case smap_get sc k of
        None \<Rightarrow> AccountClaims_addSigningKey k c
      | Some s \<Rightarrow> setScope (reread_scope s) c)"

lemma readSigningKey_roundtrip:
  "readSigningKey c (json_norm (signingKeyToJson sc k)) = Inr (reread_key sc k c)"
proof (cases "smap_get sc k")
  case None
  then show ?thesis by (simp add: signingKeyToJson_def reread_key_def)
next
  case (Some s)
  obtain m where m: "json_norm (userScopeToJson s) = JObject m" by (simp add: userScopeToJson_def)
  have "value_string (json_norm (userScopeToJson s)) ''kind'' [] = Inr ''user_scope''"
    by (simp add: userScopeToJson_def smap_get_of del: json_norm.simps)
  then show ?thesis
    using scope_roundtrip [of s] Some by (simp add: signingKeyToJson_def reread_key_def m)
qed

lemma readSigningKeys_roundtrip:
  assumes "jget j ''signing_keys'' = (if xs \<noteq> [] then Some (JArray (map (signingKeyToJson sc) ks)) else None)"
    and "ks = [] \<longleftrightarrow> xs = []"
  shows "readSigningKeys (json_norm j) c = Inr (fold (reread_key sc) ks c)"
proof -
  have "foldE readSigningKey c (map json_norm (map (signingKeyToJson sc) ks)) = Inr (fold (reread_key sc) ks c)" for c
    by (induction ks arbitrary: c) (simp_all add: readSigningKey_roundtrip)
  then show ?thesis using assms by (cases "xs = []") (simp_all add: readSigningKeys_def arrayField_def)
qed

section \<open>The class implements the interface\<close>

lemma AccountClaims_nats_fields:
  defines "j \<equiv> \<lambda>c. JObject (AccountClaims_nats c)"
  shows "jget (j c) ''type'' = Some (JString ''account'')"
    and "jget (j c) ''version'' = Some (JInteger (word_of_int JWT_VERSION))"
    and "jget (j c) ''limits'' = Some (accountLimitsToJson (a_limits c))"
    and "jget (j c) ''default_permissions'' = Some (permissionsToJson (defaultPermissions c))"
    and "jget (j c) ''mappings'' =
           (if mappings c \<noteq> [] then Some (JObject (smap_of (smap_map mappingsToJson (mappings c)))) else None)"
    and "jget (j c) ''exports'' =
           (if acc_exports c \<noteq> [] then Some (JArray (map exportToJson (sort_key e_subject (acc_exports c)))) else None)"
    and "jget (j c) ''imports'' =
           (if acc_imports c \<noteq> [] then Some (JArray (map importToJson (sort_key i_subject (acc_imports c)))) else None)"
    and "jget (j c) ''revocations'' = (if revocations c \<noteq> [] then Some (revocationsToJson (revocations c)) else None)"
    and "jget (j c) ''authorization'' = Some (externalAuthorizationToJson (authorization c))"
    and "jget (j c) ''description'' = (if a_description c \<noteq> [] then Some (JString (a_description c)) else None)"
    and "jget (j c) ''info_url'' = (if a_infoURL c \<noteq> [] then Some (JString (a_infoURL c)) else None)"
    and "jget (j c) ''signing_keys'' =
           (if signingKeys c \<noteq> []
            then Some (JArray (map (signingKeyToJson (scopes c)) (sort (signingKeys c)))) else None)"
    and "jget (j c) ''tags'' = (if tags c \<noteq> [] then Some (json_strings (tags c)) else None)"
  by (simp_all add: j_def AccountClaims_nats_def Let_def nats_get)

definition AccountClaims_printed :: "lib \<Rightarrow> account_claims \<Rightarrow> json" where
  "AccountClaims_printed L c = JObject (wirePayload L c (AccountClaims_nats c))"

text \<open>
  The object a decoder returns for what was encoded: exports and imports sorted by subject, signing
  keys sorted (a scoped key once), templates of scopes in their reread form, maps in key order, flat
  JetStream limits only without tiers, an empty name absent and times that are not positive 0.
\<close>

definition AccountClaims_reread :: "account_claims \<Rightarrow> account_claims" where
  "AccountClaims_reread c =
     fold (reread_key (scopes c)) (sort (signingKeys c))
       ((reread_base (smap_map json_norm (AccountClaims_nats c)) c)
          \<lparr>a_limits := reread_account_limits (a_limits c), mappings := smap_of (mappings c),
           acc_exports := map reread_export (sort_key e_subject (acc_exports c)),
           acc_imports := sort_key i_subject (acc_imports c), revocations := smap_of (revocations c),
           signingKeys := [], scopes := []\<rparr>)"

lemma reread_keys_keep:
  "subject (fold (reread_key sc) ks c) = subject c" "issuer (fold (reread_key sc) ks c) = issuer c"
  by (induction ks arbitrary: c)
     (auto simp: reread_key_def AccountClaims_addSigningKey_def setScope_def Let_def split: option.splits)

lemma readAccount_roundtrip:
  assumes "AccountClaims_checkStructure L c = Inr ()" and "\<And>e. e \<in> set (acc_exports c) \<Longrightarrow> readable_export e"
  shows "readAccount L (json_norm (AccountClaims_printed L c)) = Inr (AccountClaims_reread c)"
proof -
  let ?n = "JObject (AccountClaims_nats c)"
  note b = reread_base_reads [of L c "AccountClaims_nats c"]
  note f = AccountClaims_nats_fields [where c = c]
  have obj: "is_object ?n" by simp
  have exs: "listField exportFromJson (json_norm ?n) ''exports'' =
      Inr (map reread_export (sort_key e_subject (acc_exports c)))"
    by (rule listField_roundtrip [OF f(6)]) (simp_all add: export_roundtrip assms(2) del: json_norm.simps)
  have ims: "listField importFromJson (json_norm ?n) ''imports'' = Inr (sort_key i_subject (acc_imports c))"
    using listField_roundtrip [OF f(7), of importFromJson "\<lambda>i. i"] import_roundtrip by simp
  have keys: "readSigningKeys (json_norm ?n) c0 =
      Inr (fold (reread_key (scopes c)) (sort (signingKeys c)) c0)" for c0
    by (rule readSigningKeys_roundtrip [OF f(12)]) simp
  note reads = checkType_roundtrip [OF f(1)] limitsField_roundtrip [OF f(3)]
    defaultPermissionsField_roundtrip [OF f(4)] mappingsField_roundtrip [OF f(5)] exs ims
    revocationsField_roundtrip [OF f(8)] authorizationField_roundtrip [OF f(9)]
    written_string [OF obj f(10)] written_string [OF obj f(11)] written_strings [OF f(13)] keys
  have c0: "\<lparr>natsRaw = fields_of (json_norm ?n), subject = subject c, issuer = issuer c,
      name = reread_name (name c), issuedAt = issuedAt c, expires = reread_time (expires c),
      audience = audience c, notBefore = reread_time (notBefore c), tags = tags c,
      a_limits = reread_account_limits (a_limits c), defaultPermissions = defaultPermissions c,
      mappings = smap_of (mappings c), acc_exports = map reread_export (sort_key e_subject (acc_exports c)),
      acc_imports = sort_key i_subject (acc_imports c), revocations = smap_of (revocations c),
      authorization = authorization c, a_description = a_description c, a_infoURL = a_infoURL c,
      signingKeys = [], scopes = []\<rparr> =
      (reread_base (smap_map json_norm (AccountClaims_nats c)) c)
          \<lparr>a_limits := reread_account_limits (a_limits c), mappings := smap_of (mappings c),
           acc_exports := map reread_export (sort_key e_subject (acc_exports c)),
           acc_imports := sort_key i_subject (acc_imports c), revocations := smap_of (revocations c),
           signingKeys := [], scopes := []\<rparr>"
    by (simp add: reread_base_def)
  have struct: "AccountClaims_checkStructure L (AccountClaims_reread c) = Inr ()"
    using assms(1)
    by (simp add: AccountClaims_checkStructure_def AccountClaims_reread_def reread_keys_keep reread_base_def)
  show ?thesis
    unfolding readAccount_def AccountClaims_printed_def b bindE.simps reads if_not_Nil c0
      AccountClaims_reread_def [symmetric] struct
    by (rule refl)
qed

section \<open>What an accepted report says\<close>

lemma appending_check_counts: "appending (check_counts c)"
  unfolding check_counts_def Let_def by (intro appending_intros appending_error_when)

lemma appending_check_signing_key: "appending (check_signing_key L c k)"
  unfolding check_signing_key_def by (intro appending_intros)

lemma appending_warning_when: "appending (warning_if c d)"
  using appending_error_if(2) [OF appending_id] by simp

lemma check_signing_key_blocking:
  "isBlocking (check_signing_key L c k []) False \<longleftrightarrow> \<not> IsValidPublicAccountKey L k"
  by (auto simp: check_signing_key_def error_if_blocking)

text \<open>The limits on the numbers of imports and exports, -1 for none.\<close>

definition within :: "int64 \<Rightarrow> nat \<Rightarrow> bool" where
  "within lim n \<longleftrightarrow> lim = - 1 \<or> int n \<le> sint lim"

lemma check_counts_blocking:
  assumes "\<not> isBlocking (check_counts c []) False"
  shows "within (l_imports (a_limits c)) (length (acc_imports c))"
    and "within (l_exports (a_limits c)) (length (acc_exports c))"
    and "l_exports (a_limits c) = - 1 \<or> wildcardExports (a_limits c) \<or>
      (\<forall>e \<in> set (acc_exports c). \<not> subjectHasWildcards (e_subject e))"
proof -
  let ?l = "a_limits c"
  have wild: "isBlocking (fold (\<lambda>ex. error_if (subjectHasWildcards (e_subject ex)) d) es vr) False \<longleftrightarrow>
      isBlocking vr False \<or> (\<exists>e \<in> set es. subjectHasWildcards (e_subject e))" for es d vr
    using appending_fold_blocking [where g = "\<lambda>ex. error_if (subjectHasWildcards (e_subject ex)) d" and
        inc = False, OF appending_error_when]
    by (simp add: error_if_blocking)
  show "within (l_imports ?l) (length (acc_imports c))" "within (l_exports ?l) (length (acc_exports c))"
    "l_exports ?l = - 1 \<or> wildcardExports ?l \<or>
      (\<forall>e \<in> set (acc_exports c). \<not> subjectHasWildcards (e_subject e))"
    using assms unfolding check_counts_def Let_def within_def
    by (auto simp: wild error_if_blocking split: if_splits)
qed

lemma report_accepts:
  assumes "AccountClaims_report L now c [] = Inr vr" and "\<not> isBlocking vr False"
  obtains vr3 where
    "validateExportsImports L now (acc_exports c) (acc_imports c) (subject c)
       (validateAccountConfig (a_limits c) (mappings c) (addTimeChecks now [] (expires c) (notBefore c))) = Inr vr3"
    and "\<not> isBlocking vr3 False" and "\<not> isBlocking (check_counts c []) False"
    and "\<And>k. k \<in> set (signingKeys c) \<Longrightarrow> IsValidPublicAccountKey L k"
proof -
  obtain vr3 where vr3: "validateExportsImports L now (acc_exports c) (acc_imports c) (subject c)
       (validateAccountConfig (a_limits c) (mappings c) (addTimeChecks now [] (expires c) (notBefore c))) = Inr vr3"
    and vr: "vr = warning_if (IsValidPublicAccountKey L (issuer c) \<and> \<not> limitsEmpty (a_limits c))
              (''self-signed account JWTs shouldn'' @ [CHR 0x27] @ ''t contain operator limits'')
              (validateInfo (a_description c) (a_infoURL c)
              (fold (check_signing_key L c) (signingKeys c)
              (check_counts c (validateExternalAuthorization L (authorization c)
              (validatePermissions (defaultPermissions c) vr3)))))"
    using assms(1) by (auto simp: AccountClaims_report_def Let_def bindE_Inr_iff)
  have 7: "\<not> isBlocking (fold (check_signing_key L c) (signingKeys c) (check_counts c
      (validateExternalAuthorization L (authorization c) (validatePermissions (defaultPermissions c) vr3)))) False"
    using assms(2) unfolding vr
    using appending_blockingI [OF appending_warning_when] appending_blockingI [OF appending_validateInfo] by blast
  have keys: "IsValidPublicAccountKey L k" if "k \<in> set (signingKeys c)" for k
    using that 7 appending_fold_blocking [where g = "check_signing_key L c" and inc = False,
        OF appending_check_signing_key] check_signing_key_blocking by metis
  have 6: "\<not> isBlocking (check_counts c (validateExternalAuthorization L (authorization c)
      (validatePermissions (defaultPermissions c) vr3))) False"
    using 7 appending_fold_blocking [where g = "check_signing_key L c" and inc = False,
        OF appending_check_signing_key] by metis
  then have counts: "\<not> isBlocking (check_counts c []) False"
    using appending_blocking [OF appending_check_counts] by metis
  have "\<not> isBlocking vr3 False"
    using 6 appending_blockingI [OF appending_check_counts]
      appending_blockingI [OF appending_validateExternalAuthorization]
      appending_blockingI [OF appending_validatePermissions] by blast
  then show thesis using that vr3 counts keys by blast
qed

section \<open>The class implements the interface\<close>

lemma AccountClaims_encode_Inr:
  assumes "AccountClaims_encodeWithSigner L now c k sign = (Inr token, c')"
  shows "c' = c\<lparr>issuer := k, issuedAt := now\<rparr>"
    and "kind_check L CHR ''O'' k \<or> kind_check L CHR ''A'' k"
    and "AccountClaims_checkStructure L c' = Inr ()"
    and "\<exists>vr. AccountClaims_report L now c' [] = Inr vr \<and> \<not> isBlocking vr False"
    and "finishEncode L (issuer c') sign (basePayload c') (AccountClaims_nats c') = Inr token"
  using assms
  by (auto simp: AccountClaims_encodeWithSigner_def Let_def AccountClaims_validate_def bindE_Inr_iff
      checkIssuerKind_Inr_iff throwFirstBlocking_Inr_iff split: sum.splits)

lemma tame_readItems [tame_intros]: "(\<And>v. tame (rd v)) \<Longrightarrow> tame (readItems rd items)"
proof -
  assume rd: "\<And>v. tame (rd v)"
  have "tame (foldE (\<lambda>m (k, v). bindE (rd v) (\<lambda>x. Inr (smap_put k x m))) acc items)" for acc
  proof (induction items arbitrary: acc)
    case (Cons p items)
    show ?case by (cases p) (use rd Cons.IH in \<open>auto intro!: tame_bind tame_Inr\<close>)
  qed (simp add: tame_Inr)
  then show ?thesis by (simp add: readItems_def)
qed

lemma tame_account_parts:
  "tame (limitsField n)" "tame (defaultPermissionsField n)" "tame (mappingsField n)"
  "tame (listField exportFromJson n k)" "tame (listField importFromJson n k)" "tame (revocationsField n)"
  "tame (authorizationField n)" "tame (readSigningKeys n c)"
proof -
  have js: "tame (jetStreamLimitsFrom j)" for j
    unfolding jetStreamLimitsFrom_def by (intro tame_intros)
  have ti: "tame (tierFromJson j)" for j
    unfolding tierFromJson_def by (intro tame_intros js) simp
  show "tame (limitsField n)"
    unfolding limitsField_def accountLimitsFromJson_def tieredField_def by (intro tame_intros js ti)
  show "tame (defaultPermissionsField n)"
    unfolding defaultPermissionsField_def by (intro tame_intros)
  have mp: "tame (mappingsFromJson j)" for j
    by (cases j) (auto simp: mappingFromJson_def intro!: tame_intros)
  show "tame (mappingsField n)"
    unfolding mappingsField_def by (intro tame_intros mp)
  show rv: "tame (revocationsField n)" for n
    unfolding revocationsField_def by (intro tame_intros)
  have la: "tame (latencyField j)" for j
  proof -
    have str: "tame m \<Longrightarrow> tame (case v of JString _ \<Rightarrow> Inr 0 | _ \<Rightarrow> m)" for m :: "exn + int32" and v
      by (cases v) (simp_all add: tame_Inr)
    show ?thesis unfolding latencyField_def latencyFromJson_def by (intro tame_intros str)
  qed
  have "tame (exportFromJson j)" for j
    unfolding exportFromJson_def by (intro tame_intros rv la)
  then show "tame (listField exportFromJson n k)" unfolding listField_def by (intro tame_intros)
  have "tame (importFromJson j)" for j
    unfolding importFromJson_def by (intro tame_intros)
  then show "tame (listField importFromJson n k)" unfolding listField_def by (intro tame_intros)
  show "tame (authorizationField n)"
    unfolding authorizationField_def externalAuthorizationFromJson_def by (intro tame_intros)
  have sc: "tame (userScopeFromJson j)" for j
    unfolding userScopeFromJson_def userPermissionLimitsFromJson_def by (intro tame_intros)
  have un: "tame (Inl unknown_signing_key)" by (simp add: tame_def unknown_signing_key_def)
  have rk: "tame (readSigningKey c j)" for c j
    by (cases j) (auto intro!: tame_intros sc un simp del: value_string.simps)
  have "tame (foldE readSigningKey c js)" for c js
    by (induction js arbitrary: c) (auto intro!: tame_intros rk)
  then show "tame (readSigningKeys n c)" unfolding readSigningKeys_def by (intro tame_intros)
qed

lemma tame_readAccount: "natsOf p = Inr (JObject n) \<Longrightarrow> tame (readAccount L p)"
proof -
  assume n: "natsOf p = Inr (JObject n)"
  have st: "tame (AccountClaims_checkStructure L c)" for c
    unfolding AccountClaims_checkStructure_def by (intro tame_intros) simp_all
  show ?thesis
    unfolding readAccount_def n bindE.simps by (intro tame_intros st tame_account_parts)
qed

interpretation account_class:
  claims_class readAccount decodeAccountClaims AccountClaims_encodeWithSigner
    AccountClaims_printed AccountClaims_reread
proof
  show "decodeAccountClaims L t = bindE (decodeEnvelope L t) (\<lambda>env. guardJson L (readAccount L (payload env)))" for L t
    by (simp add: decodeAccountClaims_def)
  show "natsOf p = Inr (JObject n) \<Longrightarrow> tame (readAccount L p)" for p n L
    by (rule tame_readAccount)
next
  fix L now c k sign token c'
  assume enc: "AccountClaims_encodeWithSigner L now c k sign = (Inr token, c')"
  note e = AccountClaims_encode_Inr [OF enc]
  obtain vr where vr: "AccountClaims_report L now c' [] = Inr vr" "\<not> isBlocking vr False"
    using e(4) by blast
  have "readable_export x" if "x \<in> set (acc_exports c')" for x
    by (rule report_accepts [OF vr])
      (use that validateExportsImports_accepts(2) accepted_export_readable in blast)
  then show "readAccount L (json_norm (AccountClaims_printed L c')) = Inr (AccountClaims_reread c')"
    by (rule readAccount_roundtrip [OF e(3)])
  assume "lib_ok L" "json_faithful L header_json" "json_faithful L (AccountClaims_printed L c')"
    "length token \<le> MAX_JWT_SIZE"
  then show "decodeEnvelope L token =
      Inr \<lparr>payload = json_norm (AccountClaims_printed L c'), version = 2, algorithm = JWT_ALGORITHM\<rparr>"
    using finishEncode_opens [OF _ _ e(5), of "''account''"] AccountClaims_nats_fields(1,2) [of c']
    by (simp add: AccountClaims_printed_def del: json_norm.simps)
qed

section \<open>What is accepted and what is required\<close>

lemma AccountClaims_checkStructure_Inr:
  "AccountClaims_checkStructure L c = Inr () \<longleftrightarrow>
     subject c \<noteq> [] \<and> issuer c \<noteq> [] \<and> IsValidPublicAccountKey L (subject c) \<and>
     (IsValidPublicOperatorKey L (issuer c) \<or> IsValidPublicAccountKey L (issuer c))"
  by (auto simp: AccountClaims_checkStructure_def bindE_Inr_iff checkSubjectKind_Inr_iff
      checkIssuerKind_Inr_iff kind_check_def)

lemma readItems_ok: "readItems rd items = Inr m \<Longrightarrow> smap_ok m"
  unfolding readItems_def
  by (rule foldE_invariant) (auto simp: bindE_Inr_iff smap_ok_put split: prod.splits)

lemma revocationsField_ok: "revocationsField n = Inr r \<Longrightarrow> smap_ok r"
  by (auto simp: revocationsField_def bindE_Inr_iff dest: readItems_ok split: option.splits)

lemma readSigningKey_cases:
  assumes "readSigningKey c j = Inr c'"
  shows "(\<exists>k. c' = AccountClaims_addSigningKey k c) \<or> (\<exists>s. c' = setScope s c)"
  using assms by (cases j) (auto simp: bindE_Inr_iff simp del: value_string.simps split: if_splits)

lemma readSigningKey_keeps:
  assumes "readSigningKey c j = Inr c'"
  shows "account_inv c \<Longrightarrow> account_inv c'" and "subject c' = subject c" and "issuer c' = issuer c"
    and "a_limits c' = a_limits c" and "acc_exports c' = acc_exports c"
  using readSigningKey_cases [OF assms]
  by (auto simp: account_inv_addSigningKey account_inv_setScope AccountClaims_addSigningKey_def
      setScope_def Let_def dest: account_inv_addSigningKey account_inv_setScope)

lemma readSigningKeys_keeps:
  assumes "readSigningKeys n c = Inr c'"
  shows "account_inv c \<Longrightarrow> account_inv c'" and "subject c' = subject c" and "issuer c' = issuer c"
    and "a_limits c' = a_limits c" and "acc_exports c' = acc_exports c"
proof -
  have fold: "(account_inv c \<longrightarrow> account_inv c') \<and> subject c' = subject c \<and> issuer c' = issuer c \<and>
      a_limits c' = a_limits c \<and> acc_exports c' = acc_exports c"
    if "foldE readSigningKey c js = Inr c'" for js c
    using that
  proof (induction js arbitrary: c)
    case (Cons j js)
    then obtain c1 where 1: "readSigningKey c j = Inr c1" "foldE readSigningKey c1 js = Inr c'"
      by (auto simp: bindE_Inr_iff)
    from readSigningKey_keeps [OF 1(1)] Cons.IH [OF 1(2)] show ?case by auto
  qed simp
  show "account_inv c \<Longrightarrow> account_inv c'" "subject c' = subject c" "issuer c' = issuer c"
    "a_limits c' = a_limits c" "acc_exports c' = acc_exports c"
    using assms fold by (auto simp: readSigningKeys_def bindE_Inr_iff split: option.splits)
qed

definition tiers_exclusive :: "AccountLimits \<Rightarrow> bool" where
  "tiers_exclusive l \<longleftrightarrow> tieredLimits l = [] \<or> jetStream l = no_jetStream"

lemma limitsField_exclusive: "limitsField n = Inr l \<Longrightarrow> tiers_exclusive l"
  by (auto simp: limitsField_def accountLimitsFromJson_def bindE_Inr_iff zero_account_def tiers_exclusive_def
      split: option.splits if_splits)

lemma sampling_ok_read:
  assumes "latencyFromJson j = Inr sl"
  shows "sampling_ok (sampling sl)"
proof -
  have "sampling_ok (ucast u)" if "uintField j ''sampling'' 0 100 = Inr u" for u :: uint64
  proof -
    have "u \<le> 100"
      using that by (auto simp: uintField_def Let_def not_less split: option.splits json.splits if_splits)
    then have le: "uint u \<le> 100" and ge: "0 \<le> uint u" by (simp_all add: word_le_def)
    have "uint (ucast u :: int32) = uint u"
      using le ge by (simp add: unsigned_ucast_eq take_bit_int_eq_self)
    moreover have "signed_take_bit 31 (uint u) = uint u"
      by (rule signed_take_bit_int_eq_self)
        (rule order_trans [OF _ ge] le_less_trans [OF le], simp)+
    ultimately have s: "sint (ucast u :: int32) = uint u" by (simp add: sint_uint)
    show ?thesis
    proof (cases "uint u = 0")
      case True
      then have "u = 0" by (metis word_of_int_uint word_of_int_0)
      then show ?thesis by (simp add: sampling_ok_def)
    next
      case False
      then show ?thesis using s le ge unfolding sampling_ok_def by linarith
    qed
  qed
  then show ?thesis
    using assms by (auto simp: latencyFromJson_def bindE_Inr_iff sampling_ok_def split: option.splits json.splits)
qed

lemma export_read_readable: "exportFromJson j = Inr e \<Longrightarrow> readable_export e"
  by (auto simp: exportFromJson_def latencyField_def bindE_Inr_iff readable_export_def sampling_ok_read
      split: option.splits)

lemma mapE_all: "mapE f xs = Inr ys \<Longrightarrow> (\<And>x y. f x = Inr y \<Longrightarrow> P y) \<Longrightarrow> \<forall>y \<in> set ys. P y"
  by (induction xs arbitrary: ys) (auto simp: bindE_Inr_iff)

lemma readAccount_parts:
  assumes "readAccount L p = Inr c"
  obtains nats c0 where "readSigningKeys nats c0 = Inr c" and "revocationsField nats = Inr (revocations c0)"
    and "limitsField nats = Inr (a_limits c0)" and "listField exportFromJson nats ''exports'' = Inr (acc_exports c0)"
    and "at_string p ''sub'' = Inr (subject c0)" and "at_string p ''iss'' = Inr (issuer c0)"
    and "scopes c0 = []" and "AccountClaims_checkStructure L c = Inr ()"
  using assms unfolding readAccount_def
  apply (elim bindE_InrE)
  apply (drule Inr_inject)
  apply hypsubst
  apply (erule that; simp)
  done

lemma readAccount_Inr:
  assumes "readAccount L p = Inr c"
  shows "AccountClaims_checkStructure L c = Inr ()" and "at_string p ''iss'' = Inr (issuer c)"
    and "at_string p ''sub'' = Inr (subject c)" and "account_inv c" and "tiers_exclusive (a_limits c)"
    and "\<forall>e \<in> set (acc_exports c). readable_export e"
proof -
  obtain nats c0 where keys: "readSigningKeys nats c0 = Inr c" and rev: "revocationsField nats = Inr (revocations c0)"
    and lim: "limitsField nats = Inr (a_limits c0)"
    and exs: "listField exportFromJson nats ''exports'' = Inr (acc_exports c0)"
    and names: "at_string p ''sub'' = Inr (subject c0)" "at_string p ''iss'' = Inr (issuer c0)"
    and c0: "scopes c0 = []" and st: "AccountClaims_checkStructure L c = Inr ()"
    by (rule readAccount_parts [OF assms])
  note k = readSigningKeys_keeps [OF keys]
  show "AccountClaims_checkStructure L c = Inr ()" by (rule st)
  show "at_string p ''iss'' = Inr (issuer c)" "at_string p ''sub'' = Inr (subject c)"
    using names k by simp_all
  show "account_inv c"
    by (rule k(1)) (simp add: account_inv_def c0 revocationsField_ok [OF rev])
  show "tiers_exclusive (a_limits c)" using k c0 limitsField_exclusive [OF lim] by simp
  have "\<forall>e \<in> set (acc_exports c0). readable_export e"
    using exs by (auto simp: listField_def bindE_Inr_iff split: option.splits
        dest!: mapE_all [where P = readable_export, OF _ export_read_readable])
  then show "\<forall>e \<in> set (acc_exports c). readable_export e" using k c0 by simp
qed

lemma decodeAccountClaims_sound:
  assumes "decodeAccountClaims L t = Inr c"
  shows "names_signer L t (issuer c) (subject c)"
    and "IsValidPublicOperatorKey L (issuer c) \<or> IsValidPublicAccountKey L (issuer c)"
    and "IsValidPublicAccountKey L (subject c)"
    and "account_inv c" and "tiers_exclusive (a_limits c)" and "\<forall>e \<in> set (acc_exports c). readable_export e"
proof -
  obtain env where env: "decodeEnvelope L t = Inr env" "readAccount L (payload env) = Inr c"
    by (rule account_class.decoded_authentic [OF assms])
  note r = readAccount_Inr [OF env(2)]
  show "names_signer L t (issuer c) (subject c)"
    by (rule envelope_names_signer [OF env(1) r(2,3)])
  show "IsValidPublicOperatorKey L (issuer c) \<or> IsValidPublicAccountKey L (issuer c)"
    "IsValidPublicAccountKey L (subject c)"
    using r(1) by (simp_all add: AccountClaims_checkStructure_Inr)
  show "account_inv c" "tiers_exclusive (a_limits c)" "\<forall>e \<in> set (acc_exports c). readable_export e"
    by (rule r(4-6))+
qed

end
