(* ===== verification/AccountProps.thy ===== *)
theory AccountProps
  imports AccountClaims "HOL-Library.Multiset"
begin

text \<open>
  The properties of accounts as a whole: what encoding an account guarantees, what decoding gives back,
  and when validating one throws.
\<close>

section \<open>Keys and scopes across a round trip\<close>

lemma reread_keys_lists:
  assumes "\<And>k s. smap_get sc k = Some s \<Longrightarrow> key s = k"
  shows "set (signingKeys (fold (reread_key sc) ks c)) = set (signingKeys c) \<union> set ks"
proof (induction ks arbitrary: c)
  case (Cons k ks)
  have "set (signingKeys (reread_key sc k c)) = insert k (set (signingKeys c))"
    using assms [of k]
    by (auto simp: reread_key_def AccountClaims_addSigningKey_def setScope_def Let_def reread_scope_def
        split: option.splits)
  with Cons.IH show ?case by auto
qed simp

lemma reread_keys_scopes:
  assumes "\<And>k s. smap_get sc k = Some s \<Longrightarrow> key s = k"
  shows "smap_get (scopes (fold (reread_key sc) ks c)) k =
    (if k \<in> set ks \<and> smap_get sc k \<noteq> None then map_option reread_scope (smap_get sc k)
     else smap_get (scopes c) k)"
proof (induction ks arbitrary: c)
  case (Cons k' ks)
  have "smap_get (scopes (reread_key sc k' c)) k =
      (if k = k' \<and> smap_get sc k \<noteq> None then map_option reread_scope (smap_get sc k) else smap_get (scopes c) k)"
  proof (cases "smap_get sc k'")
    case None
    then show ?thesis by (auto simp: reread_key_def AccountClaims_addSigningKey_def)
  next
    case (Some s)
    then have "key s = k'" by (rule assms)
    then show ?thesis using Some by (auto simp: reread_key_def setScope_def Let_def reread_scope_def)
  qed
  then show ?case
    by (cases "k \<in> set ks") (simp_all add: Cons.IH)
qed simp

lemma reread_keys_rest:
  "acc_exports (fold (reread_key sc) ks c) = acc_exports c"
  "acc_imports (fold (reread_key sc) ks c) = acc_imports c"
  "revocations (fold (reread_key sc) ks c) = revocations c"
  "authorization (fold (reread_key sc) ks c) = authorization c"
  "defaultPermissions (fold (reread_key sc) ks c) = defaultPermissions c"
  "a_limits (fold (reread_key sc) ks c) = a_limits c"
  "mappings (fold (reread_key sc) ks c) = mappings c"
  "tags (fold (reread_key sc) ks c) = tags c"
  "natsRaw (fold (reread_key sc) ks c) = natsRaw c"
  "name (fold (reread_key sc) ks c) = name c"
  "issuedAt (fold (reread_key sc) ks c) = issuedAt c"
  "expires (fold (reread_key sc) ks c) = expires c"
  "audience (fold (reread_key sc) ks c) = audience c"
  "notBefore (fold (reread_key sc) ks c) = notBefore c"
  "a_description (fold (reread_key sc) ks c) = a_description c"
  "a_infoURL (fold (reread_key sc) ks c) = a_infoURL c"
  by (induction ks arbitrary: c)
     (auto simp: reread_key_def AccountClaims_addSigningKey_def setScope_def Let_def split: option.splits)

text \<open>
  How often a key is listed after its \<open>n\<close> entries were read: an unscoped key as often as before, a scoped key
  once, because \<open>setScope\<close> does not list a key again.
\<close>

definition listed :: "string \<Rightarrow> UserScope smap \<Rightarrow> nat \<Rightarrow> nat" where
  "listed k sc n = (if smap_get sc k = None then n else min 1 n)"

lemma reread_keys_sorted:
  assumes "\<And>k s. smap_get sc k = Some s \<Longrightarrow> key s = k"
  shows "sorted (signingKeys c @ ks) \<Longrightarrow> sorted (signingKeys (fold (reread_key sc) ks c))"
proof (induction ks arbitrary: c)
  case (Cons k ks)
  have "signingKeys (reread_key sc k c) \<in> {signingKeys c, signingKeys c @ [k]}"
    using assms [of k]
    by (auto simp: reread_key_def AccountClaims_addSigningKey_def setScope_def Let_def reread_scope_def
        split: option.splits)
  then have "sorted (signingKeys (reread_key sc k c) @ ks)"
    using Cons.prems by (auto simp: sorted_append)
  then show ?case using Cons.IH by simp
qed simp

lemma reread_keys_count:
  assumes "\<And>k s. smap_get sc k = Some s \<Longrightarrow> key s = k"
  shows "count_list (signingKeys c) k = listed k sc n \<Longrightarrow>
    count_list (signingKeys (fold (reread_key sc) ks c)) k = listed k sc (n + count_list ks k)"
proof (induction ks arbitrary: c n)
  case (Cons k' ks)
  have in_keys: "k \<in> set (signingKeys c) \<longleftrightarrow> listed k sc n \<noteq> 0"
    using Cons.prems count_list_0_iff [of "signingKeys c" k] by auto
  have "count_list (signingKeys (reread_key sc k' c)) k = listed k sc (n + (if k' = k then 1 else 0))"
  proof (cases "smap_get sc k'")
    case None
    then show ?thesis
      using Cons.prems by (auto simp: reread_key_def AccountClaims_addSigningKey_def listed_def)
  next
    case (Some s)
    then have "key s = k'" by (rule assms)
    then show ?thesis
      using Some Cons.prems in_keys by (auto simp: reread_key_def setScope_def Let_def reread_scope_def listed_def)
  qed
  from Cons.IH [OF this] show ?case by (simp add: add.assoc)
qed simp

lemma reread_keys_ok: "smap_ok (scopes c) \<Longrightarrow> smap_ok (scopes (fold (reread_key sc) ks c))"
proof (induction ks arbitrary: c)
  case (Cons k ks)
  then have "smap_ok (scopes (reread_key sc k c))"
    by (auto simp: reread_key_def AccountClaims_addSigningKey_def setScope_def Let_def smap_ok_put split: option.splits)
  then show ?case using Cons.IH by simp
qed simp

lemma count_list_sort: "count_list (sort xs) k = count_list xs k"
proof -
  have "count_list ys k = count (mset ys) k" for ys by (induction ys) auto
  then show ?thesis by simp
qed

text \<open>
  What a decoded account is, given the encoded one, in every field: subject, issuer, the time of issue,
  audience, tags, description and URL are the same, as are permissions, authorization, scopes' keys and what is
  revoked; a name that is empty is absent and times that are not positive are 0; templates of scopes and limits are
  reread; exports, imports and keys are in order, with nothing lost or added but repeated scoped keys; the raw
  \<open>nats\<close> object is the one that was printed.
\<close>

definition same_account :: "account_claims \<Rightarrow> account_claims \<Rightarrow> bool" where
  "same_account c d \<longleftrightarrow>
     natsRaw d = smap_map json_norm (AccountClaims_nats c) \<and>
     subject d = subject c \<and> issuer d = issuer c \<and> name d = reread_name (name c) \<and>
     issuedAt d = issuedAt c \<and> expires d = reread_time (expires c) \<and> audience d = audience c \<and>
     notBefore d = reread_time (notBefore c) \<and> tags d = tags c \<and>
     a_limits d = reread_account_limits (a_limits c) \<and> defaultPermissions d = defaultPermissions c \<and>
     mappings d = smap_of (mappings c) \<and>
     acc_exports d = map reread_export (sort_key e_subject (acc_exports c)) \<and>
     mset (acc_exports d) = image_mset reread_export (mset (acc_exports c)) \<and>
     sorted (map e_subject (acc_exports d)) \<and>
     acc_imports d = sort_key i_subject (acc_imports c) \<and>
     mset (acc_imports d) = mset (acc_imports c) \<and> sorted (map i_subject (acc_imports d)) \<and>
     revocations d = revocations c \<and> (\<forall>k i. isRevoked d k i = isRevoked c k i) \<and>
     authorization d = authorization c \<and> a_description d = a_description c \<and> a_infoURL d = a_infoURL c \<and>
     set (signingKeys d) = set (signingKeys c) \<and> sorted (signingKeys d) \<and>
     (\<forall>k. count_list (signingKeys d) k = listed k (scopes c) (count_list (signingKeys c) k)) \<and>
     scopes d = smap_map reread_scope (scopes c) \<and>
     (\<forall>k. getScope d k = map_option reread_scope (getScope c k))"

lemma reread_same_account:
  assumes "account_inv c"
  shows "same_account c (AccountClaims_reread c)"
proof -
  let ?d = "AccountClaims_reread c"
  have own: "smap_get (scopes c) k = Some s \<Longrightarrow> key s = k" for k s
    using assms by (simp add: account_inv_def)
  have keys: "set (signingKeys ?d) = set (signingKeys c)"
    by (simp add: AccountClaims_reread_def reread_keys_lists [OF own])
  have order: "sorted (signingKeys ?d)"
    unfolding AccountClaims_reread_def by (rule reread_keys_sorted [OF own]) simp_all
  have count: "count_list (signingKeys ?d) k = listed k (scopes c) (count_list (signingKeys c) k)" for k
  proof -
    have "count_list (signingKeys ?d) k = listed k (scopes c) (0 + count_list (sort (signingKeys c)) k)"
      unfolding AccountClaims_reread_def by (rule reread_keys_count [OF own]) (simp_all add: listed_def)
    then show ?thesis by (simp add: count_list_sort)
  qed
  have got: "smap_get (scopes ?d) k = smap_get (smap_map reread_scope (scopes c)) k" for k
  proof (cases "smap_get (scopes c) k")
    case None
    then show ?thesis by (simp add: AccountClaims_reread_def reread_keys_scopes [OF own])
  next
    case (Some s)
    then have "k \<in> set (signingKeys c)" using assms by (simp add: account_inv_def)
    then show ?thesis using Some by (simp add: AccountClaims_reread_def reread_keys_scopes [OF own])
  qed
  have ok: "smap_ok (scopes ?d)"
    unfolding AccountClaims_reread_def by (rule reread_keys_ok) simp
  have scopes: "scopes ?d = smap_map reread_scope (scopes c)"
    by (rule smap_eqI [OF ok _ got]) (use assms in \<open>simp add: account_inv_def\<close>)
  have scope: "getScope ?d k = map_option reread_scope (getScope c k)" for k
    by (simp add: getScope_def scopes)
  have revs: "revocations ?d = revocations c"
    using assms by (simp add: AccountClaims_reread_def reread_keys_rest account_inv_def smap_of_self)
  then have rev: "isRevoked ?d k i = isRevoked c k i" for k i by (simp add: isRevoked_def)
  have fields: "natsRaw ?d = smap_map json_norm (AccountClaims_nats c)" "subject ?d = subject c"
      "issuer ?d = issuer c" "name ?d = reread_name (name c)" "issuedAt ?d = issuedAt c"
      "expires ?d = reread_time (expires c)" "audience ?d = audience c"
      "notBefore ?d = reread_time (notBefore c)" "tags ?d = tags c"
      "authorization ?d = authorization c" "defaultPermissions ?d = defaultPermissions c"
      "a_limits ?d = reread_account_limits (a_limits c)" "mappings ?d = smap_of (mappings c)"
      "a_description ?d = a_description c" "a_infoURL ?d = a_infoURL c"
    and ims: "acc_imports ?d = sort_key i_subject (acc_imports c)"
    and exs: "acc_exports ?d = map reread_export (sort_key e_subject (acc_exports c))"
    by (simp_all add: AccountClaims_reread_def reread_keys_keep reread_keys_rest reread_base_def)
  have "e_subject \<circ> reread_export = e_subject" by (simp add: fun_eq_iff reread_export_def)
  then have "map e_subject (acc_exports ?d) = map e_subject (sort_key e_subject (acc_exports c))"
    by (simp add: exs)
  then have "sorted (map e_subject (acc_exports ?d))" by (simp only: sorted_sort_key)
  moreover have "mset (acc_exports ?d) = image_mset reread_export (mset (acc_exports c))"
    by (simp add: exs)
  moreover have "mset (acc_imports ?d) = mset (acc_imports c)" "sorted (map i_subject (acc_imports ?d))"
    by (simp_all add: ims)
  ultimately show ?thesis
    unfolding same_account_def using keys order count scopes scope revs rev fields ims exs by (intro conjI allI)
qed

section \<open>Properties\<close>

text \<open>
  C9: What an account encoder produced, the decoder returns, in every field: subject, issuer, issue time, audience,
  tags, description, URL, permissions, authorization and revocations are the same; the name, expiration and
  not-before time too, up to an empty name, which is absent, and times that are not positive, which are 0; the
  limits up to flat JetStream limits beside tiers; the same signing keys, sorted, a scoped one once, with the
  scopes they had (their templates reread); exports and imports with nothing lost or added, in the stable order
  of their subjects; and the raw \<open>nats\<close> object that was printed. Encoding changes only issuer and issue time.
\<close>

theorem account_encode_decode:
  assumes "AccountClaims_encodeWithSigner L now c k sign = (Inr token, c')" and "account_inv c"
    and "lib_ok L" and "json_faithful L header_json" and "json_faithful L (AccountClaims_printed L c')"
    and "length token \<le> MAX_JWT_SIZE"
  shows "c' = c\<lparr>issuer := k, issuedAt := now\<rparr> \<and>
    (\<exists>d. decodeAccountClaims L token = Inr d \<and> same_account c' d \<and> issuer d = k \<and> subject d = subject c \<and>
      account_inv d \<and>
      natsRaw d = smap_map json_norm (AccountClaims_nats c') \<and> name d = reread_name (name c) \<and>
      issuedAt d = now \<and> expires d = reread_time (expires c) \<and> audience d = audience c \<and>
      notBefore d = reread_time (notBefore c) \<and> tags d = tags c \<and>
      a_description d = a_description c \<and> a_infoURL d = a_infoURL c)"
proof -
  have d: "decodeAccountClaims L token = Inr (AccountClaims_reread c')"
    by (rule account_class.decode_encoded [OF assms(1,3-6)])
  have c': "c' = c\<lparr>issuer := k, issuedAt := now\<rparr>" by (rule AccountClaims_encode_Inr(1) [OF assms(1)])
  then have "account_inv c'" using assms(2) account_inv_cong [of c' c] by simp
  then have same: "same_account c' (AccountClaims_reread c')" by (rule reread_same_account)
  have "account_inv (AccountClaims_reread c')" using decodeAccountClaims_sound(4) [OF d] by blast
  with d c' same show ?thesis by (auto simp: same_account_def)
qed

definition demo_account :: account_claims where
  "demo_account = setScope (new_scope\<lparr>key := ''A3''\<rparr>) (AccountClaims_new ''A1'')"

definition demo_account_stamped :: account_claims where
  "demo_account_stamped = demo_account\<lparr>issuer := ''O1'', issuedAt := 5\<rparr>"

lemma demo_account_report:
  "\<exists>vr. AccountClaims_report (demo_lib j) 5 demo_account_stamped [] = Inr vr \<and> \<not> isBlocking vr False"
  by (simp add: AccountClaims_report_def demo_account_stamped_def demo_account_def AccountClaims_new_def
      setScope_def addTimeChecks_def validateAccountConfig_def unlimited_account_def validateExportsImports_def
      validateExports_def overlaps_def overlap_map_def validatePermissions_def no_permissions_def
      no_permission_def validateExternalAuthorization_def no_authorization_def check_counts_def
      check_signing_key_def demo_lib_def starts_with_def validateInfo_def error_if_def warning_if_def
      addWarning_def add_def MaxInfoLength_def Let_def)

lemma demo_account_encodes:
  "AccountClaims_encodeWithSigner (demo_lib j) 5 demo_account ''O1'' (signerFor (demo_pair ''O1'')) =
     (Inr (demo_token ''O1''), demo_account_stamped)"
proof -
  have "checkIssuerKind (demo_lib j) ''O1'' ''OA'' ''Account'' = Inr ()"
    by (simp add: checkIssuerKind_Inr_iff kind_check_def demo_lib_def starts_with_def)
  moreover have "AccountClaims_checkStructure (demo_lib j) demo_account_stamped = Inr ()"
    by (simp add: AccountClaims_checkStructure_Inr demo_account_stamped_def demo_account_def setScope_def Let_def
        AccountClaims_new_def demo_lib_def starts_with_def)
  moreover obtain vr where "AccountClaims_report (demo_lib j) 5 demo_account_stamped [] = Inr vr"
    "throwFirstBlocking vr = Inr ()"
    using demo_account_report throwFirstBlocking_Inr_iff by blast
  ultimately show ?thesis
    by (simp add: AccountClaims_encodeWithSigner_def AccountClaims_validate_def Let_def demo_finish
        flip: demo_account_stamped_def)
qed

lemma demo_account_inv: "account_inv demo_account"
  unfolding demo_account_def by (intro account_inv_setScope account_inv_new)

lemma account_encode_decode_witness:
  "\<exists>d. decodeAccountClaims
        (demo_lib (demo_wire demo_account_stamped (AccountClaims_nats demo_account_stamped))) (demo_token ''O1'') =
      Inr d \<and> same_account demo_account_stamped d"
proof -
  let ?L = "demo_lib (demo_wire demo_account_stamped (AccountClaims_nats demo_account_stamped))"
  have "json_faithful ?L (AccountClaims_printed ?L demo_account_stamped)"
    unfolding AccountClaims_printed_def demo_wirePayload by (rule demo_faithful)
  then show ?thesis
    using account_encode_decode [OF demo_account_encodes demo_account_inv demo_lib_ok demo_header _ demo_token_length]
    by blast
qed

text \<open>
  An account that was encoded is in order: account key as subject, operator or account key as
  issuer, only account keys as signing keys; no more imports and exports than the limits allow, and no
  wildcard export where those are forbidden; no export whose subject contains another one of its kind;
  weights within 100; flat JetStream limits or tiers, not both; sampling rates in range.
\<close>

lemma encoded_account_in_order:
  assumes "AccountClaims_encodeWithSigner L now c k sign = (Inr token, c')"
  shows "IsValidPublicAccountKey L (subject c) \<and>
    (IsValidPublicOperatorKey L k \<or> IsValidPublicAccountKey L k) \<and>
    list_all (IsValidPublicAccountKey L) (signingKeys c) \<and>
    within (l_imports (a_limits c)) (length (acc_imports c)) \<and>
    within (l_exports (a_limits c)) (length (acc_exports c)) \<and>
    (l_exports (a_limits c) = - 1 \<or> wildcardExports (a_limits c) \<or>
       list_all (\<lambda>e. \<not> subjectHasWildcards (e_subject e)) (acc_exports c)) \<and>
    containers (map e_subject (filter (\<lambda>e. e_type e = Service) (acc_exports c))) = {} \<and>
    containers (map e_subject (filter (\<lambda>e. e_type e \<noteq> Service) (acc_exports c))) = {} \<and>
    list_all (\<lambda>(f, wms). weights_ok wms) (mappings c) \<and>
    tiers_exclusive (a_limits c) \<and> list_all readable_export (acc_exports c)"
proof -
  note e = AccountClaims_encode_Inr [OF assms]
  obtain vr where vr: "AccountClaims_report L now c' [] = Inr vr" "\<not> isBlocking vr False"
    using e(4) by blast
  obtain vr3 where r: "validateExportsImports L now (acc_exports c') (acc_imports c') (subject c')
       (validateAccountConfig (a_limits c') (mappings c') (addTimeChecks now [] (expires c') (notBefore c'))) = Inr vr3"
    "\<not> isBlocking vr3 False" "\<not> isBlocking (check_counts c' []) False"
    "\<And>k. k \<in> set (signingKeys c') \<Longrightarrow> IsValidPublicAccountKey L k"
    by (rule report_accepts [OF vr]) (rule that)
  note x = validateExportsImports_accepts [OF r(1,2)]
  note cfg = accepted_config [OF x(1)]
  note counts = check_counts_blocking [OF r(3)]
  have "\<forall>e \<in> set (acc_exports c'). readable_export e"
    using x(2) accepted_export_readable by blast
  moreover have "issuer c' \<noteq> [] \<and> IsValidPublicAccountKey L (subject c')"
    using e(3) by (simp add: AccountClaims_checkStructure_Inr)
  moreover have "IsValidPublicOperatorKey L k \<or> IsValidPublicAccountKey L k"
    using e(2) by (simp add: kind_check_def)
  ultimately show ?thesis
    using r(4) x(3,4) cfg counts unfolding tiers_exclusive_def list_all_iff e(1) by simp
qed

lemma encoded_account_in_order_witness:
  "list_all (IsValidPublicAccountKey (demo_lib JNull)) [''A3'']"
  using encoded_account_in_order [OF demo_account_encodes [of JNull]]
  by (simp add: demo_account_def setScope_def AccountClaims_new_def new_scope_def Let_def)

text \<open>
  C33: Validating an account is not total: it throws exactly when one of its imports makes it, with the
  exception of the first such import, and never an error of the library: \<open>std::out_of_range\<close> for a reference
  \<open>$n\<close> in a local subject that does not fit an \<open>int\<close>, the JSON library's type error 302 for an activation
  token that trips the migration. Otherwise the report is what it was with findings appended.
\<close>

theorem account_report_throws:
  "(case AccountClaims_report L now c vr of
      Inl e \<Rightarrow> (e = StdOutOfRange \<or> e = type_error 302) \<and>
        (\<exists>i. find (\<lambda>i. import_throw L i \<noteq> None) (acc_imports c) = Some i \<and> import_throw L i = Some e)
    | Inr vr' \<Rightarrow> find (\<lambda>i. import_throw L i \<noteq> None) (acc_imports c) = None \<and> (\<exists>is. vr' = vr @ is))"
proof -
  let ?pre = "\<lambda>vr. validateAccountConfig (a_limits c) (mappings c) (addTimeChecks now vr (expires c) (notBefore c))"
  let ?find = "find (\<lambda>i. import_throw L i \<noteq> None) (acc_imports c)"
  have throws: "AccountClaims_report L now c vr = Inl e \<longleftrightarrow> (\<exists>i. ?find = Some i \<and> import_throw L i = Some e)" for e
    unfolding AccountClaims_report_def Let_def bindE_Inl_iff by (simp add: validateExportsImports_Inl)
  show ?thesis
  proof (cases "AccountClaims_report L now c vr")
    case (Inl e)
    then obtain i where i: "?find = Some i" "import_throw L i = Some e" using throws by blast
    from import_throw_cases [OF i(2)] i show ?thesis by (simp only: Inl sum.case) blast
  next
    case (Inr vr')
    have "?find = None"
    proof (rule ccontr)
      assume "?find \<noteq> None"
      then obtain i where i: "?find = Some i" by blast
      then have "import_throw L i \<noteq> None" by (auto simp: find_Some_iff)
      with i throws Inr show False by (metis Inl_Inr_False not_None_eq)
    qed
    have "appending ?pre"
      using appending_comp [OF appending_validateAccountConfig appending_addTimeChecks] .
    then have "appendingE (AccountClaims_report L now c)"
      unfolding AccountClaims_report_def Let_def
      by (intro appendingE_bind appendingE_comp [OF appendingE_validateExportsImports]
          appendingE_Inr appending_error_if appending_comp [OF appending_validateInfo]
          appending_fold appending_check_signing_key appending_comp [OF appending_check_counts]
          appending_comp [OF appending_validateExternalAuthorization] appending_validatePermissions)
    from appendingE_D [OF this Inr] \<open>?find = None\<close> show ?thesis by (simp add: Inr)
  qed
qed

end
