(* ===== verification/GenericClaims.thy ===== *)
theory GenericClaims
  imports ClaimsBase
begin

text \<open>
  Generic claims (\<^verbatim>\<open>generic_claims.hpp\<close>, \<^verbatim>\<open>src/generic_claims.cpp\<close>): the standard fields and the
  \<open>nats\<close> object as it is, for token types the library has no class for. The class adds no fields
  to the record \<open>base\<close>: \<open>data_\<close> is \<open>natsRaw\<close> (always an object: the constructor, \<open>setDataJson\<close>
  and the decoder store nothing else) and \<open>tags()\<close> is always empty.

  Its decoder does not use the envelope of the typed classes: the signature rule follows the algorithm
  in the header instead of the version of the payload.
\<close>

type_synonym generic_claims = base

definition GenericClaims_new :: "string \<Rightarrow> generic_claims" where
  "GenericClaims_new sbj =
     \<lparr>natsRaw = [], subject = sbj, issuer = [], name = None, issuedAt = 0, expires = 0,
      audience = [], notBefore = 0, tags = []\<rparr>"

definition dataJson :: "lib \<Rightarrow> generic_claims \<Rightarrow> exn + string" where
  "dataJson L c = dump_json L (JObject (natsRaw c))"

definition setDataJson :: "lib \<Rightarrow> string \<Rightarrow> generic_claims \<Rightarrow> exn + generic_claims" where
  "setDataJson L jsonObject c =
     bindE (parse_or L (\<lambda>w. InvalidClaimsError (''generic claim data is not valid JSON: '' @ w)) jsonObject)
       (\<lambda>parsed.
          if is_object parsed then Inr (c\<lparr>natsRaw := fields_of parsed\<rparr>)
          else Inl (InvalidClaimsError ''generic claim data must be a JSON object''))"

definition known_types :: "string list" where
  "known_types = [''operator'', ''account'', ''user'', ''activation'',
                  ''authorization_request'', ''authorization_response'']"

definition claimType :: "generic_claims \<Rightarrow> string" where
  "claimType c =
     (let data = natsRaw c;
          v = (if smap_has data ''type'' then the (smap_get data ''type'')
               else case smap_get data ''nats'' of
                      Some (JObject n) \<Rightarrow> (if smap_has n ''type'' then the (smap_get n ''type'') else JNull)
                    | _ \<Rightarrow> JNull)
      in case v of JString t \<Rightarrow> (if t \<in> set known_types then t else ''generic'') | _ \<Rightarrow> [])"

definition GenericClaims_checkStructure :: "generic_claims \<Rightarrow> exn + unit" where
  "GenericClaims_checkStructure c =
     throw_if (subject c = []) (InvalidClaimsError ''Generic claim subject cannot be empty'')"

definition GenericClaims_report :: "int64 \<Rightarrow> generic_claims \<Rightarrow> results \<Rightarrow> results" where
  "GenericClaims_report now c vr = addTimeChecks now vr (expires c) (notBefore c)"

definition GenericClaims_validate :: "int64 \<Rightarrow> generic_claims \<Rightarrow> exn + unit" where
  "GenericClaims_validate now c =
     bindE (GenericClaims_checkStructure c) (\<lambda>_. throwFirstBlocking (GenericClaims_report now c []))"

definition GenericClaims_nats :: "generic_claims \<Rightarrow> json smap" where
  "GenericClaims_nats c = smap_put ''version'' (JInteger (word_of_int JWT_VERSION)) (natsRaw c)"

definition GenericClaims_encodeWithSigner ::
  "lib \<Rightarrow> int64 \<Rightarrow> generic_claims \<Rightarrow> string \<Rightarrow> signer \<Rightarrow> (exn + string) \<times> generic_claims" where
  "GenericClaims_encodeWithSigner L now c issuerPublicKey sign =
     (if \<not> IsValidPublicKey L issuerPublicKey
      then (Inl (InvalidClaimsError ''Generic JWTs must be signed by an nkey''), c)
      else
        let c' = c\<lparr>issuer := issuerPublicKey, issuedAt := now\<rparr>
        in (bindE (GenericClaims_validate now c') (\<lambda>_.
              finishEncode L issuerPublicKey sign (basePayload c') (GenericClaims_nats c')), c'))"

definition GenericClaims_encode :: "lib \<Rightarrow> int64 \<Rightarrow> generic_claims \<Rightarrow> string \<Rightarrow> (exn + string) \<times> generic_claims"
  where
  "GenericClaims_encode L now c seed =
     (case FromSeed L seed of
        Inl e \<Rightarrow> (Inl e, c)
      | Inr kp \<Rightarrow> GenericClaims_encodeWithSigner L now c (publicString kp) (signerFor kp))"

section \<open>Decoding\<close>

text \<open>The data of a token: its \<open>nats\<close> object, and for version 1 the top-level type and tags.\<close>

definition genericData :: "bool \<Rightarrow> json smap \<Rightarrow> json smap" where
  "genericData v1 p =
     (let d = (case smap_get p ''nats'' of Some (JObject n) \<Rightarrow> n | _ \<Rightarrow> []);
          d1 = (case smap_get p ''type'' of
                  Some (JString t) \<Rightarrow> setIf (v1 \<and> t \<noteq> []) ''type'' (JString t) d
                | _ \<Rightarrow> d)
      in case smap_get p ''tags'' of
           Some (JArray ts) \<Rightarrow> setIf (v1 \<and> ts \<noteq> []) ''tags'' (JArray ts) d1
         | _ \<Rightarrow> d1)"

definition readGeneric :: "bool \<Rightarrow> string \<Rightarrow> string \<Rightarrow> json smap \<Rightarrow> exn + generic_claims" where
  "readGeneric v1 iss sbj p =
     (let j = JObject p
      in bindE (intField j ''iat'' 0) (\<lambda>iat.
         bindE (readName j) (\<lambda>nm.
         bindE (intField j ''exp'' 0) (\<lambda>exp.
         bindE (value_string j ''aud'' []) (\<lambda>aud.
         bindE (intField j ''nbf'' 0) (\<lambda>nbf.
         let c = \<lparr>natsRaw = genericData v1 p, subject = sbj, issuer = iss, name = nm, issuedAt = iat,
                  expires = exp, audience = aud, notBefore = nbf, tags = []\<rparr>
         in bindE (GenericClaims_checkStructure c) (\<lambda>_. Inr c)))))))"

text \<open>The payload of a generic token: an object with string \<open>iss\<close> and \<open>sub\<close>.\<close>

definition openGeneric :: "lib \<Rightarrow> jwt_parts \<Rightarrow> string \<Rightarrow> json \<Rightarrow> exn + generic_claims" where
  "openGeneric L parts alg j =
     (case j of
        JObject p \<Rightarrow>
          (case (stringAt p ''iss'', stringAt p ''sub'') of
             (Some iss, Some sbj) \<Rightarrow>
               (let v1 = (alg = ''ed25519'')
                in bindE (throw_if (\<not> verifySignature L iss
                                        (if v1 then payload_b64 parts else signing_input parts)
                                        (signature_b64 parts))
                           (SignatureError (if v1 then ''claim failed V1 signature verification''
                                            else ''claim failed V2 signature verification''))) (\<lambda>_.
                   guardJson L (readGeneric v1 iss sbj p)))
           | _ \<Rightarrow> Inl lacks_iss_sub)
      | _ \<Rightarrow> Inl lacks_iss_sub)"

definition decodeGeneric :: "lib \<Rightarrow> string \<Rightarrow> exn + generic_claims" where
  "decodeGeneric L token =
     bindE (parseJwt token) (\<lambda>parts.
     bindE (base64url_decode (header_b64 parts)) (\<lambda>header_bytes.
     bindE (validateHeader L (string_of header_bytes)) (\<lambda>header.
     bindE (value_string header ''alg'' []) (\<lambda>alg0.
     bindE (base64url_decode (payload_b64 parts)) (\<lambda>payload_bytes.
     bindE (parse_or L payload_parse_error (string_of payload_bytes)) (\<lambda>j.
       openGeneric L parts (lower alg0) j))))))"

section \<open>Type of the claims\<close>

lemma claimType_known: "claimType c \<in> {[], ''generic''} \<union> set known_types"
  by (simp add: claimType_def Let_def split: json.splits)

lemma claimType_norm:
  assumes t: "smap_get (natsRaw c') ''type'' = map_option json_norm (smap_get (natsRaw c) ''type'')"
    and n: "smap_get (natsRaw c') ''nats'' = map_option json_norm (smap_get (natsRaw c) ''nats'')"
  shows "claimType c' = claimType c"
proof -
  let ?shown = "\<lambda>v. case v of JString t \<Rightarrow> (if t \<in> set known_types then t else ''generic'') | _ \<Rightarrow> []"
  have shown: "?shown (json_norm v) = ?shown v" for v by (cases v) simp_all
  show ?thesis
  proof (cases "smap_get (natsRaw c) ''type''")
    case (Some v)
    with t shown [of v] show ?thesis by (simp add: claimType_def smap_has_def Let_def)
  next
    case type: None
    show ?thesis
    proof (cases "smap_get (natsRaw c) ''nats''")
      case (Some v)
      show ?thesis
      proof (cases v)
        case (JObject m)
        with t n type Some shown show ?thesis
          by (cases "smap_get m ''type''") (simp_all add: claimType_def smap_has_def Let_def)
      qed (use t n type Some in \<open>simp_all add: claimType_def smap_has_def Let_def\<close>)
    qed (use t n type in \<open>simp add: claimType_def smap_has_def\<close>)
  qed
qed

section \<open>Authenticity\<close>

lemma tame_readGeneric: "tame (readGeneric v1 iss sbj p)"
proof -
  have st: "tame (GenericClaims_checkStructure c)" for c
    unfolding GenericClaims_checkStructure_def by (intro tame_intros) simp
  show ?thesis unfolding readGeneric_def Let_def by (intro tame_intros st)
qed

lemma decodeGeneric_wire:
  assumes "wire L t h p s alg obj"
  shows "decodeGeneric L t = openGeneric L (parts_of h p s) alg (JObject obj)"
proof -
  from assms have "parseJwt t = Inr (parts_of h p s)"
    unfolding parseJwt_Inr_iff wire_def by blast
  with assms show ?thesis
    by (auto simp: wire_def decodeGeneric_def parse_or_def)
qed

lemma readGeneric_Inr:
  "readGeneric v1 iss sbj p = Inr c \<Longrightarrow> issuer c = iss \<and> subject c = sbj \<and> sbj \<noteq> [] \<and>
     natsRaw c = genericData v1 p \<and> tags c = []"
  unfolding readGeneric_def Let_def
  by (auto simp: bindE_Inr_iff GenericClaims_checkStructure_def)

lemma openGeneric_Inr:
  assumes "openGeneric L (parts_of h p s) alg (JObject obj) = Inr c"
  shows "stringAt obj ''iss'' = Some (issuer c)" and "stringAt obj ''sub'' = Some (subject c)"
    and "verifySignature L (issuer c) (if alg = ''ed25519'' then p else h @ ''.'' @ p) s"
    and "subject c \<noteq> []" and "natsRaw c = genericData (alg = ''ed25519'') obj"
  using assms
  by (auto simp: openGeneric_def Let_def bindE_Inr_iff dest!: readGeneric_Inr split: option.splits if_splits)

lemma openGeneric_error:
  assumes "openGeneric L parts alg j = Inl e"
  shows "is_jwt_error e"
proof -
  have g: "guardJson L (readGeneric v1 iss sbj p) = Inl e' \<Longrightarrow> is_jwt_error e'" for v1 iss sbj p e'
    by (rule guardJson_tame [OF tame_readGeneric])
  show ?thesis
    using assms g
    by (auto simp: openGeneric_def Let_def bindE_Inl_iff lacks_iss_sub_def
        split: json.splits option.splits if_splits)
qed

lemma decodeGeneric_error:
  assumes "decodeGeneric L t = Inl e"
  shows "is_jwt_error e"
proof (rule ccontr)
  assume e: "\<not> is_jwt_error e"
  then obtain parts hb header where "parseJwt t = Inr parts" "validateHeader L (string_of hb) = Inr header"
    and rest: "bindE (value_string header ''alg'' []) (\<lambda>alg0.
     bindE (base64url_decode (payload_b64 parts)) (\<lambda>payload_bytes.
     bindE (parse_or L payload_parse_error (string_of payload_bytes)) (\<lambda>j.
       openGeneric L parts (lower alg0) j))) = Inl e"
    using assms parseJwt_error decode_is_jwt_error validateHeader_error
    unfolding decodeGeneric_def bindE_Inl_iff by metis
  then obtain alg0 where "value_string header ''alg'' [] = Inr alg0"
    using value_string_checked by blast
  then have "bindE (base64url_decode (payload_b64 parts)) (\<lambda>payload_bytes.
     bindE (parse_or L payload_parse_error (string_of payload_bytes)) (\<lambda>j.
       openGeneric L parts (lower alg0) j)) = Inl e"
    using rest by simp
  then show False
    using e decode_is_jwt_error parse_or_error [of L payload_parse_error] openGeneric_error
    by (auto simp: bindE_Inl_iff payload_parse_error_def)
qed

lemma decodeGeneric_Inr:
  assumes "decodeGeneric L t = Inr c"
  obtains h p s alg obj where "wire L t h p s alg obj"
    and "openGeneric L (parts_of h p s) alg (JObject obj) = Inr c"
proof -
  obtain parts hb header alg0 pb j where *: "parseJwt t = Inr parts"
    "base64url_decode (header_b64 parts) = Inr hb" "validateHeader L (string_of hb) = Inr header"
    "value_string header ''alg'' [] = Inr alg0" "base64url_decode (payload_b64 parts) = Inr pb"
    "json_parse L (string_of pb) = Inr j" "openGeneric L parts (lower alg0) j = Inr c"
    using assms unfolding decodeGeneric_def bindE_Inr_iff parse_or_Inr_iff by blast
  from *(7) obtain obj where j: "j = JObject obj" by (cases j) (simp_all add: openGeneric_def)
  obtain h p s where parts: "parts = parts_of h p s" and "t = token_of h p s" "length t \<le> MAX_JWT_SIZE"
    "chunk h" "chunk p" "chunk s"
    using *(1) unfolding parseJwt_Inr_iff by blast
  then have "wire L t h p s (lower alg0) obj"
    using * j unfolding wire_def by auto
  then show ?thesis using *(7) that by (simp add: parts j)
qed

section \<open>The decoder reads what the encoder wrote\<close>

definition GenericClaims_printed :: "lib \<Rightarrow> generic_claims \<Rightarrow> json" where
  "GenericClaims_printed L c = JObject (wirePayload L c (GenericClaims_nats c))"

definition GenericClaims_reread :: "generic_claims \<Rightarrow> generic_claims" where
  "GenericClaims_reread c =
     (reread_base (fields_of (json_norm (JObject (GenericClaims_nats c)))) c)\<lparr>tags := []\<rparr>"

lemma GenericClaims_encode_Inr:
  assumes "GenericClaims_encodeWithSigner L now c k sign = (Inr token, c')"
  shows "c' = c\<lparr>issuer := k, issuedAt := now\<rparr>" and "IsValidPublicKey L k"
    and "subject c' \<noteq> []"
    and "finishEncode L (issuer c') sign (basePayload c') (GenericClaims_nats c') = Inr token"
  using assms
  by (auto simp: GenericClaims_encodeWithSigner_def Let_def GenericClaims_validate_def bindE_Inr_iff
      GenericClaims_checkStructure_def split: if_splits)

lemma genericData_printed:
  "genericData False (smap_map json_norm (wirePayload L c nats)) = smap_map json_norm nats"
  by (auto simp: genericData_def wirePayload_fields setIf_def Let_def split: option.splits json.splits)

lemma readGeneric_roundtrip:
  assumes "subject c \<noteq> []"
  shows "readGeneric False (issuer c) (subject c)
      (smap_map json_norm (wirePayload L c (GenericClaims_nats c))) = Inr (GenericClaims_reread c)"
proof -
  let ?n = "GenericClaims_nats c"
  have j: "JObject (smap_map json_norm (wirePayload L c ?n)) = json_norm (JObject (wirePayload L c ?n))"
    by simp
  note b = reread_base_reads [of L c ?n]
  have c: "\<lparr>natsRaw = smap_map json_norm ?n, subject = subject c, issuer = issuer c,
      name = reread_name (name c), issuedAt = issuedAt c, expires = reread_time (expires c),
      audience = audience c, notBefore = reread_time (notBefore c), tags = []\<rparr> = GenericClaims_reread c"
    by (simp add: GenericClaims_reread_def reread_base_def)
  have st: "GenericClaims_checkStructure (GenericClaims_reread c) = Inr ()"
    using assms by (simp add: GenericClaims_checkStructure_def GenericClaims_reread_def reread_base_def)
  show ?thesis
    unfolding readGeneric_def Let_def j b bindE.simps genericData_printed c st by (rule refl)
qed

lemma encoded_generic_decodes:
  assumes enc: "GenericClaims_encodeWithSigner L now c k sign = (Inr token, c')"
    and "lib_ok L" "json_faithful L header_json" and faithful: "json_faithful L (GenericClaims_printed L c')"
    and "length token \<le> MAX_JWT_SIZE"
  shows "decodeGeneric L token = Inr (GenericClaims_reread c')"
proof -
  note e = GenericClaims_encode_Inr [OF enc]
  let ?w = "wirePayload L c' (GenericClaims_nats c')"
  obtain pj where dump: "json_dump L (JObject ?w) = Inr pj"
    and sign: "signAndAssemble L pj (issuer c') sign = Inr token"
    by (rule finishEncode_Inr [OF e(4)])
  have pj: "json_parse L pj = Inr (JObject (smap_map json_norm ?w))"
    using json_faithfulD [OF faithful [unfolded GenericClaims_printed_def] dump] by simp
  obtain h p s where w: "wire L token h p s JWT_ALGORITHM (smap_map json_norm ?w)"
    and v: "verifySignature L (issuer c') (h @ ''.'' @ p) s"
    by (rule signAndAssemble_wire [OF assms(2,3) sign assms(5) pj])
  have "stringAt (smap_map json_norm ?w) ''iss'' = Some (issuer c')"
    "stringAt (smap_map json_norm ?w) ''sub'' = Some (subject c')"
    by (simp_all add: stringAt_def wirePayload_fields)
  moreover have "(JWT_ALGORITHM = ''ed25519'') = False" by (simp add: JWT_ALGORITHM_def)
  ultimately show ?thesis
    using v readGeneric_roundtrip [OF e(3), of L]
    by (simp add: decodeGeneric_wire [OF w] openGeneric_def Let_def)
qed

lemma appending_GenericClaims_report: "appending (GenericClaims_report now c)"
  unfolding GenericClaims_report_def by (rule appending_addTimeChecks)

interpretation generic_report: reporter "GenericClaims_report now c"
  by (rule reporterI [OF appending_GenericClaims_report])

section \<open>Properties\<close>

text \<open>
  Generic decoding is authenticated, and closed under the library's errors. When it returns, the
  token is three chunks with an acceptable header, the payload is an object that names the issuer and
  the (non-empty) subject of the claims, and the signature verifies under that issuer over the
  payload chunk when the header names the version 1 algorithm and over header and payload otherwise;
  the data are the token's \<open>nats\<close> object. When it fails, the error is one of the library's own.
\<close>

lemma decodeGeneric_authenticates:
  "case decodeGeneric L t of
     Inr c \<Rightarrow> (\<exists>h p s alg obj. wire L t h p s alg obj \<and>
       stringAt obj ''iss'' = Some (issuer c) \<and> stringAt obj ''sub'' = Some (subject c) \<and>
       subject c \<noteq> [] \<and> natsRaw c = genericData (alg = ''ed25519'') obj \<and>
       verifySignature L (issuer c) (if alg = ''ed25519'' then p else h @ ''.'' @ p) s)
   | Inl e \<Rightarrow> is_jwt_error e"
proof (cases "decodeGeneric L t")
  case (Inl e)
  then show ?thesis using decodeGeneric_error by simp
next
  case (Inr c)
  obtain h p s alg obj where w: "wire L t h p s alg obj"
    and o': "openGeneric L (parts_of h p s) alg (JObject obj) = Inr c"
    by (rule decodeGeneric_Inr [OF Inr])
  show ?thesis unfolding Inr sum.case using w openGeneric_Inr [OF o'] by blast
qed

text \<open>
  C27: What a generic encoder produced, the generic decoder returns, up to an empty name and times that
  are not positive, with version 2 in the data; the type of the claims survives.
\<close>

theorem generic_encode_decode:
  assumes "GenericClaims_encodeWithSigner L now c k sign = (Inr token, c')"
    and "lib_ok L" and "json_faithful L header_json" and "json_faithful L (GenericClaims_printed L c')"
    and "length token \<le> MAX_JWT_SIZE"
  shows "decodeGeneric L token = Inr (GenericClaims_reread c') \<and>
    claimType (GenericClaims_reread c') = claimType c \<and> c' = c\<lparr>issuer := k, issuedAt := now\<rparr>"
proof -
  have c': "c' = c\<lparr>issuer := k, issuedAt := now\<rparr>" by (rule GenericClaims_encode_Inr [OF assms(1)])
  have "claimType (GenericClaims_reread c') = claimType c"
    by (rule claimType_norm)
       (simp_all add: c' GenericClaims_reread_def reread_base_def GenericClaims_nats_def)
  then show ?thesis using encoded_generic_decodes [OF assms] c' by blast
qed

definition demo_generic :: generic_claims where
  "demo_generic = (GenericClaims_new ''S1'')\<lparr>natsRaw := [(''type'', JString ''my_type'')]\<rparr>"

lemma demo_generic_encodes:
  "GenericClaims_encodeWithSigner (demo_lib j) 5 demo_generic ''O1'' (signerFor (demo_pair ''O1'')) =
     (Inr (demo_token ''O1''), demo_generic\<lparr>issuer := ''O1'', issuedAt := 5\<rparr>)"
proof -
  have "GenericClaims_validate 5 (demo_generic\<lparr>issuer := ''O1'', issuedAt := 5\<rparr>) = Inr ()"
    by (simp add: GenericClaims_validate_def GenericClaims_checkStructure_def GenericClaims_report_def
        demo_generic_def GenericClaims_new_def addTimeChecks_def)
  moreover have "IsValidPublicKey (demo_lib j) ''O1''" by (simp add: demo_lib_def)
  ultimately show ?thesis
    by (simp add: GenericClaims_encodeWithSigner_def demo_finish)
qed

lemma generic_encode_decode_witness:
  "decodeGeneric
     (demo_lib (demo_wire (demo_generic\<lparr>issuer := ''O1'', issuedAt := 5\<rparr>)
        (GenericClaims_nats (demo_generic\<lparr>issuer := ''O1'', issuedAt := 5\<rparr>))))
     (demo_token ''O1'') = Inr (GenericClaims_reread (demo_generic\<lparr>issuer := ''O1'', issuedAt := 5\<rparr>))"
proof -
  let ?c = "demo_generic\<lparr>issuer := ''O1'', issuedAt := 5\<rparr>"
  let ?L = "demo_lib (demo_wire ?c (GenericClaims_nats ?c))"
  have "json_faithful ?L (GenericClaims_printed ?L ?c)"
    unfolding GenericClaims_printed_def demo_wirePayload by (rule demo_faithful)
  then show ?thesis
    using generic_encode_decode [OF demo_generic_encodes demo_lib_ok demo_header _ demo_token_length]
    by blast
qed

end
