(* ===== verification/AuthRequest.thy ===== *)
theory AuthRequest
  imports ClaimsBase
begin

text \<open>
  Authorization requests of the auth callout (\<^verbatim>\<open>authorization_claims.hpp\<close>,
  \<^verbatim>\<open>src/authorization_claims.cpp\<close>): what a server says about itself, the connecting client, its
  connect options and its TLS state, each with its two conversions; the claims object, its checks,
  encoding and decoding. The code shared with the responses (\<open>putIfSet\<close>, the decode preamble) is here.

  Every request can be encoded, but one with a negative \<open>protocol\<close> cannot be decoded again, so the
  class implements \<open>claims_encoder\<close> and not \<open>claims_class\<close>.
\<close>

section \<open>What a request holds\<close>

record ServerID =
  s_name :: string
  s_host :: string
  s_id :: string
  s_version :: string
  s_cluster :: string
  s_tags :: "string list"
  s_xkey :: string

record ClientInformation =
  ci_host :: string
  ci_id :: uint64
  ci_user :: string
  ci_name :: string
  ci_tags :: "string list"
  ci_nameTag :: string
  ci_kind :: string
  ci_type :: string
  ci_mqttId :: string
  ci_nonce :: string

record ConnectOptions =
  co_jwt :: string
  co_nkey :: string
  co_signedNonce :: string
  co_token :: string
  co_username :: string
  co_password :: string
  co_name :: string
  co_lang :: string
  co_version :: string
  co_protocol :: int32

record ClientTLS =
  tls_version :: string
  tls_cipher :: string
  tls_certs :: "string list"
  tls_verifiedChains :: "string list list"

definition no_server :: ServerID where
  "no_server = \<lparr>s_name = [], s_host = [], s_id = [], s_version = [], s_cluster = [], s_tags = [], s_xkey = []\<rparr>"

definition no_client :: ClientInformation where
  "no_client = \<lparr>ci_host = [], ci_id = 0, ci_user = [], ci_name = [], ci_tags = [], ci_nameTag = [],
     ci_kind = [], ci_type = [], ci_mqttId = [], ci_nonce = []\<rparr>"

definition no_options :: ConnectOptions where
  "no_options = \<lparr>co_jwt = [], co_nkey = [], co_signedNonce = [], co_token = [], co_username = [],
     co_password = [], co_name = [], co_lang = [], co_version = [], co_protocol = 0\<rparr>"

section \<open>Writing\<close>

definition putIfSet :: "string \<Rightarrow> string \<Rightarrow> json smap \<Rightarrow> json smap" where
  "putIfSet k v o' = (if v \<noteq> [] then smap_put k (JString v) o' else smap_del k o')"

definition putStringsIfSet :: "string \<Rightarrow> string list \<Rightarrow> json smap \<Rightarrow> json smap" where
  "putStringsIfSet k v o' = (if v \<noteq> [] then smap_put k (json_strings v) o' else smap_del k o')"

definition serverIdToJson :: "ServerID \<Rightarrow> json" where
  "serverIdToJson s =
     JObject (putIfSet ''xkey'' (s_xkey s) (putStringsIfSet ''tags'' (s_tags s)
       (putIfSet ''cluster'' (s_cluster s) (putIfSet ''version'' (s_version s)
         (smap_of [(''name'', JString (s_name s)), (''host'', JString (s_host s)), (''id'', JString (s_id s))])))))"

definition clientInfoToJson :: "ClientInformation \<Rightarrow> json" where
  "clientInfoToJson c =
     (let o1 = setIf (ci_id c \<noteq> 0) ''id'' (JUnsigned (ci_id c)) (putIfSet ''host'' (ci_host c) []);
          o2 = putStringsIfSet ''tags'' (ci_tags c) (putIfSet ''name'' (ci_name c) (putIfSet ''user'' (ci_user c) o1));
          o3 = putIfSet ''type'' (ci_type c) (putIfSet ''kind'' (ci_kind c) (putIfSet ''name_tag'' (ci_nameTag c) o2))
      in JObject (putIfSet ''nonce'' (ci_nonce c) (putIfSet ''mqtt_id'' (ci_mqttId c) o3)))"

definition connectOptsToJson :: "ConnectOptions \<Rightarrow> json" where
  "connectOptsToJson c =
     (let o1 = putIfSet ''sig'' (co_signedNonce c) (putIfSet ''nkey'' (co_nkey c) (putIfSet ''jwt'' (co_jwt c) []));
          o2 = putIfSet ''pass'' (co_password c) (putIfSet ''user'' (co_username c)
                 (putIfSet ''auth_token'' (co_token c) o1));
          o3 = putIfSet ''version'' (co_version c) (putIfSet ''lang'' (co_lang c) (putIfSet ''name'' (co_name c) o2))
      in JObject (smap_put ''protocol'' (JInteger (scast (co_protocol c))) o3))"

definition clientTlsToJson :: "ClientTLS \<Rightarrow> json" where
  "clientTlsToJson t =
     JObject (setIf (tls_verifiedChains t \<noteq> []) ''verified_chains'' (JArray (map json_strings (tls_verifiedChains t)))
       (putStringsIfSet ''certs'' (tls_certs t) (putIfSet ''cipher'' (tls_cipher t)
         (putIfSet ''version'' (tls_version t) []))))"

section \<open>Reading\<close>

definition serverIdFromJson :: "json \<Rightarrow> exn + ServerID" where
  "serverIdFromJson j =
     bindE (value_string j ''name'' []) (\<lambda>nm.
     bindE (value_string j ''host'' []) (\<lambda>host.
     bindE (value_string j ''id'' []) (\<lambda>ident.
     bindE (value_string j ''version'' []) (\<lambda>ver.
     bindE (value_string j ''cluster'' []) (\<lambda>cluster.
     bindE (stringsField j ''tags'') (\<lambda>tgs.
     bindE (value_string j ''xkey'' []) (\<lambda>xkey.
       Inr \<lparr>s_name = nm, s_host = host, s_id = ident, s_version = ver, s_cluster = cluster,
             s_tags = tgs, s_xkey = xkey\<rparr>)))))))"

definition clientInfoFromJson :: "json \<Rightarrow> exn + ClientInformation" where
  "clientInfoFromJson j =
     bindE (value_string j ''host'' []) (\<lambda>host.
     bindE (uintField j ''id'' 0 (- 1)) (\<lambda>ident.
     bindE (value_string j ''user'' []) (\<lambda>user.
     bindE (value_string j ''name'' []) (\<lambda>nm.
     bindE (stringsField j ''tags'') (\<lambda>tgs.
     bindE (value_string j ''name_tag'' []) (\<lambda>tag.
     bindE (value_string j ''kind'' []) (\<lambda>kind.
     bindE (value_string j ''type'' []) (\<lambda>ty.
     bindE (value_string j ''mqtt_id'' []) (\<lambda>mqtt.
     bindE (value_string j ''nonce'' []) (\<lambda>nonce.
       Inr \<lparr>ci_host = host, ci_id = ident, ci_user = user, ci_name = nm, ci_tags = tgs, ci_nameTag = tag,
             ci_kind = kind, ci_type = ty, ci_mqttId = mqtt, ci_nonce = nonce\<rparr>))))))))))"

definition connectOptsFromJson :: "json \<Rightarrow> exn + ConnectOptions" where
  "connectOptsFromJson j =
     bindE (value_string j ''jwt'' []) (\<lambda>jw.
     bindE (value_string j ''nkey'' []) (\<lambda>nk.
     bindE (value_string j ''sig'' []) (\<lambda>sg.
     bindE (value_string j ''auth_token'' []) (\<lambda>tok.
     bindE (value_string j ''user'' []) (\<lambda>user.
     bindE (value_string j ''pass'' []) (\<lambda>pass.
     bindE (value_string j ''name'' []) (\<lambda>nm.
     bindE (value_string j ''lang'' []) (\<lambda>lang.
     bindE (value_string j ''version'' []) (\<lambda>ver.
     bindE (uintField j ''protocol'' 0 (2 ^ 31 - 1)) (\<lambda>proto.
       Inr \<lparr>co_jwt = jw, co_nkey = nk, co_signedNonce = sg, co_token = tok, co_username = user,
             co_password = pass, co_name = nm, co_lang = lang, co_version = ver,
             co_protocol = ucast proto\<rparr>))))))))))"

definition chainsField :: "json \<Rightarrow> string \<Rightarrow> exn + string list list" where
  "chainsField j k =
     bindE (arrayField j k) (\<lambda>a. case a of None \<Rightarrow> Inr [] | Some xs \<Rightarrow> get_string_lists (JArray xs))"

definition clientTlsFromJson :: "json \<Rightarrow> exn + ClientTLS" where
  "clientTlsFromJson j =
     bindE (value_string j ''version'' []) (\<lambda>ver.
     bindE (value_string j ''cipher'' []) (\<lambda>ciph.
     bindE (stringsField j ''certs'') (\<lambda>crts.
     bindE (chainsField j ''verified_chains'') (\<lambda>chains.
       Inr \<lparr>tls_version = ver, tls_cipher = ciph, tls_certs = crts, tls_verifiedChains = chains\<rparr>))))"

text \<open>\<open>if (const auto* o = objectField(nats, k)) d = f(*o);\<close>\<close>

definition objectOr :: "'a \<Rightarrow> (json \<Rightarrow> exn + 'a) \<Rightarrow> json \<Rightarrow> string \<Rightarrow> exn + 'a" where
  "objectOr d rd j k = bindE (objectField j k) (\<lambda>v. case v of None \<Rightarrow> Inr d | Some o' \<Rightarrow> rd o')"

definition tlsField :: "json \<Rightarrow> exn + ClientTLS option" where
  "tlsField = (\<lambda>j. objectOr None (\<lambda>o'. bindE (clientTlsFromJson o') (\<lambda>t. Inr (Some t))) j ''client_tls'')"

section \<open>The claims object\<close>

record request_claims = base +
  server :: ServerID
  userNkey :: string
  client :: ClientInformation
  connect :: ConnectOptions
  tls :: "ClientTLS option"
  requestNonce :: string

definition AuthorizationRequestClaims_new :: "string \<Rightarrow> request_claims" where
  "AuthorizationRequestClaims_new sbj =
     \<lparr>natsRaw = [], subject = sbj, issuer = [], name = None, issuedAt = 0, expires = 0, audience = [],
      notBefore = 0, tags = [], server = no_server, userNkey = [], client = no_client,
      connect = no_options, tls = None, requestNonce = []\<rparr>"

definition setUserNkey :: "string \<Rightarrow> request_claims \<Rightarrow> request_claims" where
  "setUserNkey k c = c\<lparr>userNkey := k\<rparr>"

definition setRequestNonce :: "string \<Rightarrow> request_claims \<Rightarrow> request_claims" where
  "setRequestNonce n c = c\<lparr>requestNonce := n\<rparr>"

definition AuthRequest_checkStructure :: "lib \<Rightarrow> request_claims \<Rightarrow> exn + unit" where
  "AuthRequest_checkStructure L c =
     bindE (throw_if (subject c = []) (InvalidClaimsError ''Authorization request subject cannot be empty'')) (\<lambda>_.
       checkIssuerKind L (issuer c) ''N'' ''Authorization request'')"

definition AuthRequest_report :: "lib \<Rightarrow> int64 \<Rightarrow> request_claims \<Rightarrow> results \<Rightarrow> results" where
  "AuthRequest_report L now c vr =
     (let vr1 = addTimeChecks now vr (expires c) (notBefore c)
      in if userNkey c = [] then addError vr1 ''User nkey is required''
         else error_if (\<not> IsValidPublicUserKey L (userNkey c))
                (''User nkey '' @ quoted (userNkey c) @ '' is not a valid user public key'') vr1)"

definition AuthRequest_validate :: "lib \<Rightarrow> int64 \<Rightarrow> request_claims \<Rightarrow> exn + unit" where
  "AuthRequest_validate L now c =
     bindE (AuthRequest_checkStructure L c) (\<lambda>_. throwFirstBlocking (AuthRequest_report L now c []))"

definition AuthRequest_nats :: "request_claims \<Rightarrow> json smap" where
  "AuthRequest_nats c =
     (let n1 = smap_put ''user_nkey'' (JString (userNkey c))
                 (smap_put ''server_id'' (serverIdToJson (server c)) (natsRaw c));
          n2 = smap_put ''connect_opts'' (connectOptsToJson (connect c))
                 (smap_put ''client_info'' (clientInfoToJson (client c)) n1)
      in finishNats ''authorization_request'' (tags c)
           (putIfSet ''request_nonce'' (requestNonce c) (putOrErase ''client_tls'' clientTlsToJson (tls c) n2)))"

definition AuthRequest_encodeWithSigner ::
  "lib \<Rightarrow> int64 \<Rightarrow> request_claims \<Rightarrow> string \<Rightarrow> signer \<Rightarrow> (exn + string) \<times> request_claims" where
  "AuthRequest_encodeWithSigner L now c issuerPublicKey sign =
     (case checkIssuerKind L issuerPublicKey ''N'' ''Authorization request'' of
        Inl e \<Rightarrow> (Inl e, c)
      | Inr _ \<Rightarrow>
          (let c' = c\<lparr>issuer := issuerPublicKey, issuedAt := now\<rparr>
           in (bindE (AuthRequest_validate L now c') (\<lambda>_.
                 finishEncode L issuerPublicKey sign (basePayload c') (AuthRequest_nats c')), c')))"

definition AuthRequest_encode :: "lib \<Rightarrow> int64 \<Rightarrow> request_claims \<Rightarrow> string \<Rightarrow> (exn + string) \<times> request_claims"
  where
  "AuthRequest_encode L now c seed =
     (case FromSeed L seed of
        Inl e \<Rightarrow> (Inl e, c)
      | Inr kp \<Rightarrow> AuthRequest_encodeWithSigner L now c (publicString kp) (signerFor kp))"

section \<open>Decoding\<close>

text \<open>\<open>payload[k]\<close> on a value that is not const inserts null when the key is missing.\<close>

definition index_json :: "json \<Rightarrow> string \<Rightarrow> json" where
  "index_json p k = (case jget p k of None \<Rightarrow> JNull | Some v \<Rightarrow> v)"

text \<open>The preamble after the envelope, which is outside \<open>guardJson\<close>.\<close>

definition payloadOfType :: "json \<Rightarrow> string \<Rightarrow> exn + json" where
  "payloadOfType p ty =
     (let nats = index_json p ''nats''
      in if \<not> is_object nats \<or> jget nats ''type'' \<noteq> Some (JString ty)
         then Inl (InvalidClaimsError (''JWT type mismatch: expected '' @ squoted ty)) else Inr p)"

definition decodePayloadOfType :: "lib \<Rightarrow> string \<Rightarrow> string \<Rightarrow> exn + json" where
  "decodePayloadOfType L token ty = bindE (decodeEnvelope L token) (\<lambda>env. payloadOfType (payload env) ty)"

definition readRequestBody :: "lib \<Rightarrow> json \<Rightarrow> exn + request_claims" where
  "readRequestBody L p =
     (let nats = index_json p ''nats''
      in bindE (get_string (index_json p ''sub'')) (\<lambda>sbj.
         bindE (get_string (index_json p ''iss'')) (\<lambda>iss.
         bindE (intField p ''iat'' 0) (\<lambda>iat.
         bindE (readName p) (\<lambda>nm.
         bindE (intField p ''exp'' 0) (\<lambda>exp.
         bindE (value_string p ''aud'' []) (\<lambda>aud.
         bindE (intField p ''nbf'' 0) (\<lambda>nbf.
         bindE (stringsField nats ''tags'') (\<lambda>tgs.
         bindE (objectOr no_server serverIdFromJson nats ''server_id'') (\<lambda>srv.
         bindE (value_string nats ''user_nkey'' []) (\<lambda>nkey.
         bindE (objectOr no_client clientInfoFromJson nats ''client_info'') (\<lambda>cli.
         bindE (objectOr no_options connectOptsFromJson nats ''connect_opts'') (\<lambda>opts.
         bindE (tlsField nats) (\<lambda>t.
         bindE (value_string nats ''request_nonce'' []) (\<lambda>nonce.
         let c = \<lparr>natsRaw = fields_of nats, subject = sbj, issuer = iss, name = nm, issuedAt = iat,
                  expires = exp, audience = aud, notBefore = nbf, tags = tgs, server = srv,
                  userNkey = nkey, client = cli, connect = opts, tls = t, requestNonce = nonce\<rparr>
         in bindE (AuthRequest_checkStructure L c) (\<lambda>_. Inr c))))))))))))))))"

definition decodeAuthorizationRequestClaims :: "lib \<Rightarrow> string \<Rightarrow> exn + request_claims" where
  "decodeAuthorizationRequestClaims L token =
     bindE (decodePayloadOfType L token ''authorization_request'') (\<lambda>p. guardJson L (readRequestBody L p))"

section \<open>The structs are read as they were written\<close>

lemma putIfSet_get [map_simps]:
  "smap_get (putIfSet k v m) l = (if l = k then (if v \<noteq> [] then Some (JString v) else None) else smap_get m l)"
  "smap_get (putStringsIfSet k w m) l = (if l = k then (if w \<noteq> [] then Some (json_strings w) else None) else smap_get m l)"
  by (simp_all add: putIfSet_def putStringsIfSet_def)

lemmas written_get = putIfSet_get setIf_get smap_get_put2 smap_get_Nil Let_def

lemma server_roundtrip: "serverIdFromJson (json_norm (serverIdToJson s)) = Inr s"
proof -
  let ?j = "serverIdToJson s"
  have obj: "is_object ?j" by (simp add: serverIdToJson_def)
  have always: "jget ?j ''name'' = Some (JString (s_name s))" "jget ?j ''host'' = Some (JString (s_host s))"
    "jget ?j ''id'' = Some (JString (s_id s))"
    by (simp_all add: serverIdToJson_def written_get smap_get_of)
  have opt: "jget ?j ''version'' = (if s_version s \<noteq> [] then Some (JString (s_version s)) else None)"
    "jget ?j ''cluster'' = (if s_cluster s \<noteq> [] then Some (JString (s_cluster s)) else None)"
    "jget ?j ''xkey'' = (if s_xkey s \<noteq> [] then Some (JString (s_xkey s)) else None)"
    by (simp_all add: serverIdToJson_def written_get smap_get_of)
  have tgs: "jget ?j ''tags'' = (if s_tags s \<noteq> [] then Some (json_strings (s_tags s)) else None)"
    by (simp add: serverIdToJson_def written_get smap_get_of)
  note reads = always [THEN written_string_always [OF obj]] opt [THEN written_string [OF obj]]
    written_strings [OF tgs]
  show ?thesis
    unfolding serverIdFromJson_def reads bindE.simps if_not_Nil by (cases s) simp
qed

lemma client_roundtrip: "clientInfoFromJson (json_norm (clientInfoToJson c)) = Inr c"
proof -
  let ?j = "clientInfoToJson c"
  have obj: "is_object ?j" by (simp add: clientInfoToJson_def Let_def)
  have opt: "jget ?j ''host'' = (if ci_host c \<noteq> [] then Some (JString (ci_host c)) else None)"
    "jget ?j ''user'' = (if ci_user c \<noteq> [] then Some (JString (ci_user c)) else None)"
    "jget ?j ''name'' = (if ci_name c \<noteq> [] then Some (JString (ci_name c)) else None)"
    "jget ?j ''name_tag'' = (if ci_nameTag c \<noteq> [] then Some (JString (ci_nameTag c)) else None)"
    "jget ?j ''kind'' = (if ci_kind c \<noteq> [] then Some (JString (ci_kind c)) else None)"
    "jget ?j ''type'' = (if ci_type c \<noteq> [] then Some (JString (ci_type c)) else None)"
    "jget ?j ''mqtt_id'' = (if ci_mqttId c \<noteq> [] then Some (JString (ci_mqttId c)) else None)"
    "jget ?j ''nonce'' = (if ci_nonce c \<noteq> [] then Some (JString (ci_nonce c)) else None)"
    by (simp_all add: clientInfoToJson_def written_get)
  have ident: "jget ?j ''id'' = (if ci_id c \<noteq> 0 then Some (JUnsigned (ci_id c)) else None)"
    and tgs: "jget ?j ''tags'' = (if ci_tags c \<noteq> [] then Some (json_strings (ci_tags c)) else None)"
    by (simp_all add: clientInfoToJson_def written_get)
  have "ci_id c \<le> - 1" by (rule word_order.extremum)
  note reads = opt [THEN written_string [OF obj]] written_uint [OF ident this] written_strings [OF tgs]
  show ?thesis
    unfolding clientInfoFromJson_def reads bindE.simps if_not_Nil if_not_0 by (cases c) simp
qed

lemma tls_roundtrip: "clientTlsFromJson (json_norm (clientTlsToJson t)) = Inr t"
proof -
  let ?j = "clientTlsToJson t"
  have obj: "is_object ?j" by (simp add: clientTlsToJson_def)
  have opt: "jget ?j ''version'' = (if tls_version t \<noteq> [] then Some (JString (tls_version t)) else None)"
    "jget ?j ''cipher'' = (if tls_cipher t \<noteq> [] then Some (JString (tls_cipher t)) else None)"
    by (simp_all add: clientTlsToJson_def written_get)
  have crts: "jget ?j ''certs'' = (if tls_certs t \<noteq> [] then Some (json_strings (tls_certs t)) else None)"
    by (simp add: clientTlsToJson_def written_get)
  have ch: "jget ?j ''verified_chains'' =
      (if tls_verifiedChains t \<noteq> [] then Some (JArray (map json_strings (tls_verifiedChains t))) else None)"
    by (simp add: clientTlsToJson_def written_get)
  have "mapE get_strings (map (json_norm \<circ> json_strings) sss) = Inr sss" for sss
    by (induction sss) simp_all
  then have chains: "chainsField (json_norm ?j) ''verified_chains'' = Inr (tls_verifiedChains t)"
    by (cases "tls_verifiedChains t = []") (simp_all add: chainsField_def arrayField_def ch)
  note reads = opt [THEN written_string [OF obj]] written_strings [OF crts] chains
  show ?thesis
    unfolding clientTlsFromJson_def reads bindE.simps if_not_Nil by (cases t) simp
qed

text \<open>A negative protocol number is written and then refused.\<close>

definition negative_protocol :: exn where
  "negative_protocol = MalformedTokenError (field_what ''protocol'' ''must be a non-negative integer'')"

lemma protocol_read:
  assumes "jget j ''protocol'' = Some (JInteger (scast (n :: int32)))"
  shows "uintField (json_norm j) ''protocol'' 0 (2 ^ 31 - 1) =
    (if 0 \<le> sint n then Inr (scast n) else Inl negative_protocol)"
proof -
  have n: "sint (scast n :: int64) = sint n" by (rule sint_scast_int32)
  show ?thesis
  proof (cases "0 \<le> sint n")
    case True
    then have "uint (scast n :: int64) = sint n" using n by (simp add: uint_sint_nonneg)
    moreover have "sint n < 2 ^ 31" using sint_lt [of n] by simp
    ultimately have "(scast n :: int64) \<le> 2 ^ 31 - 1" by (simp add: word_le_def)
    with True show ?thesis by (simp add: uintField_def assms n Let_def)
  qed (simp add: uintField_def assms n Let_def negative_protocol_def)
qed

lemma options_roundtrip:
  "connectOptsFromJson (json_norm (connectOptsToJson c)) =
     (if 0 \<le> sint (co_protocol c) then Inr c else Inl negative_protocol)"
proof -
  let ?j = "connectOptsToJson c"
  have obj: "is_object ?j" by (simp add: connectOptsToJson_def Let_def)
  have opt: "jget ?j ''jwt'' = (if co_jwt c \<noteq> [] then Some (JString (co_jwt c)) else None)"
    "jget ?j ''nkey'' = (if co_nkey c \<noteq> [] then Some (JString (co_nkey c)) else None)"
    "jget ?j ''sig'' = (if co_signedNonce c \<noteq> [] then Some (JString (co_signedNonce c)) else None)"
    "jget ?j ''auth_token'' = (if co_token c \<noteq> [] then Some (JString (co_token c)) else None)"
    "jget ?j ''user'' = (if co_username c \<noteq> [] then Some (JString (co_username c)) else None)"
    "jget ?j ''pass'' = (if co_password c \<noteq> [] then Some (JString (co_password c)) else None)"
    "jget ?j ''name'' = (if co_name c \<noteq> [] then Some (JString (co_name c)) else None)"
    "jget ?j ''lang'' = (if co_lang c \<noteq> [] then Some (JString (co_lang c)) else None)"
    "jget ?j ''version'' = (if co_version c \<noteq> [] then Some (JString (co_version c)) else None)"
    by (simp_all add: connectOptsToJson_def written_get)
  have proto: "jget ?j ''protocol'' = Some (JInteger (scast (co_protocol c)))"
    by (simp add: connectOptsToJson_def written_get)
  note reads = opt [THEN written_string [OF obj]] protocol_read [OF proto]
  have "ucast (scast (co_protocol c) :: uint64) = co_protocol c" by (rule ucast_scast_int32)
  then show ?thesis
    unfolding connectOptsFromJson_def reads if_not_Nil by (cases c) simp
qed

interpretation server_codec: json_codec serverIdToJson serverIdFromJson "\<lambda>s. s"
  by unfold_locales (simp_all add: server_roundtrip)

interpretation client_codec: json_codec clientInfoToJson clientInfoFromJson "\<lambda>c. c"
  by unfold_locales (simp_all add: client_roundtrip)

interpretation tls_codec: json_codec clientTlsToJson clientTlsFromJson "\<lambda>t. t"
  by unfold_locales (simp_all add: tls_roundtrip)

section \<open>The class reads what it wrote\<close>

lemma AuthRequest_nats_fields:
  "smap_get (AuthRequest_nats c) ''type'' = Some (JString ''authorization_request'')"
  "smap_get (AuthRequest_nats c) ''version'' = Some (JInteger (word_of_int JWT_VERSION))"
  "jget (JObject (AuthRequest_nats c)) ''type'' = Some (JString ''authorization_request'')"
  "jget (JObject (AuthRequest_nats c)) ''tags'' = (if tags c \<noteq> [] then Some (json_strings (tags c)) else None)"
  "jget (JObject (AuthRequest_nats c)) ''server_id'' = Some (serverIdToJson (server c))"
  "jget (JObject (AuthRequest_nats c)) ''user_nkey'' = Some (JString (userNkey c))"
  "jget (JObject (AuthRequest_nats c)) ''client_info'' = Some (clientInfoToJson (client c))"
  "jget (JObject (AuthRequest_nats c)) ''connect_opts'' = Some (connectOptsToJson (connect c))"
  "jget (JObject (AuthRequest_nats c)) ''client_tls'' = map_option clientTlsToJson (tls c)"
  "jget (JObject (AuthRequest_nats c)) ''request_nonce'' =
     (if requestNonce c \<noteq> [] then Some (JString (requestNonce c)) else None)"
  by (simp_all add: AuthRequest_nats_def Let_def nats_get putIfSet_get)

definition AuthRequest_printed :: "lib \<Rightarrow> request_claims \<Rightarrow> json" where
  "AuthRequest_printed L c = JObject (wirePayload L c (AuthRequest_nats c))"

definition AuthRequest_reread :: "request_claims \<Rightarrow> request_claims" where
  "AuthRequest_reread c = reread_base (fields_of (json_norm (JObject (AuthRequest_nats c)))) c"

lemma index_names:
  fixes c nats L
  defines "p \<equiv> json_norm (JObject (wirePayload L c nats))"
  shows "index_json p ''nats'' = json_norm (JObject nats)"
    and "get_string (index_json p ''sub'') = Inr (subject c)"
    and "get_string (index_json p ''iss'') = Inr (issuer c)"
  by (simp_all add: p_def index_json_def wirePayload_fields del: json_norm.simps(3))

lemma objectOr_written:
  "jget j k = Some v \<Longrightarrow> is_object v \<Longrightarrow> objectOr d rd (json_norm j) k = rd (json_norm v)"
  by (cases v) (simp_all add: objectOr_def written_object del: json_norm.simps)

lemma tlsField_written:
  "jget j ''client_tls'' = map_option clientTlsToJson t \<Longrightarrow> tlsField (json_norm j) = Inr t"
proof (cases t)
  case (Some x)
  have obj: "is_object (clientTlsToJson x)" by (simp add: clientTlsToJson_def)
  assume "jget j ''client_tls'' = map_option clientTlsToJson t"
  then have "jget j ''client_tls'' = Some (clientTlsToJson x)" by (simp add: Some)
  then show ?thesis by (simp add: objectOr_written [OF _ obj] tlsField_def tls_roundtrip Some)
qed (simp add: tlsField_def objectOr_def unwritten_object)

lemma readRequestBody_roundtrip:
  assumes "AuthRequest_checkStructure L c = Inr ()"
  shows "readRequestBody L (json_norm (AuthRequest_printed L c)) =
    (if 0 \<le> sint (co_protocol (connect c)) then Inr (AuthRequest_reread c) else Inl negative_protocol)"
proof -
  let ?n = "JObject (AuthRequest_nats c)"
  note b = index_names [of L c "AuthRequest_nats c"] reread_base_reads(4-) [of L c "AuthRequest_nats c"]
  note f = AuthRequest_nats_fields [where c = c]
  have obj: "is_object ?n" "is_object (serverIdToJson s)" "is_object (clientInfoToJson i)"
    "is_object (connectOptsToJson k)" for s i k
    by (simp_all add: serverIdToJson_def clientInfoToJson_def connectOptsToJson_def Let_def)
  note reads = written_strings [OF f(4)] written_string_always [OF obj(1) f(6)] written_string [OF obj(1) f(10)]
    tlsField_written [OF f(9)]
    objectOr_written [OF f(5) obj(2)] objectOr_written [OF f(7) obj(3)] objectOr_written [OF f(8) obj(4)]
    server_roundtrip client_roundtrip options_roundtrip
  have c: "\<lparr>natsRaw = fields_of (json_norm ?n), subject = subject c, issuer = issuer c,
      name = reread_name (name c), issuedAt = issuedAt c, expires = reread_time (expires c),
      audience = audience c, notBefore = reread_time (notBefore c), tags = tags c, server = server c,
      userNkey = userNkey c, client = client c, connect = connect c, tls = tls c,
      requestNonce = requestNonce c\<rparr> = AuthRequest_reread c"
    by (simp add: AuthRequest_reread_def reread_base_def)
  have struct: "AuthRequest_checkStructure L (AuthRequest_reread c) = Inr ()"
    using assms by (simp add: AuthRequest_checkStructure_def AuthRequest_reread_def reread_base_def)
  show ?thesis
  proof (cases "0 \<le> sint (co_protocol (connect c))")
    case True
    then show ?thesis
      unfolding readRequestBody_def AuthRequest_printed_def Let_def b bindE.simps reads if_not_Nil
        if_P [OF True] c struct
      by (simp only:)
  next
    case False
    show ?thesis
      unfolding readRequestBody_def AuthRequest_printed_def Let_def b bindE.simps reads if_not_Nil
        if_not_P [OF False]
      by (rule refl)
  qed
qed

section \<open>The decoder in the form of the other classes\<close>

definition readRequest :: "lib \<Rightarrow> json \<Rightarrow> exn + request_claims" where
  "readRequest L p = bindE (payloadOfType p ''authorization_request'') (readRequestBody L)"

lemma payloadOfType_Inl: "payloadOfType p ty = Inl e \<Longrightarrow> \<exists>m. e = InvalidClaimsError m"
  by (auto simp: payloadOfType_def Let_def split: if_splits)

lemma payloadOfType_guard:
  "bindE (bindE m (\<lambda>env. payloadOfType (payload env) ty)) (\<lambda>p. guardJson L (f p)) =
     bindE m (\<lambda>env. guardJson L (bindE (payloadOfType (payload env) ty) f))"
proof (cases m)
  case (Inr env)
  show ?thesis
  proof (cases "payloadOfType (payload env) ty")
    case (Inl e)
    then obtain w where "e = InvalidClaimsError w" using payloadOfType_Inl by blast
    then show ?thesis using Inl \<open>m = Inr env\<close> by (simp add: guardJson_def)
  qed (simp add: Inr)
qed simp

lemma payloadOfType_printed:
  assumes "smap_get nats ''type'' = Some (JString ty)"
  shows "payloadOfType (json_norm (JObject (wirePayload L c nats))) ty =
    Inr (json_norm (JObject (wirePayload L c nats)))"
  unfolding payloadOfType_def Let_def index_names using assms by simp

lemma payloadOfType_Inr:
  "payloadOfType p ty = Inr q \<longleftrightarrow>
     q = p \<and> (\<exists>n. jget p ''nats'' = Some (JObject n) \<and> smap_get n ''type'' = Some (JString ty))"
  by (cases "index_json p ''nats''") (auto simp: payloadOfType_def index_json_def Let_def split: option.splits)

lemma index_string: "get_string (index_json p k) = Inr s \<longleftrightarrow> at_string p k = Inr s"
  by (auto simp: index_json_def at_string_def split: option.splits)

lemma tame_objectOr [tame_intros]: "(\<And>v. tame (rd v)) \<Longrightarrow> tame (objectOr d rd j k)"
  unfolding objectOr_def by (intro tame_intros)

lemma tame_payloadOfType [tame_intros]: "tame (payloadOfType p ty)"
  unfolding payloadOfType_def Let_def by (intro tame_intros)

lemma tame_chainsField [tame_intros]: "tame (chainsField j k)"
proof -
  have "tame (get_string_lists v)" for v by (cases v) (auto intro: tame_intros)
  then show ?thesis unfolding chainsField_def by (intro tame_intros)
qed

lemma tame_readRequest: "tame (readRequest L p)"
proof -
  have st: "tame (AuthRequest_checkStructure L c)" for c
    unfolding AuthRequest_checkStructure_def by (intro tame_intros) simp
  have srv: "tame (serverIdFromJson j)" "tame (clientInfoFromJson j)" "tame (connectOptsFromJson j)"
    "tame (tlsField j)" for j
    unfolding serverIdFromJson_def clientInfoFromJson_def connectOptsFromJson_def tlsField_def clientTlsFromJson_def
    by (intro tame_intros)+
  show ?thesis
    unfolding readRequest_def readRequestBody_def Let_def by (intro tame_intros st srv)
qed

lemma AuthRequest_encode_Inr:
  assumes "AuthRequest_encodeWithSigner L now c k sign = (Inr token, c')"
  shows "c' = c\<lparr>issuer := k, issuedAt := now\<rparr>"
    and "AuthRequest_checkStructure L c' = Inr ()"
    and "\<not> isBlocking (AuthRequest_report L now c' []) False"
    and "finishEncode L (issuer c') sign (basePayload c') (AuthRequest_nats c') = Inr token"
  using assms
  by (auto simp: AuthRequest_encodeWithSigner_def Let_def AuthRequest_validate_def bindE_Inr_iff
      throwFirstBlocking_Inr_iff split: sum.splits)

interpretation request_class:
  claims_encoder readRequest decodeAuthorizationRequestClaims AuthRequest_encodeWithSigner AuthRequest_printed
proof
  show "decodeAuthorizationRequestClaims L t =
      bindE (decodeEnvelope L t) (\<lambda>env. guardJson L (readRequest L (payload env)))" for L t
    unfolding decodeAuthorizationRequestClaims_def decodePayloadOfType_def readRequest_def
    by (rule payloadOfType_guard)
  show "tame (readRequest L p)" for L p by (rule tame_readRequest)
next
  fix L now c k sign token c'
  assume enc: "AuthRequest_encodeWithSigner L now c k sign = (Inr token, c')"
  assume "lib_ok L" "json_faithful L header_json" "json_faithful L (AuthRequest_printed L c')"
    "length token \<le> MAX_JWT_SIZE"
  then show "decodeEnvelope L token =
      Inr \<lparr>payload = json_norm (AuthRequest_printed L c'), version = 2, algorithm = JWT_ALGORITHM\<rparr>"
    using finishEncode_opens [OF _ _ AuthRequest_encode_Inr(4) [OF enc], of "''authorization_request''"]
      AuthRequest_nats_fields(1,2) [of c']
    by (simp add: AuthRequest_printed_def del: json_norm.simps)
qed

section \<open>What is accepted\<close>

lemma AuthRequest_checkStructure_Inr:
  "AuthRequest_checkStructure L c = Inr () \<longleftrightarrow> subject c \<noteq> [] \<and> IsValidPublicServerKey L (issuer c)"
  by (auto simp: AuthRequest_checkStructure_def bindE_Inr_iff checkIssuerKind_Inr_iff kind_check_def)

lemma AuthRequest_report_errors:
  "isBlocking (AuthRequest_report L now c []) False \<longleftrightarrow> userNkey c = [] \<or> \<not> IsValidPublicUserKey L (userNkey c)"
  by (auto simp: isBlocking_False_errors AuthRequest_report_def Let_def)

lemma readRequest_Inr:
  assumes "readRequest L p = Inr c"
  shows "AuthRequest_checkStructure L c = Inr ()" and "at_string p ''iss'' = Inr (issuer c)"
    and "at_string p ''sub'' = Inr (subject c)"
  using assms unfolding readRequest_def readRequestBody_def
  by (auto simp: bindE_Inr_iff payloadOfType_Inr index_string Let_def)

lemma decodeAuthorizationRequest_sound:
  assumes "decodeAuthorizationRequestClaims L t = Inr c"
  shows "names_signer L t (issuer c) (subject c)" and "IsValidPublicServerKey L (issuer c)"
    and "subject c \<noteq> []"
proof -
  obtain env where env: "decodeEnvelope L t = Inr env" "readRequest L (payload env) = Inr c"
    by (rule request_class.decoded_authentic [OF assms])
  note r = readRequest_Inr [OF env(2)]
  show "names_signer L t (issuer c) (subject c)"
    by (rule envelope_names_signer [OF env(1) r(2,3)])
  show "IsValidPublicServerKey L (issuer c)" "subject c \<noteq> []"
    using r(1) by (simp_all add: AuthRequest_checkStructure_Inr)
qed

lemma appending_AuthRequest_report: "appending (AuthRequest_report L now c)"
proof -
  have "appending (\<lambda>vr. if userNkey c = [] then addError vr d else error_if b d' vr)" for b d d'
    by (cases "userNkey c = []") (simp_all add: appending_intros)
  then show ?thesis
    unfolding AuthRequest_report_def Let_def
    by (rule appending_comp [OF _ appending_addTimeChecks])
qed

interpretation request_report: reporter "AuthRequest_report L now c"
  by (rule reporterI [OF appending_AuthRequest_report])

section \<open>Properties\<close>

text \<open>
  C24: An encoded authorization request is decoded to the same request, up to an empty name, times
  that are not positive and the raw \<open>nats\<close> object, exactly when its protocol number is not negative;
  otherwise the decoder refuses what the encoder wrote, with a malformed-token error.
\<close>

theorem request_encode_decode:
  assumes "AuthRequest_encodeWithSigner L now c k sign = (Inr token, c')"
    and "lib_ok L" and "json_faithful L header_json" and "json_faithful L (AuthRequest_printed L c')"
    and "length token \<le> MAX_JWT_SIZE"
  shows "decodeAuthorizationRequestClaims L token =
      (if 0 \<le> sint (co_protocol (connect c)) then Inr (AuthRequest_reread c') else Inl negative_protocol) \<and>
    c' = c\<lparr>issuer := k, issuedAt := now\<rparr> \<and> userNkey c \<noteq> []"
proof -
  note e = AuthRequest_encode_Inr [OF assms(1)]
  have ty: "payloadOfType (json_norm (AuthRequest_printed L c')) ''authorization_request'' =
      Inr (json_norm (AuthRequest_printed L c'))"
    unfolding AuthRequest_printed_def by (rule payloadOfType_printed [OF AuthRequest_nats_fields(1)])
  have c: "connect c' = connect c" "userNkey c' = userNkey c" by (simp_all add: e(1))
  have "decodeAuthorizationRequestClaims L token =
      guardJson L (if 0 \<le> sint (co_protocol (connect c)) then Inr (AuthRequest_reread c') else Inl negative_protocol)"
    unfolding request_class.decode_printed [OF assms] readRequest_def ty bindE.simps
      readRequestBody_roundtrip [OF e(2)] c by (rule refl)
  moreover have "guardJson L (Inl negative_protocol) = Inl negative_protocol"
    by (simp add: guardJson_def negative_protocol_def)
  moreover have "userNkey c \<noteq> []" using e(3) c by (simp add: AuthRequest_report_errors)
  ultimately show ?thesis using e(1) by auto
qed

definition demo_request :: request_claims where
  "demo_request = setUserNkey ''U1'' (AuthorizationRequestClaims_new ''U1'')"

lemma demo_request_encodes:
  "AuthRequest_encodeWithSigner (demo_lib j) 5 demo_request ''N1'' (signerFor (demo_pair ''N1'')) =
     (Inr (demo_token ''N1''), demo_request\<lparr>issuer := ''N1'', issuedAt := 5\<rparr>)"
proof -
  let ?c = "demo_request\<lparr>issuer := ''N1'', issuedAt := 5\<rparr>"
  have "checkIssuerKind (demo_lib j) ''N1'' ''N'' ''Authorization request'' = Inr ()"
    by (simp add: checkIssuerKind_Inr_iff kind_check_def demo_lib_def starts_with_def)
  moreover have "AuthRequest_checkStructure (demo_lib j) ?c = Inr ()"
    by (simp add: AuthRequest_checkStructure_Inr demo_request_def setUserNkey_def
        AuthorizationRequestClaims_new_def demo_lib_def starts_with_def)
  moreover have "AuthRequest_report (demo_lib j) 5 ?c [] = []"
    by (simp add: AuthRequest_report_def demo_request_def setUserNkey_def AuthorizationRequestClaims_new_def
        addTimeChecks_def error_if_def demo_lib_def starts_with_def)
  ultimately show ?thesis
    by (simp add: AuthRequest_encodeWithSigner_def AuthRequest_validate_def demo_finish)
qed

lemma request_encode_decode_witness:
  "decodeAuthorizationRequestClaims
     (demo_lib (demo_wire (demo_request\<lparr>issuer := ''N1'', issuedAt := 5\<rparr>)
        (AuthRequest_nats (demo_request\<lparr>issuer := ''N1'', issuedAt := 5\<rparr>))))
     (demo_token ''N1'') = Inr (AuthRequest_reread (demo_request\<lparr>issuer := ''N1'', issuedAt := 5\<rparr>))"
proof -
  let ?c = "demo_request\<lparr>issuer := ''N1'', issuedAt := 5\<rparr>"
  let ?L = "demo_lib (demo_wire ?c (AuthRequest_nats ?c))"
  have "json_faithful ?L (AuthRequest_printed ?L ?c)"
    unfolding AuthRequest_printed_def demo_wirePayload by (rule demo_faithful)
  moreover have "0 \<le> sint (co_protocol (connect demo_request))"
    by (simp add: demo_request_def setUserNkey_def AuthorizationRequestClaims_new_def no_options_def)
  ultimately show ?thesis
    using request_encode_decode [OF demo_request_encodes demo_lib_ok demo_header _ demo_token_length]
    by simp
qed

end
