(* ===== verification/AuthResponse.thy ===== *)
theory AuthResponse
  imports AuthRequest
begin

text \<open>
  The other half of the auth callout (\<^verbatim>\<open>src/authorization_claims.cpp\<close>): authorization responses, which
  carry either a user token or an error, and the sealed bodies in which requests arrive and responses
  leave when the server has a curve key.

  The class implements \<open>claims_class\<close>. The lemmas also show what opening a sealed request guarantees.
\<close>

section \<open>The claims object\<close>

record response_claims = base +
  r_jwt :: string
  r_error :: string
  r_issuerAccount :: "string option"

definition AuthorizationResponseClaims_new :: "string \<Rightarrow> response_claims" where
  "AuthorizationResponseClaims_new userPublicKey =
     \<lparr>natsRaw = [], subject = userPublicKey, issuer = [], name = None, issuedAt = 0, expires = 0,
      audience = [], notBefore = 0, tags = [], r_jwt = [], r_error = [], r_issuerAccount = None\<rparr>"

definition setJwt :: "string \<Rightarrow> response_claims \<Rightarrow> response_claims" where
  "setJwt j c = c\<lparr>r_jwt := j\<rparr>"

definition setError :: "string \<Rightarrow> response_claims \<Rightarrow> response_claims" where
  "setError e c = c\<lparr>r_error := e\<rparr>"

definition AuthResponse_setIssuerAccount :: "string \<Rightarrow> response_claims \<Rightarrow> response_claims" where
  "AuthResponse_setIssuerAccount a c = c\<lparr>r_issuerAccount := Some a\<rparr>"

definition AuthResponse_checkStructure :: "lib \<Rightarrow> response_claims \<Rightarrow> exn + unit" where
  "AuthResponse_checkStructure L c =
     bindE (throw_if (subject c = []) (InvalidClaimsError ''Authorization response subject cannot be empty'')) (\<lambda>_.
       checkIssuerKind L (issuer c) ''A'' ''Authorization response'')"

definition AuthResponse_report :: "lib \<Rightarrow> int64 \<Rightarrow> response_claims \<Rightarrow> results \<Rightarrow> results" where
  "AuthResponse_report L now c vr =
     (let vr1 = addTimeChecks now vr (expires c) (notBefore c);
          vr2 = error_if (\<not> IsValidPublicUserKey L (subject c)) ''Subject must be a user public key'' vr1;
          vr3 = error_if (\<not> IsValidPublicServerKey L (audience c)) ''Audience must be a server public key'' vr2;
          vr4 = error_if (r_error c = [] \<and> r_jwt c = []) ''Error or Jwt is required'' vr3;
          vr5 = error_if (r_error c \<noteq> [] \<and> r_jwt c \<noteq> []) ''Only Error or Jwt can be set'' vr4
      in error_if (case r_issuerAccount c of None \<Rightarrow> False | Some a \<Rightarrow> \<not> IsValidPublicAccountKey L a)
           ''issuer_account is not an account public key'' vr5)"

definition AuthResponse_validate :: "lib \<Rightarrow> int64 \<Rightarrow> response_claims \<Rightarrow> exn + unit" where
  "AuthResponse_validate L now c =
     bindE (AuthResponse_checkStructure L c) (\<lambda>_. throwFirstBlocking (AuthResponse_report L now c []))"

definition AuthResponse_nats :: "response_claims \<Rightarrow> json smap" where
  "AuthResponse_nats c =
     finishNats ''authorization_response'' (tags c)
       (putOrErase ''issuer_account'' JString (r_issuerAccount c)
         (putIfSet ''error'' (r_error c) (putIfSet ''jwt'' (r_jwt c) (natsRaw c))))"

definition AuthResponse_encodeWithSigner ::
  "lib \<Rightarrow> int64 \<Rightarrow> response_claims \<Rightarrow> string \<Rightarrow> signer \<Rightarrow> (exn + string) \<times> response_claims" where
  "AuthResponse_encodeWithSigner L now c issuerPublicKey sign =
     (case checkIssuerKind L issuerPublicKey ''A'' ''Authorization response'' of
        Inl e \<Rightarrow> (Inl e, c)
      | Inr _ \<Rightarrow>
          (let c' = c\<lparr>issuer := issuerPublicKey, issuedAt := now\<rparr>
           in (bindE (AuthResponse_validate L now c') (\<lambda>_.
                 finishEncode L issuerPublicKey sign (basePayload c') (AuthResponse_nats c')), c')))"

definition AuthResponse_encode :: "lib \<Rightarrow> int64 \<Rightarrow> response_claims \<Rightarrow> string \<Rightarrow> (exn + string) \<times> response_claims"
  where
  "AuthResponse_encode L now c seed =
     (case FromSeed L seed of
        Inl e \<Rightarrow> (Inl e, c)
      | Inr kp \<Rightarrow> AuthResponse_encodeWithSigner L now c (publicString kp) (signerFor kp))"

section \<open>Decoding\<close>

definition readResponseBody :: "lib \<Rightarrow> json \<Rightarrow> exn + response_claims" where
  "readResponseBody L p =
     (let nats = index_json p ''nats''
      in bindE (get_string (index_json p ''sub'')) (\<lambda>sbj.
         bindE (get_string (index_json p ''iss'')) (\<lambda>iss.
         bindE (intField p ''iat'' 0) (\<lambda>iat.
         bindE (readName p) (\<lambda>nm.
         bindE (intField p ''exp'' 0) (\<lambda>exp.
         bindE (value_string p ''aud'' []) (\<lambda>aud.
         bindE (intField p ''nbf'' 0) (\<lambda>nbf.
         bindE (stringsField nats ''tags'') (\<lambda>tgs.
         bindE (value_string nats ''jwt'' []) (\<lambda>jw.
         bindE (value_string nats ''error'' []) (\<lambda>er.
         bindE (readOptString nats ''issuer_account'') (\<lambda>ia.
         let c = \<lparr>natsRaw = fields_of nats, subject = sbj, issuer = iss, name = nm, issuedAt = iat,
                  expires = exp, audience = aud, notBefore = nbf, tags = tgs, r_jwt = jw, r_error = er,
                  r_issuerAccount = ia\<rparr>
         in bindE (AuthResponse_checkStructure L c) (\<lambda>_. Inr c))))))))))))) "

definition decodeAuthorizationResponseClaims :: "lib \<Rightarrow> string \<Rightarrow> exn + response_claims" where
  "decodeAuthorizationResponseClaims L token =
     bindE (decodePayloadOfType L token ''authorization_response'') (\<lambda>p. guardJson L (readResponseBody L p))"

section \<open>Sealed bodies\<close>

definition isSealedCalloutBody :: "byte list \<Rightarrow> bool" where
  "isSealedCalloutBody body \<longleftrightarrow>
     \<not> (3 \<le> length body \<and> body ! 0 = byte_of CHR ''e'' \<and> body ! 1 = byte_of CHR ''y'' \<and>
        body ! 2 = byte_of CHR ''J'')"

definition openAuthorizationRequest :: "lib \<Rightarrow> byte list \<Rightarrow> string \<Rightarrow> string \<Rightarrow> exn + string" where
  "openAuthorizationRequest L sealedBody serverXKey serviceCurveSeed =
     bindE (throw_if (\<not> isSealedCalloutBody sealedBody)
              (MalformedTokenError ''callout body is not a sealed box (it is plain JWT text)'')) (\<lambda>_.
     bindE (FromCurveSeed L serviceCurveSeed) (\<lambda>xkp.
     bindE (curve_open xkp sealedBody serverXKey) (\<lambda>plain.
       Inr (string_of plain))))"

definition decodeSealedAuthorizationRequest ::
  "lib \<Rightarrow> byte list \<Rightarrow> string \<Rightarrow> string \<Rightarrow> exn + request_claims" where
  "decodeSealedAuthorizationRequest L sealedBody serverXKey serviceCurveSeed =
     bindE (openAuthorizationRequest L sealedBody serverXKey serviceCurveSeed) (\<lambda>token.
     bindE (decodeAuthorizationRequestClaims L token) (\<lambda>c.
     bindE (throw_if (s_xkey (server c) \<noteq> serverXKey)
              (InvalidClaimsError (''sealed callout request: Nats-Server-Xkey header '' @ quoted serverXKey @
                 '' does not match the signed server_id.xkey '' @ quoted (s_xkey (server c))))) (\<lambda>_.
       Inr c)))"

definition sealAuthorizationResponse :: "lib \<Rightarrow> string \<Rightarrow> string \<Rightarrow> string \<Rightarrow> exn + byte list" where
  "sealAuthorizationResponse L responseJwt serverXKey serviceCurveSeed =
     bindE (FromCurveSeed L serviceCurveSeed) (\<lambda>xkp. curve_seal xkp (bytes_of responseJwt) serverXKey)"

section \<open>The class reads what it wrote\<close>

lemma AuthResponse_nats_fields:
  "smap_get (AuthResponse_nats c) ''type'' = Some (JString ''authorization_response'')"
  "smap_get (AuthResponse_nats c) ''version'' = Some (JInteger (word_of_int JWT_VERSION))"
  "jget (JObject (AuthResponse_nats c)) ''tags'' = (if tags c \<noteq> [] then Some (json_strings (tags c)) else None)"
  "jget (JObject (AuthResponse_nats c)) ''jwt'' = (if r_jwt c \<noteq> [] then Some (JString (r_jwt c)) else None)"
  "jget (JObject (AuthResponse_nats c)) ''error'' = (if r_error c \<noteq> [] then Some (JString (r_error c)) else None)"
  "jget (JObject (AuthResponse_nats c)) ''issuer_account'' = map_option JString (r_issuerAccount c)"
  by (simp_all add: AuthResponse_nats_def nats_get putIfSet_get)

definition AuthResponse_printed :: "lib \<Rightarrow> response_claims \<Rightarrow> json" where
  "AuthResponse_printed L c = JObject (wirePayload L c (AuthResponse_nats c))"

definition AuthResponse_reread :: "response_claims \<Rightarrow> response_claims" where
  "AuthResponse_reread c = reread_base (fields_of (json_norm (JObject (AuthResponse_nats c)))) c"

definition readResponse :: "lib \<Rightarrow> json \<Rightarrow> exn + response_claims" where
  "readResponse L p = bindE (payloadOfType p ''authorization_response'') (readResponseBody L)"

lemma readResponse_roundtrip:
  assumes "AuthResponse_checkStructure L c = Inr ()"
  shows "readResponse L (json_norm (AuthResponse_printed L c)) = Inr (AuthResponse_reread c)"
proof -
  let ?n = "JObject (AuthResponse_nats c)"
  note b = index_names [of L c "AuthResponse_nats c"] reread_base_reads(4-) [of L c "AuthResponse_nats c"]
  note f = AuthResponse_nats_fields [where c = c]
  have obj: "is_object ?n" by simp
  note reads = payloadOfType_printed [OF f(1)] written_strings [OF f(3)] written_string [OF obj f(4)]
    written_string [OF obj f(5)] readOptString_roundtrip [OF f(6)]
  have c: "\<lparr>natsRaw = fields_of (json_norm ?n), subject = subject c, issuer = issuer c,
      name = reread_name (name c), issuedAt = issuedAt c, expires = reread_time (expires c),
      audience = audience c, notBefore = reread_time (notBefore c), tags = tags c,
      r_jwt = r_jwt c, r_error = r_error c, r_issuerAccount = r_issuerAccount c\<rparr> = AuthResponse_reread c"
    by (simp add: AuthResponse_reread_def reread_base_def)
  have struct: "AuthResponse_checkStructure L (AuthResponse_reread c) = Inr ()"
    using assms by (simp add: AuthResponse_checkStructure_def AuthResponse_reread_def reread_base_def)
  show ?thesis
    unfolding readResponse_def readResponseBody_def AuthResponse_printed_def Let_def reads b bindE.simps
      if_not_Nil c struct
    by (rule refl)
qed

lemma tame_readResponse: "tame (readResponse L p)"
proof -
  have st: "tame (AuthResponse_checkStructure L c)" for c
    unfolding AuthResponse_checkStructure_def by (intro tame_intros) simp
  show ?thesis
    unfolding readResponse_def readResponseBody_def Let_def by (intro tame_intros st)
qed

lemma AuthResponse_encode_Inr:
  assumes "AuthResponse_encodeWithSigner L now c k sign = (Inr token, c')"
  shows "c' = c\<lparr>issuer := k, issuedAt := now\<rparr>"
    and "AuthResponse_checkStructure L c' = Inr ()"
    and "\<not> isBlocking (AuthResponse_report L now c' []) False"
    and "finishEncode L (issuer c') sign (basePayload c') (AuthResponse_nats c') = Inr token"
  using assms
  by (auto simp: AuthResponse_encodeWithSigner_def Let_def AuthResponse_validate_def bindE_Inr_iff
      throwFirstBlocking_Inr_iff split: sum.splits)

interpretation response_class:
  claims_class readResponse decodeAuthorizationResponseClaims AuthResponse_encodeWithSigner
    AuthResponse_printed AuthResponse_reread
proof
  show "decodeAuthorizationResponseClaims L t =
      bindE (decodeEnvelope L t) (\<lambda>env. guardJson L (readResponse L (payload env)))" for L t
    unfolding decodeAuthorizationResponseClaims_def decodePayloadOfType_def readResponse_def
    by (rule payloadOfType_guard)
  show "tame (readResponse L p)" for L p by (rule tame_readResponse)
next
  fix L now c k sign token c'
  assume enc: "AuthResponse_encodeWithSigner L now c k sign = (Inr token, c')"
  note e = AuthResponse_encode_Inr [OF enc]
  show "readResponse L (json_norm (AuthResponse_printed L c')) = Inr (AuthResponse_reread c')"
    by (rule readResponse_roundtrip [OF e(2)])
  assume "lib_ok L" "json_faithful L header_json" "json_faithful L (AuthResponse_printed L c')"
    "length token \<le> MAX_JWT_SIZE"
  then show "decodeEnvelope L token =
      Inr \<lparr>payload = json_norm (AuthResponse_printed L c'), version = 2, algorithm = JWT_ALGORITHM\<rparr>"
    using finishEncode_opens [OF _ _ e(4), of "''authorization_response''"] AuthResponse_nats_fields(1,2) [of c']
    by (simp add: AuthResponse_printed_def del: json_norm.simps)
qed

section \<open>What is accepted\<close>

lemma AuthResponse_checkStructure_Inr:
  "AuthResponse_checkStructure L c = Inr () \<longleftrightarrow> subject c \<noteq> [] \<and> IsValidPublicAccountKey L (issuer c)"
  by (auto simp: AuthResponse_checkStructure_def bindE_Inr_iff checkIssuerKind_Inr_iff kind_check_def)

lemma AuthResponse_report_errors:
  "isBlocking (AuthResponse_report L now c []) False \<longleftrightarrow>
     \<not> IsValidPublicUserKey L (subject c) \<or> \<not> IsValidPublicServerKey L (audience c) \<or>
     (r_error c = [] \<longleftrightarrow> r_jwt c = []) \<or>
     (\<exists>a. r_issuerAccount c = Some a \<and> \<not> IsValidPublicAccountKey L a)"
  by (auto simp: isBlocking_False_errors AuthResponse_report_def Let_def split: option.splits)

lemma readResponse_Inr:
  assumes "readResponse L p = Inr c"
  shows "AuthResponse_checkStructure L c = Inr ()" and "at_string p ''iss'' = Inr (issuer c)"
    and "at_string p ''sub'' = Inr (subject c)"
  using assms unfolding readResponse_def readResponseBody_def
  by (auto simp: bindE_Inr_iff payloadOfType_Inr index_string Let_def)

lemma decodeAuthorizationResponse_sound:
  assumes "decodeAuthorizationResponseClaims L t = Inr c"
  shows "names_signer L t (issuer c) (subject c)" and "IsValidPublicAccountKey L (issuer c)"
    and "subject c \<noteq> []"
proof -
  obtain env where env: "decodeEnvelope L t = Inr env" "readResponse L (payload env) = Inr c"
    by (rule response_class.decoded_authentic [OF assms])
  note r = readResponse_Inr [OF env(2)]
  show "names_signer L t (issuer c) (subject c)"
    by (rule envelope_names_signer [OF env(1) r(2,3)])
  show "IsValidPublicAccountKey L (issuer c)" "subject c \<noteq> []"
    using r(1) by (simp_all add: AuthResponse_checkStructure_Inr)
qed

lemma appending_AuthResponse_report: "appending (AuthResponse_report L now c)"
  unfolding AuthResponse_report_def Let_def by (intro appending_intros appending_addTimeChecks)

interpretation response_report: reporter "AuthResponse_report L now c"
  by (rule reporterI [OF appending_AuthResponse_report])

section \<open>Properties\<close>

text \<open>
  C25: An encoded authorization response is decoded to the same response, up to an empty name, times
  that are not positive and the raw \<open>nats\<close> object, and it carries exactly one of a user token and an
  error, for a user key, addressed to a server key.
\<close>

theorem response_encode_decode:
  assumes "AuthResponse_encodeWithSigner L now c k sign = (Inr token, c')"
    and "lib_ok L" and "json_faithful L header_json" and "json_faithful L (AuthResponse_printed L c')"
    and "length token \<le> MAX_JWT_SIZE"
  shows "decodeAuthorizationResponseClaims L token = Inr (AuthResponse_reread c') \<and>
    (r_error c' = [] \<longleftrightarrow> r_jwt c' \<noteq> []) \<and> IsValidPublicUserKey L (subject c') \<and>
    IsValidPublicServerKey L (audience c') \<and> c' = c\<lparr>issuer := k, issuedAt := now\<rparr>"
  using response_class.decode_encoded [OF assms] AuthResponse_encode_Inr(1,3) [OF assms(1)]
  unfolding AuthResponse_report_errors by blast

definition demo_response :: response_claims where
  "demo_response = setJwt ''T'' (setAudience ''N1'' (AuthorizationResponseClaims_new ''U1''))"

lemma demo_response_encodes:
  "AuthResponse_encodeWithSigner (demo_lib j) 5 demo_response ''A1'' (signerFor (demo_pair ''A1'')) =
     (Inr (demo_token ''A1''), demo_response\<lparr>issuer := ''A1'', issuedAt := 5\<rparr>)"
proof -
  let ?c = "demo_response\<lparr>issuer := ''A1'', issuedAt := 5\<rparr>"
  have "checkIssuerKind (demo_lib j) ''A1'' ''A'' ''Authorization response'' = Inr ()"
    by (simp add: checkIssuerKind_Inr_iff kind_check_def demo_lib_def starts_with_def)
  moreover have "AuthResponse_checkStructure (demo_lib j) ?c = Inr ()"
    by (simp add: AuthResponse_checkStructure_Inr demo_response_def setJwt_def setAudience_def
        AuthorizationResponseClaims_new_def demo_lib_def starts_with_def)
  moreover have "AuthResponse_report (demo_lib j) 5 ?c [] = []"
    by (simp add: AuthResponse_report_def demo_response_def setJwt_def setAudience_def
        AuthorizationResponseClaims_new_def addTimeChecks_def error_if_def demo_lib_def starts_with_def Let_def)
  ultimately show ?thesis
    by (simp add: AuthResponse_encodeWithSigner_def AuthResponse_validate_def demo_finish)
qed

lemma response_encode_decode_witness:
  "decodeAuthorizationResponseClaims
     (demo_lib (demo_wire (demo_response\<lparr>issuer := ''A1'', issuedAt := 5\<rparr>)
        (AuthResponse_nats (demo_response\<lparr>issuer := ''A1'', issuedAt := 5\<rparr>))))
     (demo_token ''A1'') = Inr (AuthResponse_reread (demo_response\<lparr>issuer := ''A1'', issuedAt := 5\<rparr>))"
proof -
  let ?c = "demo_response\<lparr>issuer := ''A1'', issuedAt := 5\<rparr>"
  let ?L = "demo_lib (demo_wire ?c (AuthResponse_nats ?c))"
  have "json_faithful ?L (AuthResponse_printed ?L ?c)"
    unfolding AuthResponse_printed_def demo_wirePayload by (rule demo_faithful)
  then show ?thesis
    using response_encode_decode [OF demo_response_encodes demo_lib_ok demo_header _ demo_token_length]
    by blast
qed

text \<open>
  C16: Sealed requests. A sealed body is accepted exactly when it does not look like a token, the
  service's curve key opens it under the server key of the header to a token that decodes to a request,
  and that request, signed by a server, names the same curve key; so a captured request sealed again
  under another key is refused.
\<close>

theorem sealed_request_accepted_iff:
  "decodeSealedAuthorizationRequest L body xkey seed = Inr c \<longleftrightarrow>
     take 3 body \<noteq> bytes_of ''eyJ'' \<and>
     (\<exists>kp plain. FromCurveSeed L seed = Inr kp \<and> curve_open kp body xkey = Inr plain \<and>
        decodeAuthorizationRequestClaims L (string_of plain) = Inr c \<and>
        names_signer L (string_of plain) (issuer c) (subject c)) \<and>
     IsValidPublicServerKey L (issuer c) \<and> s_xkey (server c) = xkey"
proof -
  have sealed: "isSealedCalloutBody body \<longleftrightarrow> take 3 body \<noteq> bytes_of ''eyJ''"
  proof (cases body)
    case (Cons a as)
    then show ?thesis
      by (cases as; cases "tl as")
         (auto simp: isSealedCalloutBody_def numeral_3_eq_3 less_Suc_eq_le nth_Cons')
  qed (simp add: isSealedCalloutBody_def)
  show ?thesis
    using decodeAuthorizationRequest_sound [of L _ c]
    by (auto simp: decodeSealedAuthorizationRequest_def openAuthorizationRequest_def bindE_Inr_iff sealed)
qed

end
