(* ===== verification/Decode.thy ===== *)
theory Decode
  imports UserClaims OperatorClaims AccountClaims GenericClaims AuthResponse
begin

text \<open>
  The entry points (\<^verbatim>\<open>src/jwt.cpp\<close>): \<open>decode\<close> looks at the type of a payload, before anything is
  authenticated, and hands the token to the decoder of the class; \<open>verify\<close> opens the envelope.

  The lemmas show that looking first is safe: a token is decoded as a class exactly when the decoder of
  that class accepts it, so whatever \<open>decode\<close> returns is authenticated by the rules of its class.
\<close>

datatype any_claims =
    OperatorC operator_claims
  | AccountC account_claims
  | UserC user_claims
  | ActivationC activation_claims
  | RequestC request_claims
  | ResponseC response_claims
  | GenericC generic_claims

definition nats_type_not_string :: exn where
  "nats_type_not_string = MalformedTokenError ''JWT nats.type is not a string''"

text \<open>A field that is a string when it is there.\<close>

fun stringOr :: "exn \<Rightarrow> json option \<Rightarrow> exn + string" where
  "stringOr e None = Inr []"
| "stringOr e (Some (JString t)) = Inr t"
| "stringOr e (Some _) = Inl e"

text \<open>The type of a payload: the top-level one, or the one in \<open>nats\<close> when that is absent or empty.\<close>

definition tokenType :: "json \<Rightarrow> exn + string" where
  "tokenType j =
     bindE (stringOr type_not_string (jget j ''type'')) (\<lambda>ty.
       if ty \<noteq> [] then Inr ty
       else case jget j ''nats'' of
              Some (JObject n) \<Rightarrow> stringOr nats_type_not_string (smap_get n ''type'')
            | _ \<Rightarrow> Inr ty)"

definition dispatch :: "lib \<Rightarrow> string \<Rightarrow> string \<Rightarrow> exn + any_claims" where
  "dispatch L ty jwt =
     (if ty = ''operator'' then bindE (decodeOperatorClaims L jwt) (\<lambda>c. Inr (OperatorC c))
      else if ty = ''account'' then bindE (decodeAccountClaims L jwt) (\<lambda>c. Inr (AccountC c))
      else if ty = ''user'' then bindE (decodeUserClaims L jwt) (\<lambda>c. Inr (UserC c))
      else if ty = ''activation'' then bindE (decodeActivationClaims L jwt) (\<lambda>c. Inr (ActivationC c))
      else if ty = ''authorization_request''
        then bindE (decodeAuthorizationRequestClaims L jwt) (\<lambda>c. Inr (RequestC c))
      else if ty = ''authorization_response''
        then bindE (decodeAuthorizationResponseClaims L jwt) (\<lambda>c. Inr (ResponseC c))
      else if ty = ''cluster'' then Inl (InvalidClaimsError ''ClusterClaims are not supported'')
      else if ty = ''server'' then Inl (InvalidClaimsError ''ServerClaims are not supported'')
      else bindE (decodeGeneric L jwt) (\<lambda>c. Inr (GenericC c)))"

definition decode :: "lib \<Rightarrow> string \<Rightarrow> exn + any_claims" where
  "decode L jwt =
     bindE (parseJwt jwt) (\<lambda>parts.
     bindE (base64url_decode (payload_b64 parts)) (\<lambda>payload_bytes.
     bindE (parse_or L payload_parse_error (string_of payload_bytes)) (\<lambda>j.
     bindE (tokenType j) (\<lambda>ty.
       dispatch L ty jwt))))"

definition verify :: "lib \<Rightarrow> string \<Rightarrow> bool" where
  "verify L jwt = (case decodeEnvelope L jwt of Inr _ \<Rightarrow> True | Inl _ \<Rightarrow> False)"

section \<open>The type that is looked at is the type that is checked\<close>

lemma decode_wire:
  assumes "wire L t h p s alg obj"
  shows "decode L t = bindE (tokenType (JObject obj)) (\<lambda>ty. dispatch L ty t)"
proof -
  from assms have "parseJwt t = Inr (parts_of h p s)"
    unfolding parseJwt_Inr_iff wire_def by blast
  with assms show ?thesis by (auto simp: wire_def decode_def parse_or_def)
qed

lemma decode_Inr:
  assumes "decode L t = Inr r"
  obtains ty where "dispatch L ty t = Inr r"
  using assms by (auto simp: decode_def bindE_Inr_iff)

lemma tokenType_v2:
  assumes "v1Layout obj = Inr False" and "smap_get obj ''nats'' = Some (JObject n)"
    and "smap_get n ''type'' = Some (JString ty)"
  shows "tokenType (JObject obj) = Inr ty"
proof (cases "smap_get obj ''type''")
  case None
  then show ?thesis using assms by (simp add: tokenType_def)
next
  case (Some v)
  with assms show ?thesis by (cases v) (simp_all add: tokenType_def v1Layout_def)
qed

lemma envelope_routes:
  assumes "decodeEnvelope L t = Inr env"
    and "jget (payload env) ''nats'' = Some (JObject n)" and "smap_get n ''type'' = Some (JString ty)"
    and "ty \<noteq> []"
  shows "decode L t = dispatch L ty t"
proof -
  obtain h p s alg obj obj' where w: "wire L t h p s alg obj" and a: "authentic L (version env) h p s obj"
    and m: "if version env = 1 then migrateV1 obj = Inr obj' else obj' = obj"
    and e: "env = \<lparr>payload = JObject obj', version = version env, algorithm = alg\<rparr>"
    using assms(1) unfolding decodeEnvelope_Inr_iff by blast
  have "payload env = JObject obj'" by (subst e) simp
  with assms(2) have nats: "smap_get obj' ''nats'' = Some (JObject n)" by simp
  have "tokenType (JObject obj) = Inr ty"
  proof (cases "version env = 1")
    case True
    with m obtain ty' n' where ty': "smap_get obj ''type'' = Some (JString ty')"
      and n': "smap_get obj' ''nats'' = Some (JObject n')" and f: "smap_get n' k = migrated_field obj ty' k" for k
      using migrateV1_result [of obj obj'] by auto
    have "migrated_field obj ty' ''type'' = Some (JString ty')"
      by (simp add: migrated_field_def Let_def)
    then have "ty' = ty" using assms(3) n' nats f [of "''type''"] by simp
    then show ?thesis using ty' assms(4) by (simp add: tokenType_def)
  next
    case False
    with m have obj: "obj' = obj" by simp
    have "payloadVersion obj = Inr (version env)" using a by (simp add: authentic_def)
    with False have "v1Layout obj = Inr False"
      by (auto simp: payloadVersion_def bindE_Inr_iff split: if_splits)
    then show ?thesis using tokenType_v2 nats assms(3) unfolding obj by blast
  qed
  then show ?thesis by (simp add: decode_wire [OF w])
qed

text \<open>Each reader has checked the type of its class.\<close>

definition has_type :: "json \<Rightarrow> string \<Rightarrow> bool" where
  "has_type p ty \<longleftrightarrow> (\<exists>n. jget p ''nats'' = Some (JObject n) \<and> smap_get n ''type'' = Some (JString ty))"

lemma jget_object: "jget j k = Some v \<Longrightarrow> \<exists>n. j = JObject n \<and> smap_get n k = Some v"
  by (cases j) auto

lemma checkType_has_type: "natsOf p = Inr nats \<Longrightarrow> checkType nats ty = Inr u \<Longrightarrow> has_type p ty"
  by (auto simp: natsOf_def checkType_def has_type_def Let_def bindE_Inr_iff dest!: jget_object
      split: option.splits if_splits)

lemma readers_have_type:
  "readOperator L p = Inr oc \<Longrightarrow> has_type p ''operator''"
  "readAccount L p = Inr ac \<Longrightarrow> has_type p ''account''"
  "readUser L p = Inr uc \<Longrightarrow> has_type p ''user''"
  "readActivation L p = Inr vc \<Longrightarrow> has_type p ''activation''"
  "readRequest L p = Inr qc \<Longrightarrow> has_type p ''authorization_request''"
  "readResponse L p = Inr rc \<Longrightarrow> has_type p ''authorization_response''"
proof -
  show "readOperator L p = Inr oc \<Longrightarrow> has_type p ''operator''"
    unfolding readOperator_def by (elim bindE_InrE) (rule checkType_has_type)
  show "readAccount L p = Inr ac \<Longrightarrow> has_type p ''account''"
    unfolding readAccount_def by (elim bindE_InrE) (rule checkType_has_type)
  show "readUser L p = Inr uc \<Longrightarrow> has_type p ''user''"
    unfolding readUser_def by (elim bindE_InrE) (rule checkType_has_type)
  show "has_type p ''activation''" if r: "readActivation L p = Inr vc"
  proof -
    obtain nats where "natsOf p = Inr nats" "jget nats ''type'' = Some (JString ''activation'')"
      using r unfolding readActivation_def by (elim bindE_InrE) simp
    then show ?thesis by (auto simp: natsOf_def has_type_def dest!: jget_object split: option.splits)
  qed
  show "readRequest L p = Inr qc \<Longrightarrow> has_type p ''authorization_request''"
    "readResponse L p = Inr rc \<Longrightarrow> has_type p ''authorization_response''"
    by (auto simp: readRequest_def readResponse_def has_type_def bindE_Inr_iff payloadOfType_Inr)
qed

lemma typed_routes: "decodeEnvelope L t = Inr env \<Longrightarrow> has_type (payload env) ty \<Longrightarrow> ty \<noteq> [] \<Longrightarrow>
    decode L t = dispatch L ty t"
  unfolding has_type_def using envelope_routes by blast

lemma decode_typed:
  "decodeOperatorClaims L t = Inr oc \<Longrightarrow> decode L t = Inr (OperatorC oc)"
  "decodeAccountClaims L t = Inr ac \<Longrightarrow> decode L t = Inr (AccountC ac)"
  "decodeUserClaims L t = Inr uc \<Longrightarrow> decode L t = Inr (UserC uc)"
  "decodeActivationClaims L t = Inr vc \<Longrightarrow> decode L t = Inr (ActivationC vc)"
  "decodeAuthorizationRequestClaims L t = Inr qc \<Longrightarrow> decode L t = Inr (RequestC qc)"
  "decodeAuthorizationResponseClaims L t = Inr rc \<Longrightarrow> decode L t = Inr (ResponseC rc)"
proof -
  note route = typed_routes [OF _ readers_have_type(1)] typed_routes [OF _ readers_have_type(2)]
    typed_routes [OF _ readers_have_type(3)] typed_routes [OF _ readers_have_type(4)]
    typed_routes [OF _ readers_have_type(5)] typed_routes [OF _ readers_have_type(6)]
  show "decode L t = Inr (OperatorC oc)" if d: "decodeOperatorClaims L t = Inr oc"
    by (rule operator_class.decoded_authentic [OF d]) (simp add: route(1) dispatch_def d)
  show "decode L t = Inr (AccountC ac)" if d: "decodeAccountClaims L t = Inr ac"
    by (rule account_class.decoded_authentic [OF d]) (simp add: route(2) dispatch_def d)
  show "decode L t = Inr (UserC uc)" if d: "decodeUserClaims L t = Inr uc"
    by (rule user_class.decoded_authentic [OF d]) (simp add: route(3) dispatch_def d)
  show "decode L t = Inr (ActivationC vc)" if d: "decodeActivationClaims L t = Inr vc"
    by (rule activation_class.decoded_authentic [OF d]) (simp add: route(4) dispatch_def d)
  show "decode L t = Inr (RequestC qc)" if d: "decodeAuthorizationRequestClaims L t = Inr qc"
    by (rule request_class.decoded_authentic [OF d]) (simp add: route(5) dispatch_def d)
  show "decode L t = Inr (ResponseC rc)" if d: "decodeAuthorizationResponseClaims L t = Inr rc"
    by (rule response_class.decoded_authentic [OF d]) (simp add: route(6) dispatch_def d)
qed

lemma dispatch_Inr:
  "dispatch L ty t = Inr r \<Longrightarrow>
     (case r of
        OperatorC c \<Rightarrow> decodeOperatorClaims L t = Inr c
      | AccountC c \<Rightarrow> decodeAccountClaims L t = Inr c
      | UserC c \<Rightarrow> decodeUserClaims L t = Inr c
      | ActivationC c \<Rightarrow> decodeActivationClaims L t = Inr c
      | RequestC c \<Rightarrow> decodeAuthorizationRequestClaims L t = Inr c
      | ResponseC c \<Rightarrow> decodeAuthorizationResponseClaims L t = Inr c
      | GenericC c \<Rightarrow> decodeGeneric L t = Inr c)"
  by (auto simp: dispatch_def bindE_Inr_iff split: if_splits)

lemma decode_parts:
  assumes "decode L t = Inr r"
  shows "case r of
        OperatorC c \<Rightarrow> decodeOperatorClaims L t = Inr c
      | AccountC c \<Rightarrow> decodeAccountClaims L t = Inr c
      | UserC c \<Rightarrow> decodeUserClaims L t = Inr c
      | ActivationC c \<Rightarrow> decodeActivationClaims L t = Inr c
      | RequestC c \<Rightarrow> decodeAuthorizationRequestClaims L t = Inr c
      | ResponseC c \<Rightarrow> decodeAuthorizationResponseClaims L t = Inr c
      | GenericC c \<Rightarrow> decodeGeneric L t = Inr c"
  by (rule decode_Inr [OF assms]) (rule dispatch_Inr)

section \<open>Errors\<close>

lemma stringOr_Inl: "stringOr e v = Inl e' \<Longrightarrow> e' = e"
  by (cases "(e, v)" rule: stringOr.cases) simp_all

lemma tokenType_error:
  assumes "tokenType j = Inl e"
  shows "is_jwt_error e"
proof (cases "stringOr type_not_string (jget j ''type'')")
  case (Inl e')
  with assms have "e = e'" by (simp add: tokenType_def)
  then show ?thesis unfolding stringOr_Inl [OF Inl] by (simp add: type_not_string_def)
next
  case (Inr ty)
  with assms obtain n where "stringOr nats_type_not_string (smap_get n ''type'') = Inl e"
    by (simp add: tokenType_def split: if_splits option.splits json.splits)
  from stringOr_Inl [OF this] show ?thesis by (simp add: nats_type_not_string_def)
qed

definition typed_error :: "lib \<Rightarrow> string \<Rightarrow> exn \<Rightarrow> bool" where
  "typed_error L t e \<longleftrightarrow> is_jwt_error e \<or> decodeEnvelope L t = Inl e"

lemma wrapped_Inl: "bindE m (\<lambda>c. Inr (f c)) = Inl e \<longleftrightarrow> m = Inl e"
  by (cases m) simp_all

lemma dispatch_error:
  assumes "dispatch L ty t = Inl e"
  shows "typed_error L t e"
proof -
  have "decodeOperatorClaims L t = Inl e \<or> decodeAccountClaims L t = Inl e \<or> decodeUserClaims L t = Inl e \<or>
      decodeActivationClaims L t = Inl e \<or> decodeAuthorizationRequestClaims L t = Inl e \<or>
      decodeAuthorizationResponseClaims L t = Inl e \<or> decodeGeneric L t = Inl e \<or> is_jwt_error e"
    using assms by (simp add: dispatch_def wrapped_Inl split: if_splits) auto
  then show ?thesis
    unfolding typed_error_def
    using operator_class.decode_errors account_class.decode_errors user_class.decode_errors
      activation_class.decode_errors request_class.decode_errors response_class.decode_errors decodeGeneric_error
    by (elim disjE) simp_all
qed

lemma decode_error:
  assumes "decode L t = Inl e"
  shows "typed_error L t e"
proof -
  have parse: "parse_or L payload_parse_error s = Inl e' \<Longrightarrow> is_jwt_error e'" for s e'
    by (erule parse_or_error) (simp add: payload_parse_error_def)
  show ?thesis
    using assms parseJwt_error decode_is_jwt_error parse tokenType_error dispatch_error
    unfolding decode_def bindE_Inl_iff typed_error_def by blast
qed

section \<open>What is decoded is signed\<close>

lemma decode_outcome:
  "case decode L t of
     Inr r \<Rightarrow>
       (case r of
          OperatorC c \<Rightarrow> verify L t \<and> names_signer L t (issuer c) (subject c) \<and>
            IsValidPublicOperatorKey L (issuer c) \<and> IsValidPublicOperatorKey L (subject c)
        | AccountC c \<Rightarrow> verify L t \<and> names_signer L t (issuer c) (subject c) \<and>
            (IsValidPublicOperatorKey L (issuer c) \<or> IsValidPublicAccountKey L (issuer c)) \<and>
            IsValidPublicAccountKey L (subject c)
        | UserC c \<Rightarrow> verify L t \<and> names_signer L t (issuer c) (subject c) \<and>
            IsValidPublicAccountKey L (issuer c) \<and> IsValidPublicUserKey L (subject c)
        | ActivationC c \<Rightarrow> verify L t \<and> names_signer L t (issuer c) (subject c) \<and>
            (IsValidPublicAccountKey L (issuer c) \<or> IsValidPublicOperatorKey L (issuer c)) \<and>
            IsValidPublicAccountKey L (subject c)
        | RequestC c \<Rightarrow> verify L t \<and> names_signer L t (issuer c) (subject c) \<and>
            IsValidPublicServerKey L (issuer c) \<and> subject c \<noteq> []
        | ResponseC c \<Rightarrow> verify L t \<and> names_signer L t (issuer c) (subject c) \<and>
            IsValidPublicAccountKey L (issuer c) \<and> subject c \<noteq> []
        | GenericC c \<Rightarrow> (\<exists>h p s alg obj. wire L t h p s alg obj \<and>
            stringAt obj ''iss'' = Some (issuer c) \<and> stringAt obj ''sub'' = Some (subject c) \<and>
            verifySignature L (issuer c) (if alg = ''ed25519'' then p else h @ ''.'' @ p) s))
   | Inl e \<Rightarrow> is_jwt_error e \<or> e = type_error 302"
proof (cases "decode L t")
  case (Inl e)
  then have "is_jwt_error e \<or> decodeEnvelope L t = Inl e"
    using decode_error by (auto simp: typed_error_def)
  then show ?thesis using Inl decodeEnvelope_leak_iff [of L t e] by auto
next
  case (Inr r)
  have opened: "verify L t" if "decodeEnvelope L t = Inr env" for env
    using that by (simp add: verify_def)
  note d = decode_parts [OF Inr]
  show ?thesis
  proof (cases r)
    case (OperatorC c)
    with d have c: "decodeOperatorClaims L t = Inr c" by simp
    have "verify L t" by (rule operator_class.decoded_authentic [OF c]) (rule opened)
    with decodeOperatorClaims_sound [OF c] show ?thesis by (simp add: Inr OperatorC)
  next
    case (AccountC c)
    with d have c: "decodeAccountClaims L t = Inr c" by simp
    have "verify L t" by (rule account_class.decoded_authentic [OF c]) (rule opened)
    with decodeAccountClaims_sound(1-3) [OF c] show ?thesis by (simp add: Inr AccountC)
  next
    case (UserC c)
    with d have c: "decodeUserClaims L t = Inr c" by simp
    have "verify L t" by (rule user_class.decoded_authentic [OF c]) (rule opened)
    with decodeUserClaims_sound [OF c] show ?thesis by (simp add: Inr UserC)
  next
    case (ActivationC c)
    with d have c: "decodeActivationClaims L t = Inr c" by simp
    have "verify L t" by (rule activation_class.decoded_authentic [OF c]) (rule opened)
    with decodeActivationClaims_sound [OF c] show ?thesis by (simp add: Inr ActivationC)
  next
    case (RequestC c)
    with d have c: "decodeAuthorizationRequestClaims L t = Inr c" by simp
    have "verify L t" by (rule request_class.decoded_authentic [OF c]) (rule opened)
    with decodeAuthorizationRequest_sound [OF c] show ?thesis by (simp add: Inr RequestC)
  next
    case (ResponseC c)
    with d have c: "decodeAuthorizationResponseClaims L t = Inr c" by simp
    have "verify L t" by (rule response_class.decoded_authentic [OF c]) (rule opened)
    with decodeAuthorizationResponse_sound [OF c] show ?thesis by (simp add: Inr ResponseC)
  next
    case (GenericC c)
    with d have c: "decodeGeneric L t = Inr c" by simp
    obtain h p s alg obj where "wire L t h p s alg obj"
      and o': "openGeneric L (parts_of h p s) alg (JObject obj) = Inr c"
      by (rule decodeGeneric_Inr [OF c])
    then show ?thesis
      unfolding Inr GenericC sum.case any_claims.case using openGeneric_Inr(1-3) [OF o'] by blast
  qed
qed

text \<open>The common fields of the claims, and the signature that every decoded token has.\<close>

primrec any_base :: "any_claims \<Rightarrow> base" where
  "any_base (OperatorC c) = base.truncate c"
| "any_base (AccountC c) = base.truncate c"
| "any_base (UserC c) = base.truncate c"
| "any_base (ActivationC c) = base.truncate c"
| "any_base (RequestC c) = base.truncate c"
| "any_base (ResponseC c) = base.truncate c"
| "any_base (GenericC c) = c"

lemma truncate_names [simp]:
  "issuer (base.truncate c) = issuer c" "subject (base.truncate c) = subject c"
  "expires (base.truncate c) = expires c" "notBefore (base.truncate c) = notBefore c"
  by (simp_all add: base.truncate_def)

definition signed_as :: "lib \<Rightarrow> string \<Rightarrow> string \<Rightarrow> string \<Rightarrow> bool" where
  "signed_as L t iss sbj \<longleftrightarrow>
     (\<exists>h p s alg obj m. wire L t h p s alg obj \<and> m \<in> {p, h @ ''.'' @ p} \<and>
        stringAt obj ''iss'' = Some iss \<and> stringAt obj ''sub'' = Some sbj \<and> verifySignature L iss m s)"

lemma names_signer_signed: "names_signer L t iss sbj \<Longrightarrow> signed_as L t iss sbj"
  unfolding names_signer_def authentic_def signed_as_def by auto metis+

lemma decode_signed:
  assumes "decode L t = Inr r"
  shows "signed_as L t (issuer (any_base r)) (subject (any_base r))"
proof (cases r)
  case (GenericC c)
  with decode_outcome [of L t] assms obtain h p s alg obj where "wire L t h p s alg obj"
    "stringAt obj ''iss'' = Some (issuer c)" "stringAt obj ''sub'' = Some (subject c)"
    "verifySignature L (issuer c) (if alg = ''ed25519'' then p else h @ ''.'' @ p) s"
    by auto
  moreover have "(if alg = ''ed25519'' then p else h @ ''.'' @ p) \<in> {p, h @ ''.'' @ p}" by simp
  ultimately show ?thesis unfolding GenericC any_base.simps signed_as_def by blast
qed (use decode_outcome [of L t] assms in \<open>simp_all add: names_signer_signed\<close>)

section \<open>Properties\<close>

text \<open>
  C6: Dispatch. \<open>decode\<close> returns claims of a class exactly when the decoder of that class accepts
  the token, although it looks at the type before the signature is checked and although the typed
  decoder reads a migrated payload; generic claims are returned for tokens the generic decoder accepts
  and whose type is none of the others.
\<close>

theorem decode_dispatch:
  "(decode L t = Inr (OperatorC oc) \<longleftrightarrow> decodeOperatorClaims L t = Inr oc) \<and>
   (decode L t = Inr (AccountC ac) \<longleftrightarrow> decodeAccountClaims L t = Inr ac) \<and>
   (decode L t = Inr (UserC uc) \<longleftrightarrow> decodeUserClaims L t = Inr uc) \<and>
   (decode L t = Inr (ActivationC vc) \<longleftrightarrow> decodeActivationClaims L t = Inr vc) \<and>
   (decode L t = Inr (RequestC qc) \<longleftrightarrow> decodeAuthorizationRequestClaims L t = Inr qc) \<and>
   (decode L t = Inr (ResponseC rc) \<longleftrightarrow> decodeAuthorizationResponseClaims L t = Inr rc) \<and>
   (decode L t = Inr (GenericC gc) \<longleftrightarrow> decodeGeneric L t = Inr gc \<and>
     (\<exists>h p s alg obj ty. wire L t h p s alg obj \<and> tokenType (JObject obj) = Inr ty \<and>
        ty \<notin> set (''cluster'' # ''server'' # known_types)))"
proof -
  have gen: "decode L t = Inr (GenericC gc) \<longleftrightarrow> decodeGeneric L t = Inr gc \<and>
     (\<exists>h p s alg obj ty. wire L t h p s alg obj \<and> tokenType (JObject obj) = Inr ty \<and>
        ty \<notin> set (''cluster'' # ''server'' # known_types))" (is "?l \<longleftrightarrow> ?r")
  proof
    assume l: ?l
    then have d: "decodeGeneric L t = Inr gc" using decode_parts by fastforce
    then obtain h p s alg obj where w: "wire L t h p s alg obj" by (rule decodeGeneric_Inr)
    then obtain ty where "tokenType (JObject obj) = Inr ty" "dispatch L ty t = Inr (GenericC gc)"
      using l by (auto simp: decode_wire bindE_Inr_iff)
    moreover from this(2) have "ty \<notin> set (''cluster'' # ''server'' # known_types)"
      by (auto simp: dispatch_def known_types_def bindE_Inr_iff split: if_splits)
    ultimately show ?r using d w by blast
  next
    assume ?r
    then show ?l by (auto simp: decode_wire dispatch_def known_types_def)
  qed
  have op: "decode L t = Inr (OperatorC oc) \<longleftrightarrow> decodeOperatorClaims L t = Inr oc"
    by (rule iffI [OF decode_parts [of L t "OperatorC oc", unfolded any_claims.case] decode_typed(1)])
  have acc: "decode L t = Inr (AccountC ac) \<longleftrightarrow> decodeAccountClaims L t = Inr ac"
    by (rule iffI [OF decode_parts [of L t "AccountC ac", unfolded any_claims.case] decode_typed(2)])
  have us: "decode L t = Inr (UserC uc) \<longleftrightarrow> decodeUserClaims L t = Inr uc"
    by (rule iffI [OF decode_parts [of L t "UserC uc", unfolded any_claims.case] decode_typed(3)])
  have act: "decode L t = Inr (ActivationC vc) \<longleftrightarrow> decodeActivationClaims L t = Inr vc"
    by (rule iffI [OF decode_parts [of L t "ActivationC vc", unfolded any_claims.case] decode_typed(4)])
  have req: "decode L t = Inr (RequestC qc) \<longleftrightarrow> decodeAuthorizationRequestClaims L t = Inr qc"
    by (rule iffI [OF decode_parts [of L t "RequestC qc", unfolded any_claims.case] decode_typed(5)])
  have rsp: "decode L t = Inr (ResponseC rc) \<longleftrightarrow> decodeAuthorizationResponseClaims L t = Inr rc"
    by (rule iffI [OF decode_parts [of L t "ResponseC rc", unfolded any_claims.case] decode_typed(6)])
  show ?thesis by (intro conjI op acc us act req rsp gen)
qed

text \<open>
  C1: Whatever \<open>decode\<close> returns is authentic: typed claims name, as issuer and subject, those of a
  payload whose signature verifies under that issuer, the kinds of both keys are the ones the class
  demands, and \<open>verify\<close> is true of the token. Whatever it refuses, it refuses with an error of the
  library, except for the type error that escapes the envelope.
\<close>

theorem decode_authenticates:
  "case decode L t of
     Inr r \<Rightarrow>
       (case r of
          OperatorC c \<Rightarrow> verify L t \<and> names_signer L t (issuer c) (subject c) \<and>
            IsValidPublicOperatorKey L (issuer c) \<and> IsValidPublicOperatorKey L (subject c)
        | AccountC c \<Rightarrow> verify L t \<and> names_signer L t (issuer c) (subject c) \<and>
            (IsValidPublicOperatorKey L (issuer c) \<or> IsValidPublicAccountKey L (issuer c)) \<and>
            IsValidPublicAccountKey L (subject c)
        | UserC c \<Rightarrow> verify L t \<and> names_signer L t (issuer c) (subject c) \<and>
            IsValidPublicAccountKey L (issuer c) \<and> IsValidPublicUserKey L (subject c)
        | ActivationC c \<Rightarrow> verify L t \<and> names_signer L t (issuer c) (subject c) \<and>
            (IsValidPublicAccountKey L (issuer c) \<or> IsValidPublicOperatorKey L (issuer c)) \<and>
            IsValidPublicAccountKey L (subject c)
        | RequestC c \<Rightarrow> verify L t \<and> names_signer L t (issuer c) (subject c) \<and>
            IsValidPublicServerKey L (issuer c) \<and> subject c \<noteq> []
        | ResponseC c \<Rightarrow> verify L t \<and> names_signer L t (issuer c) (subject c) \<and>
            IsValidPublicAccountKey L (issuer c) \<and> subject c \<noteq> []
        | GenericC c \<Rightarrow> (\<exists>h p s alg obj. wire L t h p s alg obj \<and>
            stringAt obj ''iss'' = Some (issuer c) \<and> stringAt obj ''sub'' = Some (subject c) \<and>
            verifySignature L (issuer c) (if alg = ''ed25519'' then p else h @ ''.'' @ p) s))
   | Inl e \<Rightarrow> is_jwt_error e \<or> e = type_error 302"
  by (rule decode_outcome)

text \<open>A payload without a type and a version.\<close>

definition bare_payload :: "json smap" where
  "bare_payload = [(''iss'', JString ''O1''), (''sub'', JString ''S1'')]"

lemma bare_wire:
  obtains h p s where "wire (demo_lib (JObject bare_payload)) (demo_token ''O1'') h p s JWT_ALGORITHM bare_payload"
    and "verifySignature (demo_lib (JObject bare_payload)) ''O1'' (h @ ''.'' @ p) s"
  by (rule signAndAssemble_wire [OF demo_lib_ok demo_header demo_signs demo_token_length])
     (auto simp: demo_lib_def bare_payload_def)

lemma bare_decoded:
  "decode (demo_lib (JObject bare_payload)) (demo_token ''O1'') =
     Inr (GenericC ((GenericClaims_new ''S1'')\<lparr>issuer := ''O1''\<rparr>))"
proof -
  let ?L = "demo_lib (JObject bare_payload)"
  obtain h p s where w: "wire ?L (demo_token ''O1'') h p s JWT_ALGORITHM bare_payload"
    and v: "verifySignature ?L ''O1'' (h @ ''.'' @ p) s" by (rule bare_wire)
  have get: "smap_get bare_payload k =
      (if k = ''iss'' then Some (JString ''O1'') else if k = ''sub'' then Some (JString ''S1'') else None)" for k
    by (simp add: bare_payload_def smap_get_Cons)
  have alg: "(JWT_ALGORITHM = ''ed25519'') = False" by (simp add: JWT_ALGORITHM_def)
  have "decodeGeneric ?L (demo_token ''O1'') = Inr ((GenericClaims_new ''S1'')\<lparr>issuer := ''O1''\<rparr>)"
    using v by (simp add: decodeGeneric_wire [OF w] openGeneric_def alg stringAt_def get readGeneric_def
        intField_def readName_def genericData_def GenericClaims_checkStructure_def GenericClaims_new_def)
  then show ?thesis
    by (simp add: decode_wire [OF w] tokenType_def get dispatch_def)
qed

lemma bare_not_verified: "\<not> verify (demo_lib (JObject bare_payload)) (demo_token ''O1'')"
proof -
  let ?L = "demo_lib (JObject bare_payload)"
  obtain h p s where w: "wire ?L (demo_token ''O1'') h p s JWT_ALGORITHM bare_payload" by (rule bare_wire)
  have "payloadVersion bare_payload = Inr 0"
    by (simp add: payloadVersion_def v1Layout_def natsVersion_def objectField_def bare_payload_def smap_get_Cons)
  then show ?thesis
    by (simp add: verify_def decodeEnvelope_wire [OF w] openPayload_def checkVersion_def JWT_VERSION_def)
qed

text \<open>
  C34: \<open>verify\<close> and \<open>decode\<close> do not agree on generic tokens: \<open>verify\<close> holds exactly of the tokens whose
  signature verifies by the rule of their payload's version 1 or 2 (and, for version 1, that have the
  type the migration reads), but a signed token without a \<open>nats\<close> object is decoded and not verified.
\<close>

theorem verify_exact:
  "(verify L t \<longleftrightarrow> (\<exists>h p s alg obj v. wire L t h p s alg obj \<and> authentic L v h p s obj \<and>
      (v = 2 \<or> (\<exists>ty. stringAt obj ''type'' = Some ty)))) \<and>
   (\<exists>L t c. lib_ok L \<and> decode L t = Inr (GenericC c) \<and> \<not> verify L t)"
proof
  have "\<exists>L t c. lib_ok L \<and> decode L t = Inr (GenericC c) \<and> \<not> verify L t"
    using demo_lib_ok bare_decoded bare_not_verified by blast
  then show "\<exists>L t c. lib_ok L \<and> decode L t = Inr (GenericC c) \<and> \<not> verify L t" .
  have mig: "(\<exists>obj'. migrateV1 obj = Inr obj') \<longleftrightarrow> (\<exists>ty. stringAt obj ''type'' = Some ty)" for obj
    by (auto simp: migrateV1_def Let_def stringAt_def bindE_Inr_iff elim: get_string.elims
        split: option.splits json.splits)
  show "verify L t \<longleftrightarrow> (\<exists>h p s alg obj v. wire L t h p s alg obj \<and> authentic L v h p s obj \<and>
      (v = 2 \<or> (\<exists>ty. stringAt obj ''type'' = Some ty)))" (is "_ \<longleftrightarrow> ?r")
  proof
    assume "verify L t"
    then obtain env where "decodeEnvelope L t = Inr env" by (auto simp: verify_def split: sum.splits)
    then obtain h p s alg obj obj' where w: "wire L t h p s alg obj"
      and a: "authentic L (version env) h p s obj"
      and m: "if version env = 1 then migrateV1 obj = Inr obj' else obj' = obj"
      unfolding decodeEnvelope_Inr_iff by blast
    have "version env = 1 \<or> version env = 2" using a by (auto simp: authentic_def)
    moreover have "(\<exists>ty. stringAt obj ''type'' = Some ty)" if "version env = 1"
      using m that mig [of obj, THEN iffD1] by auto
    ultimately have "version env = 2 \<or> (\<exists>ty. stringAt obj ''type'' = Some ty)" by blast
    with w a show ?r by blast
  next
    assume ?r
    then obtain h p s alg obj v where w: "wire L t h p s alg obj" and a: "authentic L v h p s obj"
      and v: "v = 2 \<or> (\<exists>ty. stringAt obj ''type'' = Some ty)" by blast
    have "v = 1 \<or> v = 2" using a by (auto simp: authentic_def)
    then show "verify L t"
      using v mig [of obj] by (auto simp: verify_def decodeEnvelope_wire [OF w] openPayload_authentic [OF a])
  qed
qed

end
