(* ===== verification/Validation.thy ===== *)
theory Validation
  imports Decode
begin

text \<open>
  Validation of tokens and chains (\<^verbatim>\<open>include/jwt/validation.hpp\<close>, \<^verbatim>\<open>src/validation.cpp\<close>): times with a
  tolerance for the clock, the links between a token and the one that issued it, the hierarchy of key
  kinds, and the composition of these checks over a whole chain.

  The times are \<open>std::int64_t\<close>; the code adds and subtracts the tolerance without a check, so a sum
  outside 64 bits is undefined behaviour, which is a value of its own here. The clock is a parameter.
  The lemmas show which instants pass, that nothing but this overflow escapes, and what an accepted
  chain guarantees.
\<close>

record ValidationResult =
  valid :: bool
  error :: "string option"

definition success :: ValidationResult where
  "success = \<lparr>valid = True, error = None\<rparr>"

definition failure :: "string \<Rightarrow> ValidationResult" where
  "failure msg = \<lparr>valid = False, error = Some msg\<rparr>"

record ValidationOptions =
  checkExpiration :: bool
  checkNotBefore :: bool
  clockSkewSeconds :: int64
  checkSignature :: bool
  checkIssuerChain :: bool

definition strict :: ValidationOptions where
  "strict = \<lparr>checkExpiration = True, checkNotBefore = True, clockSkewSeconds = 0, checkSignature = True,
             checkIssuerChain = True\<rparr>"

definition permissive :: ValidationOptions where
  "permissive = \<lparr>checkExpiration = False, checkNotBefore = False, clockSkewSeconds = 300,
                 checkSignature = False, checkIssuerChain = False\<rparr>"

section \<open>Times\<close>

definition fits64 :: "int \<Rightarrow> bool" where
  "fits64 i \<longleftrightarrow> - (2 ^ 63) \<le> i \<and> i < 2 ^ 63"

definition signed_overflow :: exn where
  "signed_overflow = UndefinedBehaviour ''signed integer overflow''"

text \<open>A signed sum: a value when it fits, undefined otherwise.\<close>

definition checked :: "int \<Rightarrow> exn + int" where
  "checked i = (if fits64 i then Inr i else Inl signed_overflow)"

definition validateExpiration :: "int64 \<Rightarrow> any_claims \<Rightarrow> int64 \<Rightarrow> exn + ValidationResult" where
  "validateExpiration now c clockSkew =
     (let exp = expires (any_base c)
      in if sint exp \<le> 0 then Inr success
         else bindE (checked (sint exp + sint clockSkew)) (\<lambda>expiresWithSkew.
           if sint now > expiresWithSkew
           then Inr (failure (''JWT has expired (exp: '' @ int_to_string (sint exp) @ '', now: '' @
                  int_to_string (sint now) @ '')''))
           else Inr success))"

definition validateNotBefore :: "int64 \<Rightarrow> any_claims \<Rightarrow> int64 \<Rightarrow> exn + ValidationResult" where
  "validateNotBefore now c clockSkew =
     (let nbf = notBefore (any_base c)
      in if sint nbf \<le> 0 then Inr success
         else bindE (checked (sint nbf - sint clockSkew)) (\<lambda>earliest.
           if earliest > sint now
           then Inr (failure (''claim is not yet valid (nbf: '' @ int_to_string (sint nbf) @ '', now: '' @
                  int_to_string (sint now) @ '')''))
           else Inr success))"

text \<open>\<open>if (b) { r = m; if (!r.valid) return r; }\<close> before the rest.\<close>

definition stop_unless :: "bool \<Rightarrow> exn + ValidationResult \<Rightarrow> exn + ValidationResult \<Rightarrow> exn + ValidationResult"
  where
  "stop_unless b m k = (if b then bindE m (\<lambda>r. if \<not> valid r then Inr r else k) else k)"

definition validateTiming :: "int64 \<Rightarrow> any_claims \<Rightarrow> ValidationOptions \<Rightarrow> exn + ValidationResult" where
  "validateTiming now c opts =
     stop_unless (checkNotBefore opts) (validateNotBefore now c (clockSkewSeconds opts))
       (stop_unless (checkExpiration opts) (validateExpiration now c (clockSkewSeconds opts))
         (Inr success))"

section \<open>Links of a chain\<close>

definition getClaimType :: "string \<Rightarrow> string" where
  "getClaimType sbj =
     (case sbj of [] \<Rightarrow> ''unknown''
      | k # _ \<Rightarrow> if k = CHR ''O'' then ''operator'' else if k = CHR ''A'' then ''account''
                 else if k = CHR ''U'' then ''user'' else ''unknown'')"

text \<open>The signing keys a parent vouches for, and the account a child names as its issuer's.\<close>

definition vouched_keys :: "any_claims \<Rightarrow> string list" where
  "vouched_keys parent =
     (case parent of OperatorC o' \<Rightarrow> o_signingKeys o' | AccountC a \<Rightarrow> signingKeys a | _ \<Rightarrow> [])"

definition child_account :: "any_claims \<Rightarrow> string option" where
  "child_account child =
     (case child of UserC u \<Rightarrow> u_issuerAccount u | ResponseC r \<Rightarrow> r_issuerAccount r | _ \<Rightarrow> None)"

definition scope_broken :: "any_claims \<Rightarrow> any_claims \<Rightarrow> bool" where
  "scope_broken child parent =
     (case (child, parent) of
        (UserC u, AccountC a) \<Rightarrow> getScope a (issuer u) \<noteq> None \<and> \<not> hasEmptyPermissions u
      | _ \<Rightarrow> False)"

definition validateIssuerChain :: "any_claims \<Rightarrow> any_claims \<Rightarrow> ValidationResult" where
  "validateIssuerChain child parent =
     (let childIssuer = issuer (any_base child); parentSubject = subject (any_base parent)
      in if childIssuer = [] then failure ''Child issuer is empty''
         else if parentSubject = [] then failure ''Parent subject is empty''
         else if \<not> (childIssuer = parentSubject \<or> childIssuer \<in> set (vouched_keys parent))
         then failure (''Issuer chain broken: child issuer '' @ squoted childIssuer @
                '' is neither parent subject '' @ squoted parentSubject @ '' nor one of its signing keys'')
         else if (case child_account child of None \<Rightarrow> False | Some a \<Rightarrow> a \<noteq> parentSubject)
         then failure (''issuer_account '' @ squoted (the (child_account child)) @
                '' does not match the account subject '' @ squoted parentSubject)
         else if scope_broken child parent
         then failure ''scoped users require no permissions or limits set''
         else success)"

definition validateKeyHierarchy :: "any_claims \<Rightarrow> any_claims \<Rightarrow> ValidationResult" where
  "validateKeyHierarchy child parent =
     (let childSubject = subject (any_base child); childIssuer = issuer (any_base child);
          parentSubject = subject (any_base parent)
      in if childSubject = [] \<or> childIssuer = [] \<or> parentSubject = []
         then failure ''Empty subject or issuer in key hierarchy validation''
         else
           let childType = hd childSubject; issuerType = hd childIssuer; parentType = hd parentSubject
           in if issuerType \<noteq> parentType
              then failure (''Issuer type mismatch: child issuer type '' @ squoted [issuerType] @
                     '' does not match parent type '' @ squoted [parentType])
              else if childType = CHR ''O'' \<and> parentType = CHR ''O''
              then (if childSubject \<noteq> parentSubject then failure ''Operator must be self-signed'' else success)
              else if childType = CHR ''A'' \<and> parentType = CHR ''O'' then success
              else if childType = CHR ''U'' \<and> parentType = CHR ''A'' then success
              else failure (''Invalid hierarchy: '' @ getClaimType childSubject @ '' cannot be signed by '' @
                     getClaimType parentSubject))"

section \<open>Tokens and chains\<close>

text \<open>The virtual \<open>validate()\<close>.\<close>

definition claims_validate :: "lib \<Rightarrow> int64 \<Rightarrow> any_claims \<Rightarrow> exn + unit" where
  "claims_validate L now c =
     (case c of
        OperatorC c \<Rightarrow> OperatorClaims_validate L now c
      | AccountC c \<Rightarrow> AccountClaims_validate L now c
      | UserC c \<Rightarrow> UserClaims_validate L now c
      | ActivationC c \<Rightarrow> ActivationClaims_validate L now c
      | RequestC c \<Rightarrow> AuthRequest_validate L now c
      | ResponseC c \<Rightarrow> AuthResponse_validate L now c
      | GenericC c \<Rightarrow> GenericClaims_validate now c)"

text \<open>\<open>try { x = m; } catch (const std::exception& e) { return failure(prefix + e.what()); }\<close>\<close>

definition or_failure ::
  "lib \<Rightarrow> string \<Rightarrow> exn + 'a \<Rightarrow> ('a \<Rightarrow> exn + ValidationResult) \<Rightarrow> exn + ValidationResult" where
  "or_failure L msg m k =
     (case m of
        Inr x \<Rightarrow> k x
      | Inl e \<Rightarrow> if is_cpp_exception e then Inr (failure (msg @ exn_what L e)) else Inl e)"

definition validateClaims :: "lib \<Rightarrow> int64 \<Rightarrow> any_claims \<Rightarrow> ValidationOptions \<Rightarrow> exn + ValidationResult" where
  "validateClaims L now c opts =
     stop_unless True (validateTiming now c opts)
       (or_failure L ''Validation failed: '' (claims_validate L now c) (\<lambda>_. Inr success))"

definition validate :: "lib \<Rightarrow> int64 \<Rightarrow> string \<Rightarrow> ValidationOptions \<Rightarrow> exn + ValidationResult" where
  "validate L now jwt opts =
     or_failure L ''Failed to decode JWT: '' (decode L jwt) (\<lambda>c.
       if checkSignature opts \<and> \<not> verify L jwt then Inr (failure ''Invalid JWT signature'')
       else stop_unless True (validateTiming now c opts)
              (or_failure L ''Validation failed: '' (claims_validate L now c) (\<lambda>_. Inr success)))"

definition error_text :: "ValidationResult \<Rightarrow> string" where
  "error_text r = (case error r of None \<Rightarrow> ''unknown error'' | Some msg \<Rightarrow> msg)"

text \<open>The first loop: every token on its own; it ends with the decoded claims or with a failure.\<close>

fun decode_chain ::
  "lib \<Rightarrow> int64 \<Rightarrow> ValidationOptions \<Rightarrow> nat \<Rightarrow> string list \<Rightarrow> exn + (ValidationResult + any_claims list)" where
  "decode_chain L now opts i [] = Inr (Inr [])"
| "decode_chain L now opts i (t # ts) =
     bindE (validate L now t opts) (\<lambda>r.
       if \<not> valid r
       then Inr (Inl (failure (''JWT at index '' @ nat_to_string i @ '' failed validation: '' @ error_text r)))
       else case decode L t of
              Inl e \<Rightarrow>
                (if is_cpp_exception e
                 then Inr (Inl (failure (''Failed to decode JWT at index '' @ nat_to_string i @ '': '' @
                        exn_what L e)))
                 else Inl e)
            | Inr c \<Rightarrow>
                bindE (decode_chain L now opts (i + 1) ts) (\<lambda>rest.
                  Inr (case rest of Inl f \<Rightarrow> Inl f | Inr cs \<Rightarrow> Inr (c # cs))))"

text \<open>The second loop: every claims object against the one before it.\<close>

fun link_chain :: "nat \<Rightarrow> any_claims list \<Rightarrow> ValidationResult" where
  "link_chain i (parent # child # cs) =
     (let r = validateIssuerChain child parent
      in if \<not> valid r
         then failure (''Chain validation failed at index '' @ nat_to_string i @ '': '' @ error_text r)
         else
           let h = validateKeyHierarchy child parent
           in if \<not> valid h
              then failure (''Hierarchy validation failed at index '' @ nat_to_string i @ '': '' @ error_text h)
              else link_chain (i + 1) (child # cs))"
| "link_chain i _ = success"

definition validateChain :: "lib \<Rightarrow> int64 \<Rightarrow> string list \<Rightarrow> ValidationOptions \<Rightarrow> exn + ValidationResult" where
  "validateChain L now jwts opts =
     (if jwts = [] then Inr (failure ''Empty JWT chain'')
      else bindE (decode_chain L now opts 0 jwts) (\<lambda>d.
        case d of
          Inl f \<Rightarrow> Inr f
        | Inr cs \<Rightarrow> Inr (if checkIssuerChain opts \<and> 1 < length cs then link_chain 1 cs else success)))"

section \<open>When each check passes\<close>

lemma valid_results [simp]: "valid success" "\<not> valid (failure m)" "success \<noteq> failure m"
  by (simp_all add: success_def failure_def)

definition vouched :: "any_claims \<Rightarrow> any_claims \<Rightarrow> bool" where
  "vouched child parent \<longleftrightarrow>
     issuer (any_base child) \<in> insert (subject (any_base parent)) (set (vouched_keys parent)) \<and>
     child_account child \<in> {None, Some (subject (any_base parent))} \<and> \<not> scope_broken child parent"

definition below :: "any_claims \<Rightarrow> any_claims \<Rightarrow> bool" where
  "below child parent \<longleftrightarrow>
     (let c = subject (any_base child); i = issuer (any_base child); p = subject (any_base parent)
      in c \<noteq> [] \<and> i \<noteq> [] \<and> p \<noteq> [] \<and> hd i = hd p \<and>
         ((hd c, hd p) \<in> {(CHR ''A'', CHR ''O''), (CHR ''U'', CHR ''A'')} \<or> hd p = CHR ''O'' \<and> c = p))"

lemma validateIssuerChain_valid:
  "valid (validateIssuerChain child parent) \<longleftrightarrow>
     issuer (any_base child) \<noteq> [] \<and> subject (any_base parent) \<noteq> [] \<and> vouched child parent"
  by (auto simp: validateIssuerChain_def vouched_def Let_def split: option.splits)

lemma validateKeyHierarchy_valid: "valid (validateKeyHierarchy child parent) \<longleftrightarrow> below child parent"
  by (auto simp: validateKeyHierarchy_def below_def Let_def)

lemma link_chain_Cons:
  "valid (link_chain i (parent # child # cs)) \<longleftrightarrow>
     vouched child parent \<and> below child parent \<and> valid (link_chain (i + 1) (child # cs))"
  by (auto simp: Let_def validateIssuerChain_valid validateKeyHierarchy_valid below_def)

lemma link_chain_valid:
  "valid (link_chain i cs) \<longleftrightarrow>
     (\<forall>n. Suc n < length cs \<longrightarrow> vouched (cs ! Suc n) (cs ! n) \<and> below (cs ! Suc n) (cs ! n))"
proof (induction cs arbitrary: i rule: induct_list012)
  case (3 parent child cs)
  have split: "(\<forall>n. Suc n < length (parent # child # cs) \<longrightarrow> P n) \<longleftrightarrow>
      P 0 \<and> (\<forall>n. Suc n < length (child # cs) \<longrightarrow> P (Suc n))" for P
    by (auto simp: less_Suc_eq_0_disj)
  show ?case unfolding split link_chain_Cons 3(2) [of "i + 1"] by simp
qed simp_all

lemma stop_unless_valid:
  "stop_unless b m k = Inr r \<and> valid r \<longleftrightarrow> (b \<longrightarrow> (\<exists>r'. m = Inr r' \<and> valid r')) \<and> k = Inr r \<and> valid r"
  by (auto simp: stop_unless_def bindE_Inr_iff split: if_splits)

lemma or_failure_valid:
  "or_failure L msg m k = Inr r \<and> valid r \<longleftrightarrow> (\<exists>x. m = Inr x \<and> k x = Inr r \<and> valid r)"
  by (auto simp: or_failure_def split: sum.splits if_splits)

lemma prefixed_Inr:
  "(case rest of Inl f \<Rightarrow> Inl f | Inr cs \<Rightarrow> Inr (c # cs)) = Inr cs' \<longleftrightarrow> (\<exists>cs0. rest = Inr cs0 \<and> cs' = c # cs0)"
  by (cases rest) auto

lemma decode_chain_decodes:
  assumes "decode_chain L now opts i ts = Inr (Inr cs)"
  shows "list_all2 (\<lambda>t c. decode L t = Inr c) ts cs"
    and "\<forall>t \<in> set ts. \<exists>r. validate L now t opts = Inr r \<and> valid r"
proof -
  have "list_all2 (\<lambda>t c. decode L t = Inr c) ts cs \<and>
      (\<forall>t \<in> set ts. \<exists>r. validate L now t opts = Inr r \<and> valid r)"
    using assms
  proof (induction ts arbitrary: i cs)
    case (Cons t ts)
    from Cons.prems obtain r c cs' where "validate L now t opts = Inr r" "valid r" "decode L t = Inr c"
      and "decode_chain L now opts (i + 1) ts = Inr (Inr cs')" "cs = c # cs'"
      by (cases "decode L t") (auto simp: bindE_Inr_iff prefixed_Inr split: if_splits)
    with Cons.IH [of "i + 1" cs'] show ?case by auto
  qed simp
  then show "list_all2 (\<lambda>t c. decode L t = Inr c) ts cs"
    "\<forall>t \<in> set ts. \<exists>r. validate L now t opts = Inr r \<and> valid r" by blast+
qed

lemma prefixed_Inl:
  "(case rest of Inl f \<Rightarrow> Inl f | Inr cs \<Rightarrow> Inr (c # cs)) = Inl f' \<longleftrightarrow> rest = Inl f'"
  by (cases rest) auto

lemma decode_chain_failure: "decode_chain L now opts i ts = Inr (Inl f) \<Longrightarrow> \<not> valid f"
proof (induction ts arbitrary: i)
  case (Cons t ts)
  then show ?case
    by (cases "decode L t") (auto simp: bindE_Inr_iff prefixed_Inl split: if_splits)
qed simp

lemma validateChain_valid:
  assumes "validateChain L now ts opts = Inr r" and "valid r"
  obtains cs where "ts \<noteq> []" and "list_all2 (\<lambda>t c. decode L t = Inr c) ts cs"
    and "\<forall>t \<in> set ts. \<exists>r. validate L now t opts = Inr r \<and> valid r"
    and "checkIssuerChain opts \<Longrightarrow>
      \<forall>n. Suc n < length cs \<longrightarrow> vouched (cs ! Suc n) (cs ! n) \<and> below (cs ! Suc n) (cs ! n)"
proof -
  from assms have ne: "ts \<noteq> []" by (auto simp: validateChain_def)
  let ?result = "\<lambda>d. case d of Inl f \<Rightarrow> f
      | Inr cs \<Rightarrow> if checkIssuerChain opts \<and> 1 < length cs then link_chain 1 cs else success"
  have "validateChain L now ts opts = bindE (decode_chain L now opts 0 ts) (\<lambda>d. Inr (?result d))"
    unfolding validateChain_def if_not_P [OF ne] by (rule bindE_cong) (simp_all split: sum.split)
  with assms(1) have "bindE (decode_chain L now opts 0 ts) (\<lambda>d. Inr (?result d)) = Inr r" by simp
  then obtain d where d: "decode_chain L now opts 0 ts = Inr d" and r: "r = ?result d"
    by (auto simp: bindE_Inr_iff)
  have "\<not> valid f" if "decode_chain L now opts i ts' = Inr (Inl f)" for f i ts'
    using that by (rule decode_chain_failure)
  with assms(2) d r obtain cs where cs: "d = Inr cs" by (cases d) auto
  have "\<forall>n. Suc n < length cs \<longrightarrow> vouched (cs ! Suc n) (cs ! n) \<and> below (cs ! Suc n) (cs ! n)"
    if "checkIssuerChain opts"
  proof (cases "1 < length cs")
    case True
    with assms(2) r cs that have "valid (link_chain 1 cs)" by simp
    then show ?thesis by (simp add: link_chain_valid)
  qed auto
  then show ?thesis using that ne decode_chain_decodes [OF d [unfolded cs]] by blast
qed

text \<open>The kinds of subjects along an accepted chain.\<close>

lemma below_kinds:
  assumes "\<forall>n. Suc n < length cs \<longrightarrow> below (cs ! Suc n) (cs ! n)" and "Suc n < length cs"
  shows "hd (subject (any_base (cs ! n))) \<in> {CHR ''O'', CHR ''A''}"
    and "hd (subject (any_base (cs ! n))) = CHR ''A'' \<Longrightarrow> Suc (Suc n) = length cs"
proof -
  have b: "below (cs ! Suc n) (cs ! n)" using assms by blast
  then show "hd (subject (any_base (cs ! n))) \<in> {CHR ''O'', CHR ''A''}"
    by (auto simp: below_def Let_def)
  assume "hd (subject (any_base (cs ! n))) = CHR ''A''"
  with b have u: "hd (subject (any_base (cs ! Suc n))) = CHR ''U''" by (auto simp: below_def Let_def)
  have "\<not> below (cs ! Suc (Suc n)) (cs ! Suc n)" using u by (auto simp: below_def Let_def)
  then have "\<not> Suc (Suc n) < length cs" using assms(1) by blast
  then show "Suc (Suc n) = length cs" using assms(2) by simp
qed

section \<open>Which errors escape\<close>

lemma cpp_errors: "is_jwt_error e \<Longrightarrow> is_cpp_exception e" "is_cpp_exception (type_error n)"
  "is_cpp_exception StdOutOfRange"
  by (cases e) simp_all

lemma decode_cpp: "decode L t = Inl e \<Longrightarrow> is_cpp_exception e"
  using decode_outcome [of L t] cpp_errors by auto

lemma throwFirstBlocking_cpp: "throwFirstBlocking vr = Inl e \<Longrightarrow> is_cpp_exception e"
  by (induction vr) (auto split: if_splits)

lemma bindE_throwFirst_cpp:
  assumes "bindE m (\<lambda>_. throwFirstBlocking vr) = Inl e" and "\<And>e. m = Inl e \<Longrightarrow> is_cpp_exception e"
  shows "is_cpp_exception e"
  using assms throwFirstBlocking_cpp by (auto simp: bindE_Inl_iff)

lemma structure_cpp:
  "OperatorClaims_checkStructure L oc = Inl e \<Longrightarrow> is_cpp_exception e"
  "AccountClaims_checkStructure L ac = Inl e \<Longrightarrow> is_cpp_exception e"
  "UserClaims_checkStructure L uc = Inl e \<Longrightarrow> is_cpp_exception e"
  "ActivationClaims_checkStructure L vc = Inl e \<Longrightarrow> is_cpp_exception e"
  "AuthRequest_checkStructure L qc = Inl e \<Longrightarrow> is_cpp_exception e"
  "AuthResponse_checkStructure L rc = Inl e \<Longrightarrow> is_cpp_exception e"
  "GenericClaims_checkStructure gc = Inl e \<Longrightarrow> is_cpp_exception e"
proof -
  have k: "checkIssuerKind L i ks c = Inl e \<Longrightarrow> is_cpp_exception e"
    "checkSubjectKind L i ks' c = Inl e \<Longrightarrow> is_cpp_exception e" for i ks ks' c
    using checkIssuerKind_error checkSubjectKind_error cpp_errors(1) by blast+
  note defs = OperatorClaims_checkStructure_def AccountClaims_checkStructure_def UserClaims_checkStructure_def
    ActivationClaims_checkStructure_def AuthRequest_checkStructure_def AuthResponse_checkStructure_def
    GenericClaims_checkStructure_def
  show "OperatorClaims_checkStructure L oc = Inl e \<Longrightarrow> is_cpp_exception e"
    "AccountClaims_checkStructure L ac = Inl e \<Longrightarrow> is_cpp_exception e"
    "UserClaims_checkStructure L uc = Inl e \<Longrightarrow> is_cpp_exception e"
    "ActivationClaims_checkStructure L vc = Inl e \<Longrightarrow> is_cpp_exception e"
    "AuthRequest_checkStructure L qc = Inl e \<Longrightarrow> is_cpp_exception e"
    "AuthResponse_checkStructure L rc = Inl e \<Longrightarrow> is_cpp_exception e"
    "GenericClaims_checkStructure gc = Inl e \<Longrightarrow> is_cpp_exception e"
    unfolding defs by (auto simp: bindE_Inl_iff dest: k)
qed

lemma AccountClaims_report_cpp:
  assumes "AccountClaims_report L now c vr = Inl e"
  shows "is_cpp_exception e"
proof -
  obtain vr' where "validateExportsImports L now (acc_exports c) (acc_imports c) (subject c) vr' = Inl e"
    using assms by (auto simp: AccountClaims_report_def Let_def bindE_Inl_iff)
  then obtain i where "import_throw L i = Some e" by (auto simp: validateExportsImports_Inl)
  from import_throw_cases [OF this] show ?thesis using cpp_errors(2,3) by blast
qed

lemma claims_validate_cpp:
  assumes "claims_validate L now c = Inl e"
  shows "is_cpp_exception e"
proof (cases c)
  case (OperatorC x)
  with assms show ?thesis
    unfolding OperatorC claims_validate_def any_claims.case OperatorClaims_validate_def
    by (elim bindE_throwFirst_cpp structure_cpp)
next
  case (AccountC x)
  with assms have "bindE (AccountClaims_checkStructure L x) (\<lambda>_. bindE (AccountClaims_report L now x []) throwFirstBlocking)
      = Inl e" by (simp add: claims_validate_def AccountClaims_validate_def)
  then show ?thesis
    using structure_cpp(2) AccountClaims_report_cpp throwFirstBlocking_cpp by (auto simp: bindE_Inl_iff)
next
  case (UserC x)
  with assms show ?thesis
    unfolding UserC claims_validate_def any_claims.case UserClaims_validate_def
    by (elim bindE_throwFirst_cpp structure_cpp)
next
  case (ActivationC x)
  with assms show ?thesis
    unfolding ActivationC claims_validate_def any_claims.case ActivationClaims_validate_def
    by (elim bindE_throwFirst_cpp structure_cpp)
next
  case (RequestC x)
  with assms show ?thesis
    unfolding RequestC claims_validate_def any_claims.case AuthRequest_validate_def
    by (elim bindE_throwFirst_cpp structure_cpp)
next
  case (ResponseC x)
  with assms show ?thesis
    unfolding ResponseC claims_validate_def any_claims.case AuthResponse_validate_def
    by (elim bindE_throwFirst_cpp structure_cpp)
next
  case (GenericC x)
  with assms show ?thesis
    unfolding GenericC claims_validate_def any_claims.case GenericClaims_validate_def
    by (elim bindE_throwFirst_cpp structure_cpp)
qed

text \<open>When the arithmetic on times leaves 64 bits, and what passes when it does not.\<close>

definition nbf_overflows :: "any_claims \<Rightarrow> ValidationOptions \<Rightarrow> bool" where
  "nbf_overflows c opts \<longleftrightarrow> checkNotBefore opts \<and> 0 < sint (notBefore (any_base c)) \<and>
     \<not> fits64 (sint (notBefore (any_base c)) - sint (clockSkewSeconds opts))"

definition too_early :: "int64 \<Rightarrow> any_claims \<Rightarrow> ValidationOptions \<Rightarrow> bool" where
  "too_early now c opts \<longleftrightarrow> checkNotBefore opts \<and> 0 < sint (notBefore (any_base c)) \<and>
     sint now < sint (notBefore (any_base c)) - sint (clockSkewSeconds opts)"

definition exp_overflows :: "any_claims \<Rightarrow> ValidationOptions \<Rightarrow> bool" where
  "exp_overflows c opts \<longleftrightarrow> checkExpiration opts \<and> 0 < sint (expires (any_base c)) \<and>
     \<not> fits64 (sint (expires (any_base c)) + sint (clockSkewSeconds opts))"

definition too_late :: "int64 \<Rightarrow> any_claims \<Rightarrow> ValidationOptions \<Rightarrow> bool" where
  "too_late now c opts \<longleftrightarrow> checkExpiration opts \<and> 0 < sint (expires (any_base c)) \<and>
     sint (expires (any_base c)) + sint (clockSkewSeconds opts) < sint now"

lemma validateTiming_cases:
  "validateTiming now c opts =
     (if nbf_overflows c opts then Inl signed_overflow
      else if too_early now c opts
      then Inr (failure (''claim is not yet valid (nbf: '' @ int_to_string (sint (notBefore (any_base c))) @
                  '', now: '' @ int_to_string (sint now) @ '')''))
      else if exp_overflows c opts then Inl signed_overflow
      else if too_late now c opts
      then Inr (failure (''JWT has expired (exp: '' @ int_to_string (sint (expires (any_base c))) @
                  '', now: '' @ int_to_string (sint now) @ '')''))
      else Inr success)"
  by (simp add: validateTiming_def stop_unless_def validateNotBefore_def validateExpiration_def checked_def
      nbf_overflows_def too_early_def exp_overflows_def too_late_def not_less Let_def)

lemma validate_Inl:
  "validate L now t opts = Inl e \<longleftrightarrow>
     e = signed_overflow \<and> (\<exists>c. decode L t = Inr c \<and> \<not> (checkSignature opts \<and> \<not> verify L t) \<and>
       validateTiming now c opts = Inl signed_overflow)"
proof (cases "decode L t")
  case (Inl e')
  then show ?thesis using decode_cpp [OF Inl] by (simp add: validate_def or_failure_def)
next
  case (Inr c)
  have v: "or_failure L m (claims_validate L now c) (\<lambda>_. Inr success) \<noteq> Inl e" for m
    using claims_validate_cpp [of L now c] by (auto simp: or_failure_def split: sum.splits)
  have t: "validateTiming now c opts = Inl e \<longleftrightarrow> e = signed_overflow \<and> validateTiming now c opts = Inl signed_overflow"
    by (auto simp: validateTiming_cases)
  show ?thesis
    using v t by (auto simp: validate_def or_failure_def Inr stop_unless_def bindE_Inl_iff)
qed

section \<open>Properties\<close>

text \<open>
  C22: The times, on all inputs. The arithmetic leaves 64 bits, which is undefined behaviour, exactly when a
  difference or sum that is needed does: the positive not-before time less the tolerance, or, for a token
  that is not too early, the positive expiration plus the tolerance; it never does for a tolerance of 0.
  Otherwise the result is the failure about the not-before time when that time less the tolerance is in the
  future; else the failure about the expiration when that time plus the tolerance is in the past, both
  compared as integers; else success. An expiration that overflows is never reported as passed.
\<close>

theorem validateTiming_exact:
  "(validateTiming now c opts = Inl e \<longleftrightarrow>
      e = signed_overflow \<and>
      (nbf_overflows c opts \<or> too_early now c opts = False \<and> exp_overflows c opts)) \<and>
   (validateTiming now c opts = Inr r \<longleftrightarrow>
      nbf_overflows c opts = False \<and>
      (if too_early now c opts
       then r = failure (''claim is not yet valid (nbf: '' @ int_to_string (sint (notBefore (any_base c))) @
                  '', now: '' @ int_to_string (sint now) @ '')'')
       else exp_overflows c opts = False \<and>
         (if too_late now c opts
          then r = failure (''JWT has expired (exp: '' @ int_to_string (sint (expires (any_base c))) @
                     '', now: '' @ int_to_string (sint now) @ '')'')
          else r = success))) \<and>
   (case validateTiming now c opts of
      Inr r \<Rightarrow> valid r = (\<not> too_early now c opts \<and> \<not> too_late now c opts)
    | Inl e' \<Rightarrow> e' = signed_overflow) \<and>
   (nbf_overflows c (opts\<lparr>clockSkewSeconds := 0\<rparr>) = False) \<and>
   (exp_overflows c (opts\<lparr>clockSkewSeconds := 0\<rparr>) = False)"
proof -
  have fits: "fits64 (sint x)" for x :: int64
    using sint_ge [of x] sint_lt [of x] by (simp add: fits64_def)
  have skew0: "nbf_overflows c (opts\<lparr>clockSkewSeconds := 0\<rparr>) = False"
    "exp_overflows c (opts\<lparr>clockSkewSeconds := 0\<rparr>) = False"
    by (simp_all add: nbf_overflows_def exp_overflows_def fits)
  have "validateTiming now c opts = Inl e \<longleftrightarrow>
      e = signed_overflow \<and> (nbf_overflows c opts \<or> too_early now c opts = False \<and> exp_overflows c opts)"
    by (auto simp: validateTiming_cases)
  then show ?thesis using skew0 by (auto simp: validateTiming_cases)
qed

text \<open>
  C21: Nothing escapes the validation of a token: every exception of decoding and of the checks of the
  class becomes a failed result. What is left is undefined behaviour, exactly on an authentic token whose
  times overflow with the tolerance.
\<close>

theorem validate_total:
  "(validate L now t opts = Inl e \<longleftrightarrow>
     e = signed_overflow \<and>
     (\<exists>c. decode L t = Inr c \<and> (checkSignature opts = False \<or> verify L t) \<and>
        (nbf_overflows c opts \<or> too_early now c opts = False \<and> exp_overflows c opts))) \<and>
   (\<exists>r. validate L now t (opts\<lparr>clockSkewSeconds := 0\<rparr>) = Inr r)"
proof
  have "validateTiming now c opts = Inl signed_overflow \<longleftrightarrow>
      nbf_overflows c opts \<or> too_early now c opts = False \<and> exp_overflows c opts" for c
    by (simp add: validateTiming_cases)
  then show "validate L now t opts = Inl e \<longleftrightarrow>
     e = signed_overflow \<and>
     (\<exists>c. decode L t = Inr c \<and> (checkSignature opts = False \<or> verify L t) \<and>
        (nbf_overflows c opts \<or> too_early now c opts = False \<and> exp_overflows c opts))"
    unfolding validate_Inl by auto
  have fits: "fits64 (sint x)" for x :: int64
    using sint_ge [of x] sint_lt [of x] by (simp add: fits64_def)
  then have "validateTiming now c (opts\<lparr>clockSkewSeconds := 0\<rparr>) \<noteq> Inl signed_overflow" for c
    by (simp add: validateTiming_cases nbf_overflows_def exp_overflows_def)
  then show "\<exists>r. validate L now t (opts\<lparr>clockSkewSeconds := 0\<rparr>) = Inr r"
    using validate_Inl [of L now t "opts\<lparr>clockSkewSeconds := 0\<rparr>"]
    by (cases "validate L now t (opts\<lparr>clockSkewSeconds := 0\<rparr>)") auto
qed

text \<open>
  C2: What an accepted chain guarantees, when the links are checked. Every token is decoded, signed by the
  issuer it names, and valid on its own. Every token but the first is issued by the subject of the one
  before it or by one of that one's signing keys, names no other account, and, when a scoped key issued
  it, carries no permissions of its own. The kinds descend: operators first, all the same one, then at
  most one account, then at most one user.
\<close>

theorem validated_chain:
  assumes "validateChain L now ts opts = Inr r" and "valid r" and "checkIssuerChain opts"
  shows "\<exists>cs. list_all2 (\<lambda>t c. decode L t = Inr c \<and>
        signed_as L t (issuer (any_base c)) (subject (any_base c)) \<and>
        (\<exists>r. validate L now t opts = Inr r \<and> valid r)) ts cs \<and>
     (\<forall>n. Suc n < length cs \<longrightarrow>
        (let child = cs ! Suc n; parent = cs ! n
         in issuer (any_base child) \<in> insert (subject (any_base parent)) (set (vouched_keys parent)) \<and>
            child_account child \<in> {None, Some (subject (any_base parent))} \<and>
            \<not> scope_broken child parent \<and>
            (hd (subject (any_base parent)) = CHR ''O'' \<and>
               (subject (any_base child) = subject (any_base parent) \<or> hd (subject (any_base child)) = CHR ''A'') \<or>
             hd (subject (any_base parent)) = CHR ''A'' \<and> hd (subject (any_base child)) = CHR ''U'' \<and>
               Suc (Suc n) = length ts)))"
proof -
  obtain cs where cs: "list_all2 (\<lambda>t c. decode L t = Inr c) ts cs"
    and ok: "\<forall>t \<in> set ts. \<exists>r. validate L now t opts = Inr r \<and> valid r"
    and links: "\<forall>n. Suc n < length cs \<longrightarrow> vouched (cs ! Suc n) (cs ! n) \<and> below (cs ! Suc n) (cs ! n)"
    using validateChain_valid [OF assms(1,2)] assms(3) by metis
  have "list_all2 (\<lambda>t c. decode L t = Inr c \<and> signed_as L t (issuer (any_base c)) (subject (any_base c)) \<and>
      (\<exists>r. validate L now t opts = Inr r \<and> valid r)) ts cs"
    using cs ok decode_signed by (auto simp: list_all2_conv_all_nth)
  moreover have len: "length cs = length ts" using cs by (simp add: list_all2_lengthD)
  have "\<forall>n. Suc n < length cs \<longrightarrow> below (cs ! Suc n) (cs ! n)" using links by blast
  note kinds = below_kinds [OF this]
  have "hd (subject (any_base (cs ! n))) = CHR ''O'' \<and>
      (subject (any_base (cs ! Suc n)) = subject (any_base (cs ! n)) \<or>
       hd (subject (any_base (cs ! Suc n))) = CHR ''A'') \<or>
    hd (subject (any_base (cs ! n))) = CHR ''A'' \<and> hd (subject (any_base (cs ! Suc n))) = CHR ''U'' \<and>
      Suc (Suc n) = length ts" if n: "Suc n < length cs" for n
    using kinds [OF n] links n len by (auto simp: below_def Let_def)
  ultimately show ?thesis using links unfolding vouched_def Let_def by blast
qed

text \<open>A chain of an operator's own token, twice.\<close>

definition demo_chain_lib :: lib where
  "demo_chain_lib = demo_lib (demo_wire demo_operator_stamped (OperatorClaims_nats demo_operator_stamped))"

lemma demo_operator_decodes:
  "decode demo_chain_lib (demo_token ''O1'') = Inr (OperatorC (OperatorClaims_reread demo_operator_stamped))"
proof (rule decode_typed(1))
  have "json_faithful demo_chain_lib (OperatorClaims_printed demo_chain_lib demo_operator_stamped)"
    unfolding OperatorClaims_printed_def demo_chain_lib_def demo_wirePayload by (rule demo_faithful)
  then show "decodeOperatorClaims demo_chain_lib (demo_token ''O1'') = Inr (OperatorClaims_reread demo_operator_stamped)"
    using operator_class.decode_encoded [OF demo_operator_encodes demo_lib_ok demo_header _ demo_token_length]
    unfolding demo_chain_lib_def by blast
qed

lemma demo_operator_validates: "validate demo_chain_lib 5 (demo_token ''O1'') strict = Inr success"
proof -
  let ?c = "OperatorClaims_reread demo_operator_stamped"
  have "verify demo_chain_lib (demo_token ''O1'')"
    using decode_outcome [of demo_chain_lib "demo_token ''O1''"] by (simp add: demo_operator_decodes)
  moreover have fields: "subject ?c = ''O1''" "issuer ?c = ''O1''" "expires ?c = 0" "notBefore ?c = 0"
    by (simp_all add: OperatorClaims_reread_def reread_base_def reread_time_def demo_operator_stamped_def
        demo_operator_def OperatorClaims_new_def)
  moreover have "OperatorClaims_checkStructure demo_chain_lib ?c = Inr ()"
    by (simp add: OperatorClaims_checkStructure_Inr fields demo_chain_lib_def demo_lib_def starts_with_def)
  moreover have "OperatorClaims_report demo_chain_lib 5 ?c [] = []"
    by (simp add: OperatorClaims_report_def OperatorClaims_reread_def reread_base_def reread_time_def
        demo_operator_stamped_def demo_operator_def
        OperatorClaims_new_def addTimeChecks_def validateOperatorWiring_def error_if_def Let_def)
  ultimately show ?thesis
    by (simp add: validate_def or_failure_def demo_operator_decodes stop_unless_def validateTiming_def
        validateNotBefore_def validateExpiration_def claims_validate_def OperatorClaims_validate_def)
qed

lemma validated_chain_witness:
  "\<exists>cs. list_all2 (\<lambda>t c. decode demo_chain_lib t = Inr c) [demo_token ''O1'', demo_token ''O1''] cs \<and>
     issuer (any_base (cs ! 1)) \<in> insert (subject (any_base (cs ! 0))) (set (vouched_keys (cs ! 0)))"
proof -
  let ?c = "OperatorC (OperatorClaims_reread demo_operator_stamped)"
  have "subject (any_base ?c) = ''O1''" "issuer (any_base ?c) = ''O1''"
    by (simp_all add: OperatorClaims_reread_def reread_base_def demo_operator_stamped_def demo_operator_def
        OperatorClaims_new_def)
  then have "valid (link_chain 1 [?c, ?c])"
    by (simp add: validateIssuerChain_valid validateKeyHierarchy_valid vouched_def below_def child_account_def
        scope_broken_def Let_def)
  moreover have "decode_chain demo_chain_lib 5 strict 0 [demo_token ''O1'', demo_token ''O1''] = Inr (Inr [?c, ?c])"
    by (simp add: demo_operator_validates demo_operator_decodes)
  moreover have strict: "checkIssuerChain strict" by (simp add: strict_def)
  ultimately obtain r where r: "validateChain demo_chain_lib 5 [demo_token ''O1'', demo_token ''O1''] strict = Inr r" "valid r"
    by (simp add: validateChain_def del: decode_chain.simps link_chain.simps)
  obtain cs where cs: "list_all2 (\<lambda>t c. decode demo_chain_lib t = Inr c) [demo_token ''O1'', demo_token ''O1''] cs"
    and link: "\<And>n. Suc n < length cs \<Longrightarrow>
      issuer (any_base (cs ! Suc n)) \<in> insert (subject (any_base (cs ! n))) (set (vouched_keys (cs ! n)))"
    using validated_chain [OF r strict] unfolding Let_def by (metis (no_types, lifting) list_all2_mono)
  then have "Suc 0 < length cs" by (auto dest: list_all2_lengthD)
  from link [OF this] cs show ?thesis by auto
qed

end
