(* ===== verification/Creds.thy ===== *)
theory Creds
  imports Validation
begin

text \<open>
  Credentials files and the issuing of users (\<^verbatim>\<open>src/creds.cpp\<close>, \<^verbatim>\<open>formatUserConfig\<close> in
  \<^verbatim>\<open>src/user_claims.cpp\<close>): tokens and seeds are wrapped in marker lines, after the token was decoded
  and the seed found to be its subject's; \<open>issueUserJWT\<close> makes a scoped user of an account.

  Reading a decorated file is nkeys': the three parsers are parameters, which the functions here only
  call. The lemmas show that a wrapped token stands on a line of its own, and that an
  issued user decodes to one without permissions that its account vouches for.
\<close>

section \<open>Decorating\<close>

definition newline :: string where
  "newline = [CHR 0x0A]"

definition parseDecoratedJWT :: "lib \<Rightarrow> string \<Rightarrow> exn + string" where
  "parseDecoratedJWT L contents = ParseDecoratedJWT L contents"

definition parseDecoratedNKey :: "lib \<Rightarrow> string \<Rightarrow> exn + keypair" where
  "parseDecoratedNKey L contents = ParseDecoratedNKey L contents"

definition parseDecoratedUserNKey :: "lib \<Rightarrow> string \<Rightarrow> exn + keypair" where
  "parseDecoratedUserNKey L contents = ParseDecoratedUserNKey L contents"

definition armorJwt :: "string \<Rightarrow> string \<Rightarrow> string" where
  "armorJwt kind token =
     (''-----BEGIN NATS '' @ kind @ '' JWT-----'') @ newline @ token @ newline @
     (''------END NATS '' @ kind @ '' JWT------'') @ newline @ newline"

text \<open>The block with the seed, the same text in \<open>decorateSeed\<close> and \<open>formatUserConfig\<close>.\<close>

definition armorSeed :: "string \<Rightarrow> string \<Rightarrow> string" where
  "armorSeed kind seed =
     ''************************* IMPORTANT *************************'' @ newline @
     ''NKEY Seed printed below can be used to sign and prove identity.'' @ newline @
     ''NKEYs are sensitive and should be treated as secrets.'' @ newline @ newline @
     (''-----BEGIN '' @ kind @ '' NKEY SEED-----'') @ newline @ seed @ newline @
     (''------END '' @ kind @ '' NKEY SEED------'') @ newline @ newline @
     ''*************************************************************'' @ newline"

definition claims_kind :: "any_claims \<Rightarrow> string" where
  "claims_kind c =
     (case c of
        OperatorC _ \<Rightarrow> ''OPERATOR''
      | AccountC _ \<Rightarrow> ''ACCOUNT''
      | ActivationC _ \<Rightarrow> ''ACTIVATION''
      | RequestC _ \<Rightarrow> ''AUTHORIZATION_REQUEST''
      | ResponseC _ \<Rightarrow> ''AUTHORIZATION_RESPONSE''
      | GenericC g \<Rightarrow> upper (claimType g)
      | UserC _ \<Rightarrow> ''USER'')"

definition decorateJWT :: "lib \<Rightarrow> string \<Rightarrow> exn + string" where
  "decorateJWT L jwt = bindE (decode L jwt) (\<lambda>c. Inr (armorJwt (claims_kind c) jwt))"

definition seed_kind :: "string \<Rightarrow> string" where
  "seed_kind seed =
     (if 2 \<le> length seed \<and> seed ! 0 = CHR ''S''
      then (if seed ! 1 = CHR ''U'' then ''USER'' else if seed ! 1 = CHR ''A'' then ''ACCOUNT''
            else if seed ! 1 = CHR ''O'' then ''OPERATOR'' else [])
      else [])"

definition decorateSeed :: "string \<Rightarrow> exn + string" where
  "decorateSeed seed =
     (if seed_kind seed = []
      then Inl (InvalidClaimsError ''seed is not an operator, account or user seed'')
      else Inr (armorSeed (seed_kind seed) seed))"

definition formatUserConfig :: "lib \<Rightarrow> string \<Rightarrow> string \<Rightarrow> exn + string" where
  "formatUserConfig L jwt seed =
     bindE (throw_if (jwt = []) (InvalidClaimsError ''JWT cannot be empty'')) (\<lambda>_.
     bindE (throw_if (length seed < 2 \<or> seed ! 0 \<noteq> CHR ''S'' \<or> seed ! 1 \<noteq> CHR ''U'')
              (InvalidClaimsError ''Seed must be a user seed (starting with 'SU')'')) (\<lambda>_.
     bindE (decodeUserClaims L jwt) (\<lambda>c.
     bindE (FromSeed L seed) (\<lambda>kp.
     bindE (throw_if (publicString kp \<noteq> subject c)
              (InvalidClaimsError ''nkey seed does not match the JWT subject'')) (\<lambda>_.
       Inr (armorJwt ''USER'' jwt @ armorSeed ''USER'' seed))))))"

section \<open>Issuing a user\<close>

definition issued_claims ::
  "int64 \<Rightarrow> string \<Rightarrow> string \<Rightarrow> string \<Rightarrow> int64 \<Rightarrow> string list \<Rightarrow> exn + user_claims" where
  "issued_claims now accountId publicUserKey nm expirationSeconds tgs =
     (let c1 = setName (if nm = [] then publicUserKey else nm)
                 (setIssuerAccount accountId (setScoped True (UserClaims_new publicUserKey)))
      in bindE (if 0 < sint expirationSeconds
                then bindE (checked (sint now + sint expirationSeconds)) (\<lambda>e. Inr (setExpires (word_of_int e) c1))
                else Inr c1)
           (\<lambda>c2. Inr (c2\<lparr>tags := addTags (tags c2) tgs\<rparr>)))"

definition issueUserJWT ::
  "lib \<Rightarrow> int64 \<Rightarrow> string \<Rightarrow> string \<Rightarrow> string \<Rightarrow> string \<Rightarrow> int64 \<Rightarrow> string list \<Rightarrow> exn + string" where
  "issueUserJWT L now scopedSigningKeySeed accountId publicUserKey nm expirationSeconds tgs =
     bindE (throw_if (\<not> IsValidPublicAccountKey L accountId)
              (InvalidClaimsError ''issueUserJWT requires an account key for accountId'')) (\<lambda>_.
     bindE (throw_if (\<not> IsValidPublicUserKey L publicUserKey)
              (InvalidClaimsError ''issueUserJWT requires a user key for publicUserKey'')) (\<lambda>_.
     bindE (issued_claims now accountId publicUserKey nm expirationSeconds tgs) (\<lambda>c.
       fst (UserClaims_encode L now c scopedSigningKeySeed))))"

section \<open>Lines of a decorated token\<close>

lemma newline_not_in_alphabet: "CHR 0x0A \<notin> set alphabet"
  by (simp add: alphabet_def)

lemma signed_no_newline:
  assumes "signed_as L t iss sbj"
  shows "CHR 0x0A \<notin> set t"
proof -
  obtain h p s alg obj m where w: "wire L t h p s alg obj" and v: "verifySignature L iss m s"
    using assms unfolding signed_as_def by blast
  from v obtain d where "base64url_decode s = Inr d" by (auto simp: verifySignature_def split: sum.splits)
  with w have "set h \<subseteq> set alphabet" "set p \<subseteq> set alphabet" "set s \<subseteq> set alphabet"
    using decode_accepts_iff [of h] decode_accepts_iff [of p] decode_accepts_iff [of s]
    unfolding wire_def by blast+
  moreover have "t = h @ ''.'' @ p @ ''.'' @ s" using w by (simp add: wire_def token_of_def)
  ultimately show ?thesis using newline_not_in_alphabet by auto
qed

lemma splitOn_line: "CHR 0x0A \<notin> set t \<Longrightarrow> splitOn (t @ newline @ s) CHR 0x0A = t # splitOn s CHR 0x0A"
  using splitOn_append [of "CHR 0x0A" t s] by (simp add: newline_def)

lemma armorJwt_lines:
  assumes "CHR 0x0A \<notin> set kind" and "CHR 0x0A \<notin> set token"
  shows "splitOn (armorJwt kind token @ rest) CHR 0x0A =
    [''-----BEGIN NATS '' @ kind @ '' JWT-----'', token, ''------END NATS '' @ kind @ '' JWT------'', []]
      @ splitOn rest CHR 0x0A"
proof -
  define b where "b = ''-----BEGIN NATS '' @ kind @ '' JWT-----''"
  define e where "e = ''------END NATS '' @ kind @ '' JWT------''"
  have be: "CHR 0x0A \<notin> set b" "CHR 0x0A \<notin> set e" using assms(1) by (simp_all add: b_def e_def)
  have "armorJwt kind token @ rest = b @ newline @ (token @ newline @ (e @ newline @ ([] @ newline @ rest)))"
    by (simp add: armorJwt_def b_def e_def)
  then have "splitOn (armorJwt kind token @ rest) CHR 0x0A =
      b # token # e # splitOn ([] @ newline @ rest) CHR 0x0A"
    by (simp only: splitOn_line [OF be(1)] splitOn_line [OF assms(2)] splitOn_line [OF be(2)])
  moreover have "splitOn ([] @ newline @ rest) CHR 0x0A = [] # splitOn rest CHR 0x0A"
    by (rule splitOn_line) simp
  ultimately show ?thesis by (simp add: b_def e_def)
qed

lemma claimType_line: "CHR 0x0A \<notin> set (upper (claimType g))"
proof -
  have "list_all (\<lambda>ty. CHR 0x0A \<notin> set (upper ty)) ([] # ''generic'' # known_types)"
    by code_simp
  then show ?thesis using claimType_known [of g] by (auto simp: list_all_iff)
qed

lemma claims_kind_line: "CHR 0x0A \<notin> set (claims_kind c)"
  using claimType_line by (cases c) (simp_all add: claims_kind_def)

section \<open>Issued users\<close>

lemma issued_claims_Inr:
  assumes "issued_claims now acc key' nm exp tgs = Inr c"
  shows "subject c = key'" and "name c = Some (if nm = [] then key' else nm)"
    and "u_issuerAccount c = (if acc = [] then None else Some acc)" and "hasEmptyPermissions c"
    and "tags c = addTags [] tgs" and "sint exp \<le> 0 \<Longrightarrow> expires c = 0"
    and "0 < sint exp \<Longrightarrow> sint (expires c) = sint now + sint exp"
proof -
  let ?c1 = "setName (if nm = [] then key' else nm) (setIssuerAccount acc (setScoped True (UserClaims_new key')))"
  have "\<exists>e. c = ?c1\<lparr>expires := e, tags := addTags [] tgs\<rparr> \<and>
      (if 0 < sint exp then sint e = sint now + sint exp else e = 0)"
  proof (cases "0 < sint exp")
    case True
    with assms have f: "fits64 (sint now + sint exp)"
      and c: "c = (setExpires (word_of_int (sint now + sint exp)) ?c1)\<lparr>tags := addTags [] tgs\<rparr>"
      by (auto simp: issued_claims_def checked_def bindE_Inr_iff setExpires_def setName_def setIssuerAccount_def
          setScoped_def UserClaims_new_def split: if_splits)
    have "sint (word_of_int (sint now + sint exp) :: int64) = sint now + sint exp"
      using f by (simp add: fits64_def sint_word_ariths signed_take_bit_int_eq_self)
    with True c show ?thesis by (auto simp: setExpires_def)
  next
    case False
    with assms show ?thesis
      by (auto simp: issued_claims_def setName_def setIssuerAccount_def setScoped_def UserClaims_new_def)
  qed
  then obtain e where c: "c = ?c1\<lparr>expires := e, tags := addTags [] tgs\<rparr>"
    and e: "if 0 < sint exp then sint e = sint now + sint exp else e = 0" by blast
  show "subject c = key'" "name c = Some (if nm = [] then key' else nm)"
    "u_issuerAccount c = (if acc = [] then None else Some acc)" "hasEmptyPermissions c"
    "tags c = addTags [] tgs"
    by (simp_all add: c setName_def setIssuerAccount_def setScoped_def UserClaims_new_def hasEmptyPermissions_def
        Let_def no_permissions_def no_permission_def permission_empty_def)
  show "sint exp \<le> 0 \<Longrightarrow> expires c = 0" "0 < sint exp \<Longrightarrow> sint (expires c) = sint now + sint exp"
    using e by (simp_all add: c)
qed

lemma reread_keeps_empty: "hasEmptyPermissions (UserClaims_reread c) = hasEmptyPermissions c"
  by (simp add: hasEmptyPermissions_def UserClaims_reread_def reread_base_def)

section \<open>Properties\<close>

text \<open>
  C37: Credentials files. \<open>formatUserConfig\<close> accepts a token and a seed exactly when the token decodes as
  a user token and the seed is a user seed that makes the key pair of its subject. The file then begins
  with the begin marker, the token on one line of its own, the end marker and an empty line; the same
  holds of every decorated token.
\<close>

theorem formatUserConfig_exact:
  "(formatUserConfig L jwt seed = Inr out \<longleftrightarrow>
      out = armorJwt ''USER'' jwt @ armorSeed ''USER'' seed \<and> 2 \<le> length seed \<and> take 2 seed = ''SU'' \<and>
      (\<exists>c kp. decodeUserClaims L jwt = Inr c \<and> FromSeed L seed = Inr kp \<and> publicString kp = subject c)) \<and>
   (case formatUserConfig L jwt seed of
      Inl e \<Rightarrow> True
    | Inr out \<Rightarrow> (\<exists>rest. splitOn out CHR 0x0A =
        [''-----BEGIN NATS USER JWT-----'', jwt, ''------END NATS USER JWT------'', []] @ rest)) \<and>
   (case decorateJWT L jwt of
      Inl e \<Rightarrow> decode L jwt = Inl e
    | Inr out \<Rightarrow> (\<exists>kind. splitOn out CHR 0x0A =
        [''-----BEGIN NATS '' @ kind @ '' JWT-----'', jwt, ''------END NATS '' @ kind @ '' JWT------'', [], []]))"
proof (intro conjI)
  have su: "\<not> (length seed < 2 \<or> seed ! 0 \<noteq> CHR ''S'' \<or> seed ! 1 \<noteq> CHR ''U'') \<longleftrightarrow>
      2 \<le> length seed \<and> take 2 seed = ''SU''"
    by (cases seed; cases "tl seed") (auto simp: numeral_2_eq_2)
  have "\<not> signed_as L [] iss sbj" for iss sbj by (simp add: signed_as_def wire_def token_of_def)
  then have "decodeUserClaims L [] \<noteq> Inr c" for c using decode_typed(3) decode_signed by blast
  then show iff: "formatUserConfig L jwt seed = Inr out \<longleftrightarrow>
      out = armorJwt ''USER'' jwt @ armorSeed ''USER'' seed \<and> 2 \<le> length seed \<and> take 2 seed = ''SU'' \<and>
      (\<exists>c kp. decodeUserClaims L jwt = Inr c \<and> FromSeed L seed = Inr kp \<and> publicString kp = subject c)" for out
    unfolding formatUserConfig_def bindE_Inr_iff throw_if_Inr_iff su sum.inject by metis
  show "case formatUserConfig L jwt seed of
      Inl e \<Rightarrow> True
    | Inr out \<Rightarrow> (\<exists>rest. splitOn out CHR 0x0A =
        [''-----BEGIN NATS USER JWT-----'', jwt, ''------END NATS USER JWT------'', []] @ rest)"
  proof (cases "formatUserConfig L jwt seed")
    case (Inr out)
    then obtain c where "decodeUserClaims L jwt = Inr c"
      and out: "out = armorJwt ''USER'' jwt @ armorSeed ''USER'' seed" unfolding iff by blast
    then have "CHR 0x0A \<notin> set jwt"
      using signed_no_newline decode_signed decode_typed(3) by blast
    then show ?thesis
      unfolding Inr out sum.case using armorJwt_lines [of "''USER''" jwt "armorSeed ''USER'' seed"] by auto
  qed simp
  show "case decorateJWT L jwt of
      Inl e \<Rightarrow> decode L jwt = Inl e
    | Inr out \<Rightarrow> (\<exists>kind. splitOn out CHR 0x0A =
        [''-----BEGIN NATS '' @ kind @ '' JWT-----'', jwt, ''------END NATS '' @ kind @ '' JWT------'', [], []])"
  proof (cases "decode L jwt")
    case (Inr c)
    have "CHR 0x0A \<notin> set jwt" using signed_no_newline decode_signed [OF Inr] by blast
    then have "splitOn (armorJwt (claims_kind c) jwt @ []) CHR 0x0A =
      [''-----BEGIN NATS '' @ claims_kind c @ '' JWT-----'', jwt, ''------END NATS '' @ claims_kind c @ '' JWT------'', []]
        @ splitOn [] CHR 0x0A"
      by (rule armorJwt_lines [OF claims_kind_line])
    then show ?thesis unfolding decorateJWT_def Inr bindE.simps sum.case by (intro exI) simp
  qed (simp add: decorateJWT_def)
qed

text \<open>
  C7: An issued user. The token \<open>issueUserJWT\<close> makes decodes to a user of the given key without any
  permissions, limits or flags of its own, issued by the key of the seed for the given account and with
  the normal forms of the given tags; it expires when asked to. Every account with that subject vouches
  for it, if the key is its own or one of its signing keys, scoped or not.
\<close>

theorem issued_user_decodes:
  assumes "issueUserJWT L now seed acc key' nm exp tgs = Inr token"
    and "FromSeed L seed = Inr kp" and "issued_claims now acc key' nm exp tgs = Inr c"
    and "lib_ok L" and "json_faithful L header_json" and "length token \<le> MAX_JWT_SIZE"
    and "json_faithful L (UserClaims_printed L (c\<lparr>issuer := publicString kp, issuedAt := now\<rparr>))"
    and "subject a = acc" and "publicString kp \<in> insert acc (set (signingKeys a))"
    and "acc \<noteq> []" and "publicString kp \<noteq> []"
  shows "\<exists>u. decode L token = Inr (UserC u) \<and> hasEmptyPermissions u \<and> subject u = key' \<and>
    issuer u = publicString kp \<and> u_issuerAccount u = Some acc \<and> tags u = addTags [] tgs \<and>
    (if 0 < sint exp \<and> 0 < sint now + sint exp then sint (expires u) = sint now + sint exp else expires u = 0) \<and>
    valid (validateIssuerChain (UserC u) (AccountC a))"
proof -
  let ?c = "c\<lparr>issuer := publicString kp, issuedAt := now\<rparr>"
  note i = issued_claims_Inr [OF assms(3)]
  have "fst (UserClaims_encode L now c seed) = Inr token"
    using assms(1,3) by (auto simp: issueUserJWT_def bindE_Inr_iff)
  then have "fst (UserClaims_encodeWithSigner L now c (publicString kp) (signerFor kp)) = Inr token"
    by (simp add: UserClaims_encode_def assms(2))
  then obtain c' where enc: "UserClaims_encodeWithSigner L now c (publicString kp) (signerFor kp) = (Inr token, c')"
    by (metis prod.collapse)
  have c': "c' = ?c" by (rule UserClaims_encode_Inr(1) [OF enc])
  have "decodeUserClaims L token = Inr (UserClaims_reread ?c)"
    using user_class.decode_encoded [OF enc assms(4,5) _ assms(6)] assms(7) by (simp add: c')
  then have "decode L token = Inr (UserC (UserClaims_reread ?c))" by (rule decode_typed(3))
  moreover have empty: "hasEmptyPermissions (UserClaims_reread ?c)"
    unfolding reread_keeps_empty using i(4) by (simp add: hasEmptyPermissions_def)
  moreover have f: "subject (UserClaims_reread ?c) = key'" "issuer (UserClaims_reread ?c) = publicString kp"
    "u_issuerAccount (UserClaims_reread ?c) = Some acc" "tags (UserClaims_reread ?c) = addTags [] tgs"
    "expires (UserClaims_reread ?c) = reread_time (expires c)"
    using assms(10) i(1,3,5) by (simp_all add: UserClaims_reread_def reread_base_def)
  moreover have "if 0 < sint exp \<and> 0 < sint now + sint exp
      then sint (reread_time (expires c)) = sint now + sint exp else reread_time (expires c) = 0"
    using i(6,7) by (cases "0 < sint exp") (auto simp: reread_time_def)
  moreover have "valid (validateIssuerChain (UserC (UserClaims_reread ?c)) (AccountC a))"
    using assms(8-11) f(2,3) empty
    by (auto simp: validateIssuerChain_valid vouched_def vouched_keys_def child_account_def scope_broken_def)
  ultimately show ?thesis by (intro exI [of _ "UserClaims_reread ?c"]) simp
qed

definition demo_issued :: user_claims where
  "demo_issued = setName ''U1'' (setIssuerAccount ''A1'' (setScoped True (UserClaims_new ''U1'')))"

lemma demo_issued_claims: "issued_claims 5 ''A1'' ''U1'' [] 0 [] = Inr demo_issued"
  by (simp add: issued_claims_def demo_issued_def addTags_def setName_def setIssuerAccount_def setScoped_def
      UserClaims_new_def)

lemma demo_issues:
  "issueUserJWT (demo_lib j) 5 ''SA1'' ''A1'' ''U1'' [] 0 [] = Inr (demo_token ''A1'')"
proof -
  let ?c = "demo_issued\<lparr>issuer := ''A1'', issuedAt := 5\<rparr>"
  have "checkIssuerKind (demo_lib j) ''A1'' ''A'' ''User'' = Inr ()"
    by (simp add: checkIssuerKind_Inr_iff kind_check_def demo_lib_def starts_with_def)
  moreover have "UserClaims_checkStructure (demo_lib j) ?c = Inr ()"
    by (simp add: UserClaims_checkStructure_Inr demo_issued_def setName_def setIssuerAccount_def setScoped_def
        UserClaims_new_def demo_lib_def starts_with_def)
  moreover have "UserClaims_report (demo_lib j) 5 ?c [] = []"
    by (simp add: UserClaims_report_def demo_issued_def setName_def setIssuerAccount_def setScoped_def
        UserClaims_new_def addTimeChecks_def validatePermissions_def no_permissions_def no_permission_def
        validateLimits_def error_if_def demo_lib_def starts_with_def)
  moreover have "IsValidPublicAccountKey (demo_lib j) ''A1''" "IsValidPublicUserKey (demo_lib j) ''U1''"
    "FromSeed (demo_lib j) ''SA1'' = Inr (demo_pair ''A1'')" "publicString (demo_pair ''A1'') = ''A1''"
    by (simp_all add: demo_lib_def demo_pair_def starts_with_def)
  ultimately show ?thesis
    by (simp add: issueUserJWT_def demo_issued_claims UserClaims_encode_def UserClaims_encodeWithSigner_def
        UserClaims_validate_def demo_finish)
qed

lemma issued_user_decodes_witness:
  "\<exists>u. decode (demo_lib (demo_wire (demo_issued\<lparr>issuer := ''A1'', issuedAt := 5\<rparr>)
      (UserClaims_nats (demo_issued\<lparr>issuer := ''A1'', issuedAt := 5\<rparr>)))) (demo_token ''A1'') = Inr (UserC u) \<and>
     hasEmptyPermissions u \<and> valid (validateIssuerChain (UserC u) (AccountC (AccountClaims_new ''A1'')))"
proof -
  let ?c = "demo_issued\<lparr>issuer := ''A1'', issuedAt := 5\<rparr>"
  let ?L = "demo_lib (demo_wire ?c (UserClaims_nats ?c))"
  have kp: "FromSeed ?L ''SA1'' = Inr (demo_pair ''A1'')" "publicString (demo_pair ''A1'') = ''A1''"
    by (simp_all add: demo_lib_def demo_pair_def)
  have "json_faithful ?L (UserClaims_printed ?L ?c)"
    unfolding UserClaims_printed_def demo_wirePayload by (rule demo_faithful)
  moreover have "subject (AccountClaims_new ''A1'') = ''A1''" by (simp add: AccountClaims_new_def)
  ultimately show ?thesis
    using issued_user_decodes [OF demo_issues kp(1) demo_issued_claims demo_lib_ok demo_header demo_token_length,
        of "AccountClaims_new ''A1''"] kp(2)
    by auto
qed

end
