(* ===== verification/CmdArgs.thy ===== *)
theory CmdArgs
  imports StdMap
begin

text \<open>
  The command line of the tool (\<^verbatim>\<open>src/tools/cmd_args.hpp\<close>): trimming, and the parser that sorts the
  arguments after the program's name into options and positional arguments. The loop over \<open>argv\<close> with
  its lookahead is a recursion over the list of arguments.

  The lemmas show that whatever is stored is trimmed, that the spellings of an option agree, and that
  well-formed options and positional arguments are read back.
\<close>

section \<open>Trimming\<close>

text \<open>\<open>std::isspace\<close> in the "C" locale.\<close>

definition is_space :: "char \<Rightarrow> bool" where
  "is_space c \<longleftrightarrow> c \<in> {CHR '' '', CHR 9, CHR 10, CHR 11, CHR 12, CHR 13}"

definition trim :: "string \<Rightarrow> string" where
  "trim s =
     (let b = length (takeWhile is_space s);
          e = length s - length (takeWhile is_space (rev s))
      in if b \<ge> e then [] else take (e - b) (drop b s))"

section \<open>Parsing\<close>

record cmd_args =
  options :: "string smap"
  positional :: "string list"

definition put :: "string \<Rightarrow> string \<Rightarrow> cmd_args \<Rightarrow> cmd_args" where
  "put k v r = r\<lparr>options := smap_put (trim k) (trim v) (options r)\<rparr>"

definition dash :: "string \<Rightarrow> bool" where
  "dash s \<longleftrightarrow> (case s of [] \<Rightarrow> False | c # _ \<Rightarrow> c = CHR ''-'')"

text \<open>The value after an option, and the arguments that are left.\<close>

definition next_value :: "string list \<Rightarrow> string \<times> string list" where
  "next_value args =
     (case args of
        [] \<Rightarrow> (''true'', args)
      | a # rest \<Rightarrow>
          if a = ''='' \<and> rest \<noteq> [] then (hd rest, tl rest)
          else if \<not> dash a \<and> a \<noteq> ''='' then (a, rest)
          else (''true'', args))"

definition or_true :: "string \<Rightarrow> string" where
  "or_true v = (if v = [] then ''true'' else v)"

text \<open>One round of the loop.\<close>

definition long_option :: "string \<Rightarrow> string list \<Rightarrow> cmd_args \<Rightarrow> cmd_args \<times> string list" where
  "long_option rest args r =
     (case find_char CHR ''='' rest of
        Some eq \<Rightarrow> (put (trim (substr rest 0 eq)) (or_true (trim (drop (eq + 1) rest))) r, args)
      | None \<Rightarrow> (let (v, args') = next_value args in (put (trim rest) v r, args')))"

definition short_option :: "string \<Rightarrow> string list \<Rightarrow> cmd_args \<Rightarrow> cmd_args \<times> string list" where
  "short_option s args r =
     (case find_char CHR ''='' s of
        Some (Suc n) \<Rightarrow> (put [hd s] (or_true (drop (Suc n + 1) s)) r, args)
      | _ \<Rightarrow>
          if 1 < length s then (fold (\<lambda>ch. put [ch] ''true'') s r, args)
          else (let (v, args') = next_value args in (put s v r, args')))"

definition parse_step :: "string \<Rightarrow> string list \<Rightarrow> cmd_args \<Rightarrow> cmd_args \<times> string list" where
  "parse_step arg args r =
     (if starts_with arg ''--'' then long_option (drop 2 arg) args r
      else if 2 \<le> length arg \<and> arg ! 0 = CHR ''-'' \<and> arg ! 1 \<noteq> CHR ''-''
      then short_option (drop 1 arg) args r
      else (r\<lparr>positional := positional r @ [trim arg]\<rparr>, args))"

lemma next_value_length: "next_value args = (v, args') \<Longrightarrow> length args' \<le> length args"
  by (auto simp: next_value_def split: list.splits if_splits)

lemma parse_step_length: "parse_step arg args r = (r', args') \<Longrightarrow> length args' \<le> length args"
  using next_value_length
  by (fastforce simp: parse_step_def long_option_def short_option_def split: if_splits option.splits nat.splits prod.splits)

function parse_loop :: "string list \<Rightarrow> cmd_args \<Rightarrow> cmd_args" where
  "parse_loop [] r = r"
| "parse_loop (arg # args) r = (let (r', args') = parse_step arg args r in parse_loop args' r')"
  by pat_completeness auto
termination
  by (relation "measure (\<lambda>(args, r). length args)") (auto dest: parse_step_length [OF sym])

definition parse :: "string list \<Rightarrow> cmd_args" where
  "parse argv = parse_loop (tl argv) \<lparr>options = [], positional = []\<rparr>"

definition get :: "cmd_args \<Rightarrow> string \<Rightarrow> string option" where
  "get r k = smap_get (options r) k"

section \<open>Trimmed texts\<close>

lemma trim_eq: "trim s = rev (dropWhile is_space (rev (dropWhile is_space s)))"
proof (cases "\<forall>c \<in> set s. is_space c")
  case True
  then have all: "takeWhile is_space s = s" "dropWhile is_space s = []"
    by (simp_all add: takeWhile_eq_all_conv)
  show ?thesis unfolding trim_def Let_def all by simp
next
  case False
  define m where "m = dropWhile is_space s"
  define w where "w = takeWhile is_space s"
  have s: "s = w @ m" by (simp add: w_def m_def)
  from False obtain c where c: "c \<in> set m" "\<not> is_space c"
    unfolding m_def by (metis dropWhile_eq_Nil_conv hd_dropWhile list.set_sel(1))
  have tk: "takeWhile is_space (rev s) = takeWhile is_space (rev m)"
    unfolding s using c by (simp add: takeWhile_append1)
  let ?k = "length (takeWhile is_space (rev m))"
  have k: "?k < length m"
    using c by (metis length_rev length_takeWhile_le nat_less_le set_rev takeWhile_eq_all_conv takeWhile_eq_take take_all)
  have "rev (dropWhile is_space (rev m)) = take (length m - ?k) m"
    by (simp add: dropWhile_eq_drop rev_drop)
  moreover have "drop (length w) s = m" "length s = length w + length m" by (simp_all add: s)
  then have "trim s = take (length m - ?k) m"
    using k unfolding trim_def Let_def tk w_def [symmetric] by simp
  ultimately show ?thesis by (simp add: m_def)
qed

lemma trim_idem [simp]: "trim (trim s) = trim s"
proof -
  have "dropWhile is_space (rev (dropWhile is_space (rev (dropWhile is_space t)))) =
      rev (dropWhile is_space (rev (dropWhile is_space t)))" for t
  proof (cases "rev (dropWhile is_space (rev (dropWhile is_space t)))")
    case (Cons c cs)
    then obtain ds where "dropWhile is_space t = (c # cs) @ ds"
      by (metis rev_append rev_rev_ident takeWhile_dropWhile_id)
    then have "\<not> is_space c" by (metis append_Cons hd_dropWhile list.distinct(1) list.sel(1))
    then show ?thesis by (simp add: Cons)
  qed (simp only: dropWhile.simps)
  moreover have "dropWhile is_space (dropWhile is_space t) = dropWhile is_space t" for t
    by (induction t) auto
  ultimately show ?thesis by (simp add: trim_eq)
qed

lemma trim_or_true: "trim (or_true (trim v)) = or_true (trim v)"
proof -
  have "trim ''true'' = ''true''" by code_simp
  then show ?thesis by (simp add: or_true_def)
qed

section \<open>What is stored\<close>

text \<open>Everything stored is trimmed, and the options are a map.\<close>

definition tidy :: "cmd_args \<Rightarrow> bool" where
  "tidy r \<longleftrightarrow> smap_ok (options r) \<and> (\<forall>(k, v) \<in> set (options r). trim k = k \<and> trim v = v) \<and>
     (\<forall>a \<in> set (positional r). trim a = a)"

lemma tidy_put: "tidy r \<Longrightarrow> tidy (put k v r)"
  using set_smap_put [of "trim k" "trim v" "options r"]
  by (fastforce simp: tidy_def put_def smap_ok_put)

lemma tidy_step: "tidy r \<Longrightarrow> parse_step arg args r = (r', args') \<Longrightarrow> tidy r'"
proof -
  have flags: "tidy r \<Longrightarrow> tidy (fold (\<lambda>ch. put [ch] ''true'') s r)" for s
    by (induction s arbitrary: r) (simp_all add: tidy_put)
  show "tidy r \<Longrightarrow> parse_step arg args r = (r', args') \<Longrightarrow> tidy r'"
    by (auto simp: parse_step_def long_option_def short_option_def tidy_put flags tidy_def [of "_\<lparr>positional := _\<rparr>"]
        split: if_splits option.splits nat.splits prod.splits) (auto simp: tidy_def)
qed

lemma tidy_loop: "tidy r \<Longrightarrow> tidy (parse_loop args r)"
proof (induction args r rule: parse_loop.induct)
  case (2 arg args r)
  obtain r' args' where "parse_step arg args r = (r', args')" by (cases "parse_step arg args r")
  with 2 tidy_step show ?case by simp
qed simp

section \<open>Reading back\<close>

text \<open>Well-formed options and positional arguments.\<close>

definition plain_key :: "string \<Rightarrow> bool" where
  "plain_key k \<longleftrightarrow> CHR ''='' \<notin> set k \<and> trim k = k"

definition plain_value :: "string \<Rightarrow> bool" where
  "plain_value v \<longleftrightarrow> v \<noteq> [] \<and> trim v = v"

definition plain_positional :: "string \<Rightarrow> bool" where
  "plain_positional a \<longleftrightarrow> \<not> dash a \<and> trim a = a"

definition long_spelling :: "string \<times> string \<Rightarrow> string" where
  "long_spelling kv = ''--'' @ fst kv @ ''='' @ snd kv"

lemma parse_long:
  assumes "plain_key k" and "plain_value v"
  shows "parse_step (long_spelling (k, v)) args r = (put k v r, args)"
proof -
  have f: "find_char CHR ''='' (k @ CHR ''='' # v) = Some (length k)"
    using assms by (simp add: find_char_append plain_key_def)
  show ?thesis
    using assms
    by (simp add: parse_step_def long_spelling_def starts_with_def long_option_def f substr_def or_true_def
        plain_key_def plain_value_def put_def)
qed

lemma parse_positional: "plain_positional a \<Longrightarrow> parse_step a args r = (r\<lparr>positional := positional r @ [a]\<rparr>, args)"
  by (cases a) (auto simp: plain_positional_def dash_def parse_step_def starts_with_def)

lemma put_plain: "plain_key k \<Longrightarrow> plain_value v \<Longrightarrow> put k v r = r\<lparr>options := smap_put k v (options r)\<rparr>"
  by (simp add: put_def plain_key_def plain_value_def)

lemma parse_loop_long:
  "list_all (\<lambda>(k, v). plain_key k \<and> plain_value v) kvs \<Longrightarrow>
     parse_loop (map long_spelling kvs @ args) r =
     parse_loop args (r\<lparr>options := fold (\<lambda>(k, v). smap_put k v) kvs (options r)\<rparr>)"
proof (induction kvs arbitrary: r)
  case (Cons kv kvs)
  then show ?case by (cases kv) (simp add: parse_long put_plain)
qed simp

lemma parse_loop_positional:
  "list_all plain_positional ps \<Longrightarrow> parse_loop ps r = r\<lparr>positional := positional r @ ps\<rparr>"
  by (induction ps arbitrary: r) (simp_all add: parse_positional)

section \<open>Properties\<close>

text \<open>
  The parser returns for every command line, and what it returns is tidy: the options are a map whose
  keys and values are trimmed, and the positional arguments are trimmed.
\<close>

lemma parsed_tidy:
  "smap_ok (options (parse argv)) \<and> list_all (\<lambda>(k, v). trim k = k \<and> trim v = v) (options (parse argv)) \<and>
   list_all (\<lambda>a. trim a = a) (positional (parse argv))"
proof -
  have "tidy \<lparr>options = [], positional = []\<rparr>" by (simp add: tidy_def)
  then have "tidy (parse argv)" unfolding parse_def by (rule tidy_loop)
  then show ?thesis by (auto simp: tidy_def list_all_iff)
qed

text \<open>
  Options written \<open>--key=value\<close>, followed by positional arguments, are read back: each key has the
  value given last, and the positional arguments are there in order. The spellings with a space, and with
  spaces around the equals sign, mean the same for a value that does not begin with a dash.
\<close>

lemma parse_reads_back:
  assumes "list_all (\<lambda>(k, v). plain_key k \<and> plain_value v) kvs" and "list_all plain_positional ps"
    and "plain_key k" and "plain_value v" and "\<not> dash v" and "v \<noteq> ''=''"
  shows "get (parse (prog # map long_spelling kvs @ ps)) key = map_of (rev kvs) key \<and>
    positional (parse (prog # map long_spelling kvs @ ps)) = ps \<and>
    parse (prog # (''--'' @ k) # v # ps) = parse (prog # long_spelling (k, v) # ps) \<and>
    parse (prog # (''--'' @ k) # ''='' # v # ps) = parse (prog # long_spelling (k, v) # ps)"
proof -
  have "find_char CHR ''='' k = None" using assms(3) by (simp add: plain_key_def find_char_None_iff)
  then have "parse_step (''--'' @ k) (v # ps) r = (put k v r, ps)"
    "parse_step (''--'' @ k) (''='' # v # ps) r = (put k v r, ps)" for r
    using assms(3-6)
    by (simp_all add: parse_step_def starts_with_def long_option_def next_value_def plain_key_def)
  then show ?thesis
    by (simp add: parse_def parse_loop_long [OF assms(1)] parse_loop_positional [OF assms(2)] get_def
        parse_long [OF assms(3,4)] flip: smap_of_def) (simp add: smap_get_of)
qed

lemma parse_reads_back_witness:
  "get (parse [''jwt'', ''--out=a.jwt'', ''--name=x'', ''encode'']) ''name'' = Some ''x'' \<and>
   positional (parse [''jwt'', ''--out=a.jwt'', ''--name=x'', ''encode'']) = [''encode''] \<and>
   parse [''jwt'', ''--key'', ''k1'', ''encode''] = parse [''jwt'', ''--key=k1'', ''encode'']"
proof -
  have "list_all (\<lambda>(k, v). plain_key k \<and> plain_value v) [(''out'', ''a.jwt''), (''name'', ''x'')]"
    "list_all plain_positional [''encode'']" "plain_key ''key''" "plain_value ''k1''" "\<not> dash ''k1''"
    by code_simp+
  then show ?thesis
    using parse_reads_back [of "[(''out'', ''a.jwt''), (''name'', ''x'')]" "[''encode'']" "''key''" "''k1''"
        "''jwt''" "''name''"]
    by (simp add: long_spelling_def)
qed

end
