(* ===== verification/ToolMain.thy ===== *)
theory ToolMain
  imports Creds CmdArgs
begin

text \<open>
  The command line tool (\<^verbatim>\<open>src/tools/jwt-main.cpp\<close>): encoding, decoding, verifying and writing a
  credentials file, on a world of files and two output streams. Which paths can be written, the
  indented form of printed JSON and the version of the build are parameters.

  The lemmas follow a token through the tool: what it encodes into a file it verifies from that file.
\<close>

record world =
  files :: "string \<Rightarrow> string option"
  cout :: string
  cerr :: string

record tool_env =
  can_write :: "string \<Rightarrow> bool"
  dump_indented :: "json \<Rightarrow> json_exn + string"
  build_version :: string

section \<open>Files and streams\<close>

definition readFile :: "world \<Rightarrow> string \<Rightarrow> exn + string" where
  "readFile w fname =
     (case files w fname of None \<Rightarrow> Inl (RuntimeError (''Cannot open file: '' @ fname)) | Some s \<Rightarrow> Inr s)"

definition writeFile :: "tool_env \<Rightarrow> string \<Rightarrow> string \<Rightarrow> world \<Rightarrow> exn + world" where
  "writeFile E fname content w =
     (if can_write E fname then Inr (w\<lparr>files := (files w)(fname \<mapsto> content)\<rparr>)
      else Inl (RuntimeError (''Cannot write to file: '' @ fname)))"

definition print :: "string \<Rightarrow> world \<Rightarrow> world" where
  "print s w = w\<lparr>cout := cout w @ s\<rparr>"

definition complain :: "string \<Rightarrow> world \<Rightarrow> world" where
  "complain s w = w\<lparr>cerr := cerr w @ s\<rparr>"

text \<open>\<open>s.erase(0, s.find_first_not_of(blanks)); s.erase(s.find_last_not_of(blanks) + 1);\<close>\<close>

definition strip :: "string \<Rightarrow> string" where
  "strip s =
     (let s1 = (case find_first_not_of s blanks of None \<Rightarrow> [] | Some b \<Rightarrow> drop b s)
      in case find_last_not_of s1 blanks of None \<Rightarrow> [] | Some e \<Rightarrow> take (e + 1) s1)"

section \<open>Commands\<close>

text \<open>A command ends with an exit status, or throws; either way it leaves a world.\<close>

type_synonym command = "world \<Rightarrow> (exn + nat) \<times> world"

definition optional_name :: "cmd_args \<Rightarrow> ('a) base_scheme \<Rightarrow> ('a) base_scheme" where
  "optional_name args c = (case get args ''name'' of None \<Rightarrow> c | Some n \<Rightarrow> setName n c)"

definition required :: "cmd_args \<Rightarrow> string \<Rightarrow> string \<Rightarrow> exn + string" where
  "required args k msg = (case get args k of None \<Rightarrow> Inl (RuntimeError msg) | Some v \<Rightarrow> Inr v)"

definition encode_type :: "lib \<Rightarrow> int64 \<Rightarrow> cmd_args \<Rightarrow> string \<Rightarrow> string \<Rightarrow> string \<Rightarrow> exn + string" where
  "encode_type L now args type seed signing_seed =
     (if type = ''operator''
      then bindE (FromSeed L seed) (\<lambda>kp.
             fst (OperatorClaims_encode L now (optional_name args (OperatorClaims_new (publicString kp))) signing_seed))
      else if type = ''account''
      then bindE (FromSeed L seed) (\<lambda>kp.
             fst (AccountClaims_encode L now (optional_name args (AccountClaims_new (publicString kp))) signing_seed))
      else if type = ''user''
      then bindE (FromSeed L seed) (\<lambda>kp.
             let c = optional_name args (UserClaims_new (publicString kp));
                 c' = (case get args ''issuer-account'' of None \<Rightarrow> c | Some a \<Rightarrow> setIssuerAccount a c)
             in fst (UserClaims_encode L now c' signing_seed))
      else Inl (RuntimeError (''Invalid type: '' @ type @ '' (must be operator, account, or user)'')))"

definition encode_token :: "lib \<Rightarrow> int64 \<Rightarrow> cmd_args \<Rightarrow> world \<Rightarrow> exn + string" where
  "encode_token L now args w =
     bindE (required args ''type'' ''--type required (operator, account, or user)'') (\<lambda>type.
     bindE (required args ''inkey'' ''--inkey <seed_file> required'') (\<lambda>seed_file.
     bindE (readFile w seed_file) (\<lambda>raw.
     let seed = strip raw
     in bindE (case get args ''sign-key'' of
                 None \<Rightarrow> Inr seed
               | Some f \<Rightarrow> bindE (readFile w f) (\<lambda>s. Inr (strip s)))
          (\<lambda>signing_seed. encode_type L now args type seed signing_seed))))"

text \<open>The end of a command: to the terminal, or to the file of \<open>--out\<close> with a note.\<close>

definition deliver :: "tool_env \<Rightarrow> cmd_args \<Rightarrow> string \<Rightarrow> string \<Rightarrow> command" where
  "deliver E args what s w =
     (case get args ''out'' of
        None \<Rightarrow> (Inr 0, print s w)
      | Some fname \<Rightarrow>
          (case writeFile E fname s w of
             Inl e \<Rightarrow> (Inl e, w)
           | Inr w' \<Rightarrow> (Inr 0, complain (what @ '' written to: '' @ fname @ newline) w')))"

definition encodeCommand :: "lib \<Rightarrow> tool_env \<Rightarrow> int64 \<Rightarrow> cmd_args \<Rightarrow> command" where
  "encodeCommand L E now args w =
     (case encode_token L now args w of
        Inl e \<Rightarrow> (Inl e, w)
      | Inr token \<Rightarrow> deliver E args ''JWT'' (token @ newline) w)"

text \<open>The text \<open>decodeCommand\<close> and \<open>verifyCommand\<close> work on: a file's, or the argument itself.\<close>

definition input_text :: "cmd_args \<Rightarrow> string \<Rightarrow> world \<Rightarrow> exn + string" where
  "input_text args opt w =
     bindE (case get args opt of
              Some v \<Rightarrow>
                (if v \<noteq> ''true'' then Inr v
                 else case positional args of
                        [] \<Rightarrow> Inl (RuntimeError ''JWT string or file required'') | p # _ \<Rightarrow> Inr p)
            | None \<Rightarrow>
                (case positional args of
                   [] \<Rightarrow> Inl (RuntimeError ''JWT string or file required'') | p # _ \<Rightarrow> Inr p))
       (\<lambda>t. Inr (case readFile w t of Inl _ \<Rightarrow> t | Inr s \<Rightarrow> strip s))"

definition shown_claims :: "base \<Rightarrow> json" where
  "shown_claims c =
     (let o1 = smap_put ''issuer'' (JString (issuer c)) (smap_put ''subject'' (JString (subject c)) []);
          o2 = setIf (name c \<noteq> None) ''name'' (JString (the (name c))) o1;
          o3 = smap_put ''issuedAt'' (JInteger (issuedAt c)) o2
      in JObject (setIf (0 < sint (expires c)) ''expires'' (JInteger (expires c)) o3))"

definition decodeCommand :: "lib \<Rightarrow> tool_env \<Rightarrow> cmd_args \<Rightarrow> command" where
  "decodeCommand L E args w =
     (case bindE (input_text args ''decode'' w) (\<lambda>t. bindE (decode L t) (\<lambda>c.
             let j = shown_claims (any_base c)
             in case (if get args ''compact'' = Some ''true'' then json_dump L j else dump_indented E j) of
                  Inl e \<Rightarrow> Inl (JsonException e) | Inr s \<Rightarrow> Inr s)) of
        Inl e \<Rightarrow> (Inl e, w)
      | Inr s \<Rightarrow> (Inr 0, print (s @ newline) w))"

definition tick :: string where
  "tick = [CHR 0xE2, CHR 0x9C, CHR 0x93]"

definition cross :: string where
  "cross = [CHR 0xE2, CHR 0x9C, CHR 0x97]"

definition verifyCommand :: "lib \<Rightarrow> cmd_args \<Rightarrow> command" where
  "verifyCommand L args w =
     (case input_text args ''verify'' w of
        Inl e \<Rightarrow> (Inl e, w)
      | Inr t \<Rightarrow>
          if verify L t then (Inr 0, print (tick @ '' Signature valid'' @ newline) w)
          else (Inr 1, complain (cross @ '' Signature invalid'' @ newline) w))"

definition generateCredsCommand :: "lib \<Rightarrow> tool_env \<Rightarrow> cmd_args \<Rightarrow> command" where
  "generateCredsCommand L E args w =
     (case bindE (case positional args of
                    [] \<Rightarrow> Inl (RuntimeError ''JWT file required as positional argument'')
                  | p # _ \<Rightarrow> Inr p) (\<lambda>jwt_file.
           bindE (readFile w jwt_file) (\<lambda>raw.
           bindE (required args ''inkey'' ''--inkey <user_seed_file> required'') (\<lambda>seed_file.
           bindE (readFile w seed_file) (\<lambda>seed.
             formatUserConfig L (strip raw) (strip seed))))) of
        Inl e \<Rightarrow> (Inl e, w)
      | Inr creds \<Rightarrow> deliver E args ''Credentials'' creds w)"

section \<open>The program\<close>

definition usage_lines :: "string list" where
  "usage_lines =
     [''jwt++ - NATS JWT utility'', [],
      ''Usage: jwt++ [command] [options]'', [],
      ''Commands:'',
      ''    --encode              Mint a JWT from --type/--inkey/--sign-key/--name'',
      ''    --decode              Decode and display JWT'',
      ''    --verify              Verify JWT signature'',
      ''    --generate-creds      Generate user credentials file'', [],
      ''Options:'',
      ''    --version, -v         Show version'',
      ''    --help, -h            Show this help'',
      ''    --type <type>         Claim type: operator, account, user (for encode)'',
      ''    --inkey <file>        Input seed/key file (subject for encode)'',
      ''    --sign-key <file>     Signing seed file; the JWT's issuer is DERIVED from'',
      ''                          it (defaults to --inkey: self-signed)'',
      ''    --name <name>         Claim name (for encode)'',
      ''    --issuer-account <k>  issuer_account for users issued by a signing key'',
      ''    --out <file>          Output file (default: stdout)'',
      ''    --compact             Compact JSON output (for decode)'', [],
      ''Examples:'',
      ''    # Encode operator JWT (self-signed)'',
      ''    jwt++ --encode --type operator --inkey operator.seed'', [],
      ''    # Encode account JWT (signed by operator; issuer derived from sign-key)'',
      ''    jwt++ --encode --type account --inkey account.seed --sign-key operator.seed'', [],
      ''    # Encode user JWT (signed by account)'',
      ''    jwt++ --encode --type user --inkey user.seed --sign-key account.seed'', [],
      ''    # Decode JWT'',
      ''    jwt++ --decode operator.jwt'', [],
      ''    # Verify JWT signature'',
      ''    jwt++ --verify operator.jwt'', [],
      ''    # Generate user credentials file'',
      ''    jwt++ --generate-creds --inkey user.seed user.jwt'']"

definition printUsage :: "world \<Rightarrow> world" where
  "printUsage = complain (concat (map (\<lambda>l. l @ newline) usage_lines))"

definition run :: "lib \<Rightarrow> tool_env \<Rightarrow> int64 \<Rightarrow> string list \<Rightarrow> command" where
  "run L E now argv w =
     (let args = parse argv; has = (\<lambda>k. get args k \<noteq> None)
      in if has ''version'' \<or> has ''v''
         then (Inr 0, print (''jwt++ version '' @ build_version E @ newline) w)
         else if has ''help'' \<or> has ''h'' \<or> length argv = 1 then (Inr 0, printUsage w)
         else if has ''encode'' then encodeCommand L E now args w
         else if has ''decode'' then decodeCommand L E args w
         else if has ''verify'' then verifyCommand L args w
         else if has ''generate-creds'' then generateCredsCommand L E args w
         else (Inr 1, complain (''No command specified. Use --help for usage.'' @ newline) w))"

definition main :: "lib \<Rightarrow> tool_env \<Rightarrow> int64 \<Rightarrow> string list \<Rightarrow> command" where
  "main L E now argv w =
     (case run L E now argv w of
        (Inr status, w') \<Rightarrow> (Inr status, w')
      | (Inl e, w') \<Rightarrow>
          if is_cpp_exception e then (Inr 1, complain (''Error: '' @ exn_what L e @ newline) w')
          else (Inl e, w'))"

section \<open>Stripping a line\<close>

lemma find_first_not_of_set: "s \<noteq> [] \<Longrightarrow> set s \<inter> set cs = {} \<Longrightarrow> find_first_not_of s cs = Some 0"
  by (cases s) auto

lemma strip_line:
  assumes "t \<noteq> []" and "set t \<inter> set blanks = {}"
  shows "strip (t @ newline) = t"
proof -
  have "find_first_not_of (t @ newline) blanks = Some 0"
    using assms by (cases t) auto
  moreover have "CHR 0x0A \<in> set blanks" by (simp add: blanks_def)
  then have "find_first_not_of (rev (t @ newline)) blanks = Some 1"
    using find_first_not_of_set [of "rev t" blanks] assms by (simp add: newline_def)
  then have "find_last_not_of (t @ newline) blanks = Some (length t - 1)"
    by (simp add: find_last_not_of_def newline_def)
  ultimately show ?thesis using assms(1) by (cases t rule: rev_cases) (simp_all add: strip_def Let_def)
qed

lemma verified_text:
  assumes "verify L t"
  shows "t \<noteq> []" and "set t \<inter> set blanks = {}"
proof -
  from assms obtain env where "decodeEnvelope L t = Inr env" by (auto simp: verify_def split: sum.splits)
  then obtain h p s alg obj where w: "wire L t h p s alg obj" and a: "authentic L (version env) h p s obj"
    unfolding decodeEnvelope_Inr_iff by blast
  from a obtain iss m where "verifySignature L iss m s" unfolding authentic_def by blast
  then obtain d where "base64url_decode s = Inr d" by (auto simp: verifySignature_def split: sum.splits)
  with w have "set h \<subseteq> set alphabet" "set p \<subseteq> set alphabet" "set s \<subseteq> set alphabet"
    using decode_accepts_iff [of h] decode_accepts_iff [of p] decode_accepts_iff [of s]
    unfolding wire_def by blast+
  moreover have t: "t = h @ ''.'' @ p @ ''.'' @ s" using w by (simp add: wire_def token_of_def)
  moreover have "set alphabet \<inter> set blanks = {}" "CHR ''.'' \<notin> set blanks"
    by (simp_all add: alphabet_def blanks_def)
  ultimately show "set t \<inter> set blanks = {}" by auto
  show "t \<noteq> []" by (simp add: t)
qed

section \<open>Command lines\<close>

lemma get_put: "get (put k v r) l = (if l = trim k then Some (trim v) else get r l)"
  by (simp add: get_def put_def)

lemma parse_flag:
  "plain_key k \<Longrightarrow> args = [] \<or> dash (hd args) \<Longrightarrow> parse_step (''--'' @ k) args r = (put k ''true'' r, args)"
proof -
  assume "plain_key k" and args: "args = [] \<or> dash (hd args)"
  then have k: "trim k = k" "find_char CHR ''='' k = None" by (simp_all add: plain_key_def find_char_None_iff)
  have "next_value args = (''true'', args)"
    using args by (auto simp: next_value_def dash_def split: list.splits)
  then show ?thesis by (simp add: parse_step_def starts_with_def long_option_def k)
qed

lemma parse_value:
  "plain_key k \<Longrightarrow> \<not> dash v \<Longrightarrow> v \<noteq> ''='' \<Longrightarrow> parse_step (''--'' @ k) (v # args) r = (put k v r, args)"
  by (simp add: parse_step_def starts_with_def long_option_def next_value_def plain_key_def find_char_None_iff
      iffD2 [OF find_char_None_iff])

text \<open>A file name the parser keeps as it is.\<close>

definition plain_file :: "string \<Rightarrow> bool" where
  "plain_file f \<longleftrightarrow> \<not> dash f \<and> f \<noteq> ''='' \<and> f \<noteq> ''true'' \<and> trim f = f"

definition encode_line :: "string \<Rightarrow> string \<Rightarrow> string \<Rightarrow> string list" where
  "encode_line prog key_file out_file =
     [prog, ''--encode'', ''--type'', ''operator'', ''--inkey'', key_file, ''--out'', out_file]"

definition verify_line :: "string \<Rightarrow> string \<Rightarrow> string list" where
  "verify_line prog file = [prog, ''--verify'', file]"

lemma plain_keys:
  "plain_key ''encode''" "plain_key ''type''" "plain_key ''inkey''" "plain_key ''out''" "plain_key ''verify''"
  "trim ''encode'' = ''encode''" "trim ''type'' = ''type''" "trim ''inkey'' = ''inkey''" "trim ''out'' = ''out''"
  "trim ''verify'' = ''verify''" "trim ''true'' = ''true''" "trim ''operator'' = ''operator''"
  by code_simp+

lemma encode_line_options:
  assumes "plain_file k" and "plain_file o'"
  shows "get (parse (encode_line prog k o')) l =
    (if l = ''out'' then Some o' else if l = ''inkey'' then Some k else if l = ''type'' then Some ''operator''
     else if l = ''encode'' then Some ''true'' else None)"
proof -
  let ?r = "\<lparr>options = [], positional = []\<rparr> :: cmd_args"
  have s1: "parse_step ''--encode'' [''--type'', ''operator'', ''--inkey'', k, ''--out'', o'] r =
      (put ''encode'' ''true'' r, [''--type'', ''operator'', ''--inkey'', k, ''--out'', o'])" for r
    using parse_flag [OF plain_keys(1)] by (simp add: dash_def)
  have s2: "parse_step ''--type'' (''operator'' # args) r = (put ''type'' ''operator'' r, args)" for r args
    using parse_value [OF plain_keys(2)] by (simp add: dash_def)
  have s3: "parse_step ''--inkey'' (k # args) r = (put ''inkey'' k r, args)" for r args
    using parse_value [OF plain_keys(3)] assms(1) by (simp add: plain_file_def)
  have s4: "parse_step ''--out'' (o' # args) r = (put ''out'' o' r, args)" for r args
    using parse_value [OF plain_keys(4)] assms(2) by (simp add: plain_file_def)
  have "parse (encode_line prog k o') =
      put ''out'' o' (put ''inkey'' k (put ''type'' ''operator'' (put ''encode'' ''true'' ?r)))"
    by (simp add: parse_def encode_line_def s1 s2 s3 s4)
  then show ?thesis
    using assms by (simp add: get_put plain_keys plain_file_def) (simp add: get_def)
qed

lemma verify_line_options:
  assumes "plain_file f"
  shows "get (parse (verify_line prog f)) l = (if l = ''verify'' then Some f else None)"
proof -
  have "parse_step ''--verify'' (f # args) r = (put ''verify'' f r, args)" for r args
    using parse_value [OF plain_keys(5)] assms by (simp add: plain_file_def)
  then have "parse (verify_line prog f) = put ''verify'' f \<lparr>options = [], positional = []\<rparr>"
    by (simp add: parse_def verify_line_def)
  then show ?thesis using assms by (simp add: get_put plain_keys plain_file_def) (simp add: get_def)
qed

section \<open>What a run leaves behind\<close>

text \<open>
  A command that throws, or ends with status 1, has written nothing but a complaint; one that ends with
  status 0 has written at most the file of \<open>--out\<close>.
\<close>

definition outcome_ok :: "tool_env \<Rightarrow> cmd_args \<Rightarrow> world \<Rightarrow> (exn + nat) \<times> world \<Rightarrow> bool" where
  "outcome_ok E args w r =
     (case r of
        (Inl e, w') \<Rightarrow> w' = w
      | (Inr status, w') \<Rightarrow>
          (\<exists>msg. cerr w' = cerr w @ msg) \<and>
          (if status = 0
           then files w' = files w \<or>
             (\<exists>fname s. get args ''out'' = Some fname \<and> can_write E fname \<and> files w' = (files w)(fname \<mapsto> s) \<and>
                cout w' = cout w)
           else status = 1 \<and> files w' = files w \<and> cout w' = cout w \<and> cerr w' \<noteq> cerr w))"

lemma outcome_threw [simp]: "outcome_ok E args w (Inl e, w)"
  by (simp add: outcome_ok_def)

lemma outcome_printed [simp]: "outcome_ok E args w (Inr 0, print s w)"
  by (simp add: outcome_ok_def print_def)

lemma outcome_complained [simp]: "s \<noteq> [] \<Longrightarrow> outcome_ok E args w (Inr 1, complain s w)"
  by (simp add: outcome_ok_def complain_def)

lemma outcome_delivered [simp]: "outcome_ok E args w (deliver E args what s w)"
  by (auto simp: deliver_def writeFile_def outcome_ok_def complain_def print_def split: option.splits)

lemma command_outcomes:
  "outcome_ok E args w (encodeCommand L E now args w)" "outcome_ok E args w (decodeCommand L E args w)"
  "outcome_ok E args w (verifyCommand L args w)" "outcome_ok E args w (generateCredsCommand L E args w)"
  by (simp_all only: encodeCommand_def decodeCommand_def verifyCommand_def generateCredsCommand_def split: sum.split)
     (simp_all add: cross_def del: One_nat_def)

lemma run_outcome: "outcome_ok E (parse argv) w (run L E now argv w)"
proof -
  have "outcome_ok E args w (Inr 0, printUsage w)" for args
    by (simp add: outcome_ok_def printUsage_def complain_def)
  then show ?thesis
    by (simp add: run_def Let_def command_outcomes del: One_nat_def)
qed

section \<open>Properties\<close>

text \<open>
  C36: How a run of the tool ends, for every command line. Nothing but undefined behaviour escapes \<open>main\<close>;
  the exit status is 0 or 1. Status 1 comes with a message on the error stream, and then no file was
  written and nothing printed; with status 0 at most the file of \<open>--out\<close> was written, and only what was
  not written there is on the terminal.
\<close>

theorem tool_outcome:
  "case main L E now argv w of
     (Inl e, w') \<Rightarrow> is_cpp_exception e = False \<and> w' = w
   | (Inr status, w') \<Rightarrow>
       (\<exists>msg. cerr w' = cerr w @ msg) \<and>
       (if status = 0
        then files w' = files w \<or>
          (\<exists>fname s. get (parse argv) ''out'' = Some fname \<and> can_write E fname \<and>
             files w' = (files w)(fname \<mapsto> s) \<and> cout w' = cout w)
        else status = 1 \<and> files w' = files w \<and> cout w' = cout w \<and> cerr w' \<noteq> cerr w)"
proof (cases "run L E now argv w")
  case (Pair r w')
  note ok = run_outcome [of E argv w L now, unfolded Pair]
  show ?thesis
  proof (cases r)
    case (Inl e)
    with ok have "w' = w" by (simp add: outcome_ok_def)
    then show ?thesis by (simp add: main_def Pair Inl complain_def)
  next
    case (Inr status)
    show ?thesis using ok unfolding main_def Pair outcome_ok_def Inr sum.case prod.case .
  qed
qed

text \<open>
  C35: From key file to verified token. When the tool ends with status 0 after encoding a self-signed
  operator from the seed in a file, the output file holds the token and a line end, every other file is
  as before, and running the tool again to verify that file ends with status 0 and says so, whatever
  the time.
\<close>

theorem tool_encode_verify:
  assumes "main L E now (encode_line prog key_file out_file) w = (Inr 0, w')"
    and "plain_file key_file" and "plain_file out_file"
    and "files w key_file = Some raw" and "FromSeed L (strip raw) = Inr kp"
    and "lib_ok L" and "json_faithful L header_json"
    and "json_faithful L (OperatorClaims_printed L
      ((OperatorClaims_new (publicString kp))\<lparr>issuer := publicString kp, issuedAt := now\<rparr>))"
    and "length (the (files w' out_file)) \<le> MAX_JWT_SIZE"
  shows "(\<exists>token. files w' = (files w)(out_file \<mapsto> token @ newline) \<and> verify L token) \<and>
    main L E now' (verify_line prog out_file) w' = (Inr 0, print (tick @ '' Signature valid'' @ newline) w')"
proof -
  let ?c = "OperatorClaims_new (publicString kp)"
  let ?args = "parse (encode_line prog key_file out_file)"
  note opts = encode_line_options [OF assms(2,3), of prog]
  have len: "length (encode_line prog key_file out_file) \<noteq> 1" by (simp add: encode_line_def)
  have run: "run L E now (encode_line prog key_file out_file) w = encodeCommand L E now ?args w"
    unfolding run_def Let_def opts using len by simp
  have token: "encode_token L now ?args w = fst (OperatorClaims_encode L now ?c (strip raw))"
    by (simp add: encode_token_def required_def opts readFile_def assms(4,5) encode_type_def optional_name_def Let_def)
  have out: "get ?args ''out'' = Some out_file" by (simp add: opts)
  obtain t where t: "encode_token L now ?args w = Inr t"
    and w': "files w' = (files w)(out_file \<mapsto> t @ newline)"
    using assms(1) unfolding main_def run encodeCommand_def deliver_def out option.case writeFile_def
    by (cases "encode_token L now ?args w"; cases "can_write E out_file")
       (auto simp: complain_def split: if_splits)
  have "fst (OperatorClaims_encodeWithSigner L now ?c (publicString kp) (signerFor kp)) = Inr t"
    using t by (simp add: token OperatorClaims_encode_def assms(5))
  then obtain c' where enc: "OperatorClaims_encodeWithSigner L now ?c (publicString kp) (signerFor kp) = (Inr t, c')"
    by (metis prod.collapse)
  have "c' = ?c\<lparr>issuer := publicString kp, issuedAt := now\<rparr>"
    by (rule OperatorClaims_encode_Inr(1) [OF enc])
  moreover have "length t \<le> MAX_JWT_SIZE" using assms(9) w' by simp
  ultimately have "\<exists>env. decodeEnvelope L t = Inr env"
    using operator_class.encoded_opens [OF enc assms(6,7)] assms(8) by blast
  then have v: "verify L t" by (auto simp: verify_def)
  have "readFile w' out_file = Inr (t @ newline)" by (simp add: readFile_def w')
  moreover have "out_file \<noteq> ''true''" using assms(3) by (simp add: plain_file_def)
  ultimately have "input_text (parse (verify_line prog out_file)) ''verify'' w' = Inr t"
    using strip_line [OF verified_text [OF v]] by (simp add: input_text_def verify_line_options [OF assms(3)])
  moreover have "length (verify_line prog out_file) \<noteq> 1" by (simp add: verify_line_def)
  ultimately have "main L E now' (verify_line prog out_file) w' =
      (Inr 0, print (tick @ '' Signature valid'' @ newline) w')"
    by (simp add: main_def run_def Let_def verify_line_options [OF assms(3)] verifyCommand_def v)
  with v w' show ?thesis by blast
qed

definition demo_env :: tool_env where
  "demo_env = \<lparr>can_write = \<lambda>_. True, dump_indented = \<lambda>_. Inr [], build_version = ''1''\<rparr>"

definition demo_world :: world where
  "demo_world = \<lparr>files = [''k.seed'' \<mapsto> ''SO1'' @ newline], cout = [], cerr = []\<rparr>"

definition demo_after :: world where
  "demo_after = complain (''JWT written to: o.jwt'' @ newline)
     (demo_world\<lparr>files := (files demo_world)(''o.jwt'' \<mapsto> demo_token ''O1'' @ newline)\<rparr>)"

lemma demo_strip: "strip (''SO1'' @ newline) = ''SO1''"
  by (rule strip_line) (simp_all add: blanks_def)

lemma demo_strip' [simp]: "strip (CHR ''S'' # CHR ''O'' # CHR ''1'' # newline) = ''SO1''"
  using demo_strip by simp

lemma demo_tool_encodes:
  "main demo_chain_lib demo_env 5 (encode_line ''jwt'' ''k.seed'' ''o.jwt'') demo_world = (Inr 0, demo_after)"
proof -
  have plain: "plain_file ''k.seed''" "plain_file ''o.jwt''" by code_simp+
  note opts = encode_line_options [OF plain, of "''jwt''"]
  have seed: "FromSeed demo_chain_lib ''SO1'' = Inr (demo_pair ''O1'')" "publicString (demo_pair ''O1'') = ''O1''"
    by (simp_all add: demo_chain_lib_def demo_lib_def demo_pair_def)
  have "OperatorClaims_encodeWithSigner demo_chain_lib 5 (OperatorClaims_new ''O1'') ''O1'' (signerFor (demo_pair ''O1'')) =
      (Inr (demo_token ''O1''), demo_operator_stamped)"
    using demo_operator_encodes unfolding demo_chain_lib_def demo_operator_def .
  then have "encode_token demo_chain_lib 5 (parse (encode_line ''jwt'' ''k.seed'' ''o.jwt'')) demo_world =
      Inr (demo_token ''O1'')"
    by (simp add: encode_token_def required_def opts readFile_def demo_world_def encode_type_def
        optional_name_def OperatorClaims_encode_def seed Let_def)
  moreover have "length (encode_line ''jwt'' ''k.seed'' ''o.jwt'') \<noteq> 1" by (simp add: encode_line_def)
  ultimately show ?thesis
    by (simp add: main_def run_def Let_def opts encodeCommand_def deliver_def writeFile_def demo_env_def demo_after_def)
qed

lemma tool_encode_verify_witness:
  "main demo_chain_lib demo_env 9 (verify_line ''jwt'' ''o.jwt'') demo_after =
     (Inr 0, print (tick @ '' Signature valid'' @ newline) demo_after)"
proof -
  have plain: "plain_file ''k.seed''" "plain_file ''o.jwt''" by code_simp+
  have kp: "FromSeed demo_chain_lib (strip (''SO1'' @ newline)) = Inr (demo_pair ''O1'')"
    "publicString (demo_pair ''O1'') = ''O1''"
    unfolding demo_strip by (simp_all add: demo_chain_lib_def demo_lib_def demo_pair_def)
  have key_file: "files demo_world ''k.seed'' = Some (''SO1'' @ newline)" by (simp add: demo_world_def)
  have "json_faithful demo_chain_lib (OperatorClaims_printed demo_chain_lib demo_operator_stamped)"
    unfolding OperatorClaims_printed_def demo_chain_lib_def demo_wirePayload by (rule demo_faithful)
  then have "json_faithful demo_chain_lib (OperatorClaims_printed demo_chain_lib
      ((OperatorClaims_new (publicString (demo_pair ''O1'')))\<lparr>issuer := publicString (demo_pair ''O1''), issuedAt := 5\<rparr>))"
    by (simp add: kp demo_operator_stamped_def demo_operator_def)
  moreover have "length (the (files demo_after ''o.jwt'')) \<le> MAX_JWT_SIZE"
    by (simp add: demo_after_def complain_def newline_def demo_token_def Let_def encode_length demo_sig_def
        MAX_JWT_SIZE_def)
  moreover have "lib_ok demo_chain_lib" "json_faithful demo_chain_lib header_json"
    unfolding demo_chain_lib_def by (rule demo_lib_ok demo_header)+
  ultimately show ?thesis
    using tool_encode_verify [OF demo_tool_encodes plain key_file kp(1)] by blast
qed

end
