(* ===== verification/AccountAccepts.thy ===== *)
theory AccountAccepts
  imports AccountProps
begin

text \<open>
  Which accounts pass their own checks, in closed form (the checks are those of
  \<^verbatim>\<open>src/account_claims.cpp\<close>, modelled in \<open>AccountChecks\<close> and \<open>AccountClaims\<close>). The conditions do not
  depend on the clock nor on the order of exports, imports and keys, so an account that was accepted when
  it was encoded is accepted again, at any time, in the form in which it is decoded.
\<close>

section \<open>Two different positions of a list\<close>

definition two_of :: "'a list \<Rightarrow> 'a \<Rightarrow> 'a \<Rightarrow> bool" where
  "two_of xs x y \<longleftrightarrow> x \<in> set xs \<and> y \<in> set (remove1 x xs)"

lemma two_of_Cons: "two_of (a # xs) x y \<longleftrightarrow> x = a \<and> y \<in> set xs \<or> y = a \<and> x \<in> set xs \<or> two_of xs x y"
  by (auto simp: two_of_def dest: set_remove1_subset [THEN subsetD])

lemma two_of_perm: "mset xs = mset ys \<Longrightarrow> two_of xs x y \<longleftrightarrow> two_of ys x y"
  unfolding two_of_def by (metis mset_remove1 set_mset_mset)

text \<open>A symmetric relation between all pairs of a list does not depend on its order.\<close>

lemma sorted_wrt_two_of:
  assumes "\<And>x y. R x y \<Longrightarrow> R y x"
  shows "sorted_wrt R xs \<longleftrightarrow> (\<forall>x y. two_of xs x y \<longrightarrow> R x y)"
proof (induction xs)
  case Nil
  then show ?case by (simp add: two_of_def)
next
  case (Cons a xs)
  then show ?case unfolding two_of_Cons using assms by auto
qed

lemma sorted_wrt_perm:
  assumes "\<And>x y. R x y \<Longrightarrow> R y x" and "mset xs = mset ys"
  shows "sorted_wrt R xs \<longleftrightarrow> sorted_wrt R ys"
proof -
  have "sorted_wrt R zs \<longleftrightarrow> (\<forall>x y. two_of zs x y \<longrightarrow> R x y)" for zs
    by (rule sorted_wrt_two_of) (rule assms(1))
  then show ?thesis by (simp add: two_of_perm [OF assms(2)])
qed

section \<open>Exports\<close>

definition apart :: "string \<Rightarrow> string \<Rightarrow> bool" where
  "apart s t \<longleftrightarrow> \<not> subjectIsContainedIn s t \<and> \<not> subjectIsContainedIn t s"

lemma apart_sym: "apart s t \<Longrightarrow> apart t s"
  by (simp add: apart_def)

lemma containers_empty: "containers subjs = {} \<longleftrightarrow> sorted_wrt apart subjs"
proof -
  have "containers subjs = {} \<longleftrightarrow> (\<forall>i < length subjs. \<forall>j < length subjs.
      i \<noteq> j \<longrightarrow> \<not> subjectIsContainedIn (subjs ! i) (subjs ! j))"
    by (auto simp: containers_def overlaps_at_def)
  also have "\<dots> \<longleftrightarrow> (\<forall>i j. i < j \<longrightarrow> j < length subjs \<longrightarrow> apart (subjs ! i) (subjs ! j))"
  proof (intro iffI allI impI)
    fix i j
    assume *: "\<forall>i j. i < j \<longrightarrow> j < length subjs \<longrightarrow> apart (subjs ! i) (subjs ! j)"
      and "i < length subjs" "j < length subjs" "i \<noteq> j"
    then have "apart (subjs ! i) (subjs ! j)"
      using apart_sym by (cases i j rule: linorder_cases) auto
    then show "\<not> subjectIsContainedIn (subjs ! i) (subjs ! j)" by (simp add: apart_def)
  qed (auto simp: apart_def)
  also have "\<dots> \<longleftrightarrow> sorted_wrt apart subjs" by (simp add: sorted_wrt_iff_nth_less)
  finally show ?thesis .
qed

definition exports_ok :: "Export list \<Rightarrow> bool" where
  "exports_ok exs \<longleftrightarrow>
     list_all (\<lambda>e. \<not> isBlocking (check_export e []) False) exs \<and>
     sorted_wrt apart (map e_subject (filter (\<lambda>e. e_type e = Service) exs)) \<and>
     sorted_wrt apart (map e_subject (filter (\<lambda>e. e_type e \<noteq> Service) exs))"

lemma overlaps_blocking: "isBlocking (overlaps kind subjs []) False \<longleftrightarrow> \<not> sorted_wrt apart subjs"
  unfolding containers_empty [symmetric] overlap_keys [symmetric]
  by (cases "overlap_map subjs") (auto simp: overlaps_errors)

lemma validateExports_blocking:
  "isBlocking (validateExports exs vr) False \<longleftrightarrow> isBlocking vr False \<or> \<not> exports_ok exs"
  using appending_fold_blocking [where g = check_export and xs = exs and inc = False, OF appending_check_export]
    appending_blocking [OF appending_overlaps]
  unfolding validateExports_eq exports_ok_def list_all_iff by (metis overlaps_blocking)

section \<open>Imports\<close>

definition clash :: "string \<Rightarrow> string \<Rightarrow> bool" where
  "clash s t \<longleftrightarrow> s = t \<or> \<not> apart s t"

text \<open>Two service imports of one account must not overlap.\<close>

definition no_overlap :: "Import \<Rightarrow> Import \<Rightarrow> bool" where
  "no_overlap i j \<longleftrightarrow> i_account i \<noteq> i_account j \<or> \<not> clash (service_subject i) (service_subject j)"

definition import_check :: "lib \<Rightarrow> int64 \<Rightarrow> string \<Rightarrow> Import \<Rightarrow> results \<Rightarrow> exn + results" where
  "import_check L now acct i vr = bindE (check_import i vr) (check_token L now acct i)"

definition imports_ok :: "lib \<Rightarrow> int64 \<Rightarrow> string \<Rightarrow> Import list \<Rightarrow> bool" where
  "imports_ok L now acct ims \<longleftrightarrow>
     list_all (\<lambda>i. accepts (import_check L now acct i)) ims \<and>
     sorted_wrt no_overlap (filter (\<lambda>i. i_type i = Service) ims)"

definition seen_of :: "string list smap \<Rightarrow> string \<Rightarrow> string list" where
  "seen_of m a = (case smap_get m a of None \<Rightarrow> [] | Some ss \<Rightarrow> ss)"

lemma service_overlap_blocking:
  assumes "service_overlap i (m, []) = (m', is)"
  shows "isBlocking is False \<longleftrightarrow> (\<exists>t \<in> set (seen_of m (i_account i)). clash (service_subject i) t)"
    and "set (seen_of m' a) = set (seen_of m a) \<union> (if a = i_account i then {service_subject i} else {})"
proof -
  let ?s = "service_subject i"
  let ?f = "\<lambda>other. error_if (subjectIsContainedIn ?s other \<or> subjectIsContainedIn other ?s)
      (''overlapping subject namespace for '' @ quoted ?s @ '' and '' @ quoted other @
       '' in same account '' @ quoted (i_account i))"
  have run: "isBlocking (fold ?f seen []) False \<longleftrightarrow> (\<exists>t \<in> set seen. \<not> apart ?s t)" for seen
    using appending_fold_blocking [where g = ?f and xs = seen and inc = False and vr = "[]", OF appending_error_when]
    by (simp add: error_if_blocking apart_def)
  show "isBlocking is False \<longleftrightarrow> (\<exists>t \<in> set (seen_of m (i_account i)). clash ?s t)"
    using assms run [of "seen_of m (i_account i)"]
    by (auto simp: service_overlap_def Let_def seen_of_def [symmetric] clash_def error_if_blocking split: if_splits)
  show "set (seen_of m' a) = set (seen_of m a) \<union> (if a = i_account i then {?s} else {})"
    using assms by (auto simp: service_overlap_def Let_def seen_of_def split: if_splits option.splits)
qed

lemma appendingE_import_check: "appendingE (import_check L now acct i)"
  unfolding import_check_def by (intro appendingE_bind appendingE_check_import appendingE_check_token)

lemma import_step_accepts:
  assumes "(if i_type i = Service then service_overlap i (m, []) else (m, [])) = (m', is)"
  shows "import_step L now acct (m, []) i = Inr (m'', vr) \<and> \<not> isBlocking vr False \<longleftrightarrow>
    m'' = m' \<and> import_check L now acct i is = Inr vr \<and> \<not> isBlocking vr False"
  by (auto simp: import_step_def assms import_check_def bindE_Inr_iff)

lemma import_loop_accepts:
  "(\<exists>m' vr. foldE (import_step L now acct) (m, []) ims = Inr (m', vr) \<and> \<not> isBlocking vr False) \<longleftrightarrow>
     imports_ok L now acct ims \<and>
     (\<forall>i \<in> set ims. i_type i = Service \<longrightarrow>
        (\<forall>t \<in> set (seen_of m (i_account i)). \<not> clash (service_subject i) t))"
proof (induction ims arbitrary: m)
  case Nil
  then show ?case by (simp add: imports_ok_def)
next
  case (Cons i ims)
  obtain m1 is1 where st: "(if i_type i = Service then service_overlap i (m, []) else (m, [])) = (m1, is1)"
    by (metis prod.exhaust)
  have blk: "isBlocking is1 False \<longleftrightarrow>
      i_type i = Service \<and> (\<exists>t \<in> set (seen_of m (i_account i)). clash (service_subject i) t)"
    and seen: "set (seen_of m1 a) = set (seen_of m a) \<union>
      (if i_type i = Service \<and> a = i_account i then {service_subject i} else {})" for a
    using service_overlap_blocking [of i m m1 is1] st by (auto split: if_splits)
  have loop: "(\<exists>m' vr. foldE (import_step L now acct) (m, []) (i # ims) = Inr (m', vr) \<and> \<not> isBlocking vr False) \<longleftrightarrow>
      (\<exists>vr1. import_check L now acct i is1 = Inr vr1 \<and> \<not> isBlocking vr1 False) \<and>
      (\<exists>m' vr. foldE (import_step L now acct) (m1, []) ims = Inr (m', vr) \<and> \<not> isBlocking vr False)"
    (is "?l \<longleftrightarrow> ?a \<and> ?b")
  proof -
    have "?l \<longleftrightarrow> (\<exists>vr1. import_step L now acct (m, []) i = Inr (m1, vr1) \<and> \<not> isBlocking vr1 False) \<and> ?b"
    proof (cases "import_step L now acct (m, []) i")
      case (Inr s)
      obtain m2 vr1 where s: "s = (m2, vr1)" by (cases s)
      have "m2 = m1" using Inr st by (auto simp: s import_step_def bindE_Inr_iff split: prod.splits)
      then show ?thesis
        using import_loop_appends [of L now acct m1 vr1 ims] by (auto simp: Inr s split: sum.splits prod.splits)
    qed simp
    then show ?thesis using import_step_accepts [OF st] by auto
  qed
  have "?case \<longleftrightarrow> \<not> isBlocking is1 False \<and> accepts (import_check L now acct i) \<and>
      imports_ok L now acct ims \<and> (\<forall>j \<in> set ims. i_type j = Service \<longrightarrow>
        (\<forall>t \<in> set (seen_of m1 (i_account j)). \<not> clash (service_subject j) t)) \<longleftrightarrow>
      imports_ok L now acct (i # ims) \<and> (\<forall>j \<in> set (i # ims). i_type j = Service \<longrightarrow>
        (\<forall>t \<in> set (seen_of m (i_account j)). \<not> clash (service_subject j) t))"
    unfolding loop Cons.IH appendingE_accepts [OF appendingE_import_check] by blast
  also have "\<dots>"
  proof -
    have sym: "clash s t = clash t s" for s t by (auto simp: clash_def apart_def)
    show ?thesis
      unfolding blk imports_ok_def seen
      by (auto simp: no_overlap_def sym [of "service_subject i"])
  qed
  finally show ?case by blast
qed

lemma validateImports_accepts: "accepts (validateImports L now acct ims) \<longleftrightarrow> imports_ok L now acct ims"
proof -
  have "accepts (validateImports L now acct ims) \<longleftrightarrow>
      (\<exists>m' vr. foldE (import_step L now acct) ([], []) ims = Inr (m', vr) \<and> \<not> isBlocking vr False)"
    by (cases "foldE (import_step L now acct) ([], []) ims") (auto simp: accepts_def validateImports_def)
  also have "\<dots> \<longleftrightarrow> imports_ok L now acct ims"
    by (simp add: import_loop_accepts seen_of_def)
  finally show ?thesis .
qed

section \<open>The clock does not decide\<close>

lemma report_without_times:
  "filter (\<lambda>i. \<not> timeCheck i) (addTimeChecks now vr exp nbf) = filter (\<lambda>i. \<not> timeCheck i) vr"
  "filter (\<lambda>i. \<not> timeCheck i) (error_if b d vr) = error_if b d (filter (\<lambda>i. \<not> timeCheck i) vr)"
  by (simp_all add: addTimeChecks_def addTimeCheck_def error_if_def addError_def add_def Let_def)

lemma fold_without_times:
  "fold (\<lambda>issue vr. if \<not> timeCheck issue then add vr issue else vr) is vr = vr @ filter (\<lambda>i. \<not> timeCheck i) is"
  by (induction "is" arbitrary: vr) (simp_all add: add_def)

lemma check_activation_any_time: "check_activation L now acct i act vr = check_activation L now' acct i act vr"
  unfolding check_activation_def Let_def ActivationClaims_report_def fold_without_times report_without_times
  by (rule refl)

lemma import_check_any_time: "import_check L now acct i = import_check L now' acct i"
proof
  fix vr
  have "check_token L now acct i = check_token L now' acct i"
    by (rule ext) (simp only: check_token_def check_activation_any_time [of L now acct i _ _ now'])
  then show "import_check L now acct i vr = import_check L now' acct i vr" by (simp add: import_check_def)
qed

lemma imports_ok_any_time: "imports_ok L now acct ims \<longleftrightarrow> imports_ok L now' acct ims"
  unfolding imports_ok_def import_check_any_time [of L now acct _ now'] by (rule refl)

section \<open>The account as a whole\<close>

definition tiers_ok :: "AccountLimits \<Rightarrow> bool" where
  "tiers_ok l \<longleftrightarrow>
     tieredLimits l = [] \<or> jetStream l = no_jetStream \<and> \<not> smap_has (tieredLimits l) []"

lemma validateMapping_blocking: "isBlocking (validateMapping (f, wms) []) False \<longleftrightarrow> \<not> weights_ok wms"
proof -
  have "isBlocking (validateMapping (f, wms) []) False \<longleftrightarrow> validateMapping (f, wms) [] \<noteq> []"
    using mapping_findings_block [of "(f, wms)"]
    by (cases "validateMapping (f, wms) []") (auto simp: isBlocking_iff)
  then show ?thesis by (simp add: validateMapping_passes weights_ok_def list_all_iff)
qed

lemma validateAccountConfig_blocking:
  "isBlocking (validateAccountConfig l maps vr) False \<longleftrightarrow>
     isBlocking vr False \<or> \<not> tiers_ok l \<or> \<not> (\<forall>(f, wms) \<in> set maps. weights_ok wms)"
proof -
  have "isBlocking (fold validateMapping maps v) False \<longleftrightarrow>
      isBlocking v False \<or> \<not> (\<forall>(f, wms) \<in> set maps. weights_ok wms)" for v
    unfolding appending_fold_blocking [where g = validateMapping and inc = False, OF appending_validateMapping]
    using validateMapping_blocking by auto
  then show ?thesis
    by (auto simp: validateAccountConfig_def Let_def tiers_ok_def error_if_blocking)
qed

definition counts_ok :: "account_claims \<Rightarrow> bool" where
  "counts_ok c \<longleftrightarrow>
     within (l_imports (a_limits c)) (length (acc_imports c)) \<and>
     within (l_exports (a_limits c)) (length (acc_exports c)) \<and>
     (l_exports (a_limits c) = - 1 \<or> wildcardExports (a_limits c) \<or>
        list_all (\<lambda>e. \<not> subjectHasWildcards (e_subject e)) (acc_exports c))"

lemma check_counts_iff: "isBlocking (check_counts c vr) False \<longleftrightarrow> isBlocking vr False \<or> \<not> counts_ok c"
proof -
  let ?l = "a_limits c"
  have wild: "isBlocking (fold (\<lambda>ex. error_if (subjectHasWildcards (e_subject ex)) d) es v) False \<longleftrightarrow>
      isBlocking v False \<or> \<not> list_all (\<lambda>e. \<not> subjectHasWildcards (e_subject e)) es" for es d v
    using appending_fold_blocking [where g = "\<lambda>ex. error_if (subjectHasWildcards (e_subject ex)) d" and
        inc = False, OF appending_error_when]
    by (simp add: error_if_blocking list_all_iff)
  have neg: "0 \<le> sint (l_imports ?l) \<Longrightarrow> l_imports ?l \<noteq> - 1" by auto
  show ?thesis
    unfolding check_counts_def Let_def counts_ok_def within_def
    using neg by (auto simp: wild error_if_blocking not_le)
qed

text \<open>Everything an account must satisfy, besides its structure.\<close>

definition account_ok :: "lib \<Rightarrow> int64 \<Rightarrow> account_claims \<Rightarrow> bool" where
  "account_ok L now c \<longleftrightarrow>
     tiers_ok (a_limits c) \<and> list_all (\<lambda>(f, wms). weights_ok wms) (mappings c) \<and>
     exports_ok (acc_exports c) \<and> imports_ok L now (subject c) (acc_imports c) \<and>
     \<not> isBlocking (validatePermissions (defaultPermissions c) []) False \<and>
     \<not> isBlocking (validateExternalAuthorization L (authorization c) []) False \<and>
     counts_ok c \<and> list_all (IsValidPublicAccountKey L) (signingKeys c) \<and>
     \<not> isBlocking (validateInfo (a_description c) (a_infoURL c) []) False"

lemma account_report_accepts:
  "(\<exists>vr. AccountClaims_report L now c [] = Inr vr \<and> \<not> isBlocking vr False) \<longleftrightarrow> account_ok L now c"
proof -
  let ?config = "validateAccountConfig (a_limits c) (mappings c) (addTimeChecks now [] (expires c) (notBefore c))"
  let ?exs = "validateExports (acc_exports c) ?config"
  let ?rest = "\<lambda>vr. warning_if (IsValidPublicAccountKey L (issuer c) \<and> \<not> limitsEmpty (a_limits c))
        (''self-signed account JWTs shouldn'' @ [CHR 0x27] @ ''t contain operator limits'')
        (validateInfo (a_description c) (a_infoURL c)
        (fold (check_signing_key L c) (signingKeys c)
        (check_counts c (validateExternalAuthorization L (authorization c)
        (validatePermissions (defaultPermissions c) vr)))))"
  have keys: "isBlocking (fold (check_signing_key L c) ks vr) False \<longleftrightarrow>
      isBlocking vr False \<or> \<not> list_all (IsValidPublicAccountKey L) ks" for ks vr
    using appending_fold_blocking [where g = "check_signing_key L c" and inc = False, OF appending_check_signing_key]
    by (simp add: check_signing_key_blocking list_all_iff)
  have rest: "isBlocking (?rest vr) False \<longleftrightarrow> isBlocking vr False \<or>
      isBlocking (validatePermissions (defaultPermissions c) []) False \<or>
      isBlocking (validateExternalAuthorization L (authorization c) []) False \<or> \<not> counts_ok c \<or>
      \<not> list_all (IsValidPublicAccountKey L) (signingKeys c) \<or>
      isBlocking (validateInfo (a_description c) (a_infoURL c) []) False" for vr
    unfolding error_if_blocking(2)
    by (simp add: appending_blocking [OF appending_validateInfo, of _ _ "fold f xs v" for f xs v] keys
        check_counts_iff appending_blocking [OF appending_validateExternalAuthorization, of _ _ "validatePermissions p v" for p v]
        appending_blocking [OF appending_validatePermissions, of _ vr])
      blast
  have "(\<exists>vr. AccountClaims_report L now c [] = Inr vr \<and> \<not> isBlocking vr False) \<longleftrightarrow>
      (\<exists>vr. validateImports L now (subject c) (acc_imports c) ?exs = Inr vr \<and> \<not> isBlocking (?rest vr) False)"
    by (auto simp: AccountClaims_report_def Let_def bindE_Inr_iff validateExportsImports_eq)
  also have "\<dots> \<longleftrightarrow> \<not> isBlocking ?exs False \<and> imports_ok L now (subject c) (acc_imports c) \<and> \<not> isBlocking (?rest []) False"
    unfolding rest validateImports_accepts [symmetric]
    using appendingE_accepts [OF appendingE_validateImports, of L now "subject c" "acc_imports c" ?exs] by auto
  also have "\<dots> \<longleftrightarrow> account_ok L now c"
    unfolding rest account_ok_def validateExports_blocking validateAccountConfig_blocking error_if_blocking(4)
    by (auto simp: list_all_iff)
  finally show ?thesis .
qed

lemma account_ok_any_time: "account_ok L now c \<longleftrightarrow> account_ok L now' c"
  unfolding account_ok_def imports_ok_any_time [of L now _ _ now'] by (rule refl)

lemma AccountClaims_validate_Inr:
  "AccountClaims_validate L now c = Inr () \<longleftrightarrow>
     AccountClaims_checkStructure L c = Inr () \<and> account_ok L now c"
  unfolding AccountClaims_validate_def account_report_accepts [symmetric] bindE_Inr_iff throwFirstBlocking_Inr_iff
  by auto

section \<open>Accepted once, accepted again\<close>

lemma tiers_ok_reread: "tiers_ok l \<Longrightarrow> tiers_ok (reread_account_limits l)"
  by (auto simp: tiers_ok_def reread_account_limits_def)

lemma check_export_reread: "check_export (reread_export e) = check_export e"
proof -
  have f: "e_subject (reread_export e) = e_subject e" "e_type (reread_export e) = e_type e"
    "responseType (reread_export e) = responseType e" "e_allowTrace (reread_export e) = e_allowTrace e"
    "latency (reread_export e) = latency e" "e_description (reread_export e) = e_description e"
    "responseThresholdNanos (reread_export e) = responseThresholdNanos e"
    "accountTokenPosition (reread_export e) = accountTokenPosition e" "e_infoURL (reread_export e) = e_infoURL e"
    by (simp_all add: reread_export_def)
  have "check_latency (reread_export e) = check_latency e"
    "check_token_position (reread_export e) = check_token_position e"
    by (rule ext, simp only: check_latency_def check_token_position_def f)+
  then show ?thesis by (intro ext) (simp only: check_export_def f)
qed

lemma exports_ok_reread:
  assumes "exports_ok exs"
  shows "exports_ok (map reread_export (sort_key e_subject exs))"
proof -
  have f: "e_subject (reread_export e) = e_subject e" "e_type (reread_export e) = e_type e" for e
    by (simp_all add: reread_export_def)
  have perm: "sorted_wrt apart (map e_subject (filter P (map reread_export (sort_key e_subject exs)))) \<longleftrightarrow>
      sorted_wrt apart (map e_subject (filter P exs))" if "\<And>e. P (reread_export e) = P e" for P
    by (rule sorted_wrt_perm [OF apart_sym]) (simp_all add: filter_map comp_def f that)
  show ?thesis
    using assms
    by (simp add: exports_ok_def perm f check_export_reread list_all_iff)
qed

lemma no_overlap_sym: "no_overlap i j \<Longrightarrow> no_overlap j i"
  by (auto simp: no_overlap_def clash_def apart_def)

lemma imports_ok_perm:
  assumes "mset ims = mset ims'"
  shows "imports_ok L now acct ims \<longleftrightarrow> imports_ok L now acct ims'"
proof -
  have "mset (filter P ims) = mset (filter P ims')" for P by (simp add: assms)
  from sorted_wrt_perm [OF no_overlap_sym this] show ?thesis
    using mset_eq_setD [OF assms] by (simp add: imports_ok_def list_all_iff)
qed

lemma account_ok_reread:
  assumes "account_inv c" and "account_ok L now c"
  shows "account_ok L now' (AccountClaims_reread c)"
proof -
  have own: "smap_get (scopes c) k = Some s \<Longrightarrow> key s = k" for k s
    using assms(1) by (simp add: account_inv_def)
  have keys: "set (signingKeys (AccountClaims_reread c)) = set (signingKeys c)"
    by (simp add: AccountClaims_reread_def reread_keys_lists [OF own])
  note f = AccountClaims_reread_def reread_keys_rest reread_keys_keep reread_base_def
  have counts: "counts_ok (AccountClaims_reread c)"
    using assms(2)
    by (auto simp: account_ok_def counts_ok_def f reread_account_limits_def reread_export_def list_all_iff)
  have ims: "imports_ok L now' (subject c) (sort_key i_subject (acc_imports c))"
    using assms(2) imports_ok_perm [of "sort_key i_subject (acc_imports c)" "acc_imports c"]
      imports_ok_any_time [of L now' _ _ now] by (simp add: account_ok_def)
  have maps: "list_all (\<lambda>(f, wms). weights_ok wms) (smap_of (mappings c))"
    using assms(2) set_smap_of by (fastforce simp: account_ok_def list_all_iff)
  show ?thesis
    using assms(2) counts ims maps keys tiers_ok_reread exports_ok_reread
    unfolding account_ok_def by (simp add: f list_all_iff)
qed

section \<open>Properties\<close>

text \<open>
  C8: Which accounts pass their own checks. The keys are of the right kinds; flat JetStream limits or
  named tiers, not both; the weights of every mapping are within 100; every export and import passes on its
  own; no two exports of a kind overlap, nor do two service imports from one account; permissions,
  authorization, description and URL pass; imports and exports are within the limits. Neither the clock nor
  the order of exports, imports and signing keys matters, although the code checks overlaps against what it
  has seen so far and looks at the times of activation tokens.
\<close>

theorem account_accepted_iff:
  assumes "mset exs = mset (acc_exports c)" and "mset ims = mset (acc_imports c)"
    and "set ks = set (signingKeys c)"
  shows "AccountClaims_validate L now (c\<lparr>acc_exports := exs, acc_imports := ims, signingKeys := ks\<rparr>) = Inr () \<longleftrightarrow>
      subject c \<noteq> [] \<and> issuer c \<noteq> [] \<and> IsValidPublicAccountKey L (subject c) \<and>
      (IsValidPublicOperatorKey L (issuer c) \<or> IsValidPublicAccountKey L (issuer c)) \<and>
      list_all (IsValidPublicAccountKey L) (signingKeys c) \<and>
      (tieredLimits (a_limits c) = [] \<or>
         jetStream (a_limits c) = no_jetStream \<and> smap_get (tieredLimits (a_limits c)) [] = None) \<and>
      list_all (\<lambda>(f, wms). weights_ok wms) (mappings c) \<and>
      list_all (\<lambda>e. errors (check_export e []) = []) (acc_exports c) \<and>
      sorted_wrt apart (map e_subject (filter (\<lambda>e. e_type e = Service) (acc_exports c))) \<and>
      sorted_wrt apart (map e_subject (filter (\<lambda>e. e_type e \<noteq> Service) (acc_exports c))) \<and>
      list_all (\<lambda>i. accepts (import_check L 0 (subject c) i)) (acc_imports c) \<and>
      sorted_wrt no_overlap (filter (\<lambda>i. i_type i = Service) (acc_imports c)) \<and>
      errors (validatePermissions (defaultPermissions c) []) = [] \<and>
      errors (validateExternalAuthorization L (authorization c) []) = [] \<and>
      errors (validateInfo (a_description c) (a_infoURL c) []) = [] \<and>
      within (l_imports (a_limits c)) (length (acc_imports c)) \<and>
      within (l_exports (a_limits c)) (length (acc_exports c)) \<and>
      (l_exports (a_limits c) = - 1 \<or> wildcardExports (a_limits c) \<or>
         list_all (\<lambda>e. \<not> subjectHasWildcards (e_subject e)) (acc_exports c))"
    (is "?l \<longleftrightarrow> ?r")
proof -
  let ?d = "c\<lparr>acc_exports := exs, acc_imports := ims, signingKeys := ks\<rparr>"
  have sets: "set exs = set (acc_exports c)" "set ims = set (acc_imports c)"
    "length exs = length (acc_exports c)" "length ims = length (acc_imports c)"
    using assms mset_eq_setD mset_eq_length by blast+
  have "exports_ok exs = exports_ok (acc_exports c)"
    using sorted_wrt_perm [where R = apart and xs = "map e_subject (filter P exs)" and
        ys = "map e_subject (filter P (acc_exports c))" for P, OF apart_sym]
      assms(1) sets by (simp add: exports_ok_def list_all_iff)
  moreover have "counts_ok ?d = counts_ok c" using sets by (simp add: counts_ok_def list_all_iff)
  ultimately have "account_ok L now ?d = account_ok L 0 c"
    using imports_ok_perm [OF assms(2)] assms(3) imports_ok_any_time [of L now _ _ 0]
    by (simp add: account_ok_def list_all_iff)
  moreover have "AccountClaims_checkStructure L ?d = AccountClaims_checkStructure L c"
    by (simp add: AccountClaims_checkStructure_def)
  ultimately show ?thesis
    unfolding AccountClaims_validate_Inr AccountClaims_checkStructure_Inr account_ok_def exports_ok_def
      imports_ok_def counts_ok_def tiers_ok_def isBlocking_False_errors smap_has_def
    by auto
qed

lemma account_accepted_iff_witness:
  "AccountClaims_validate (demo_lib JNull) 9 demo_account_stamped = Inr ()"
proof -
  let ?c = demo_account_stamped
  have "AccountClaims_validate (demo_lib JNull) 5 (?c\<lparr>acc_exports := acc_exports ?c, acc_imports := acc_imports ?c,
      signingKeys := signingKeys ?c\<rparr>) = Inr ()"
    using demo_account_encodes [of JNull] AccountClaims_encode_Inr(3,4) [OF demo_account_encodes [of JNull]]
    by (auto simp: AccountClaims_validate_def throwFirstBlocking_Inr_iff)
  then show ?thesis
    using account_accepted_iff [OF refl refl refl, where c = ?c and L = "demo_lib JNull" and now = 5]
      account_accepted_iff [OF refl refl refl, where c = ?c and L = "demo_lib JNull" and now = 9]
    by simp
qed

end
