(* ===== verification/Minting.thy ===== *)
theory Minting
  imports Creds AccountAccepts
begin

text \<open>
  Encoding through the base class (\<^verbatim>\<open>include/jwt/claims.hpp\<close>: the virtual \<open>encode\<close> and
  \<open>encodeWithSigner\<close>) and what it guarantees: a token the library made is one the library accepts, with
  all checks on, at every instant inside its times. The locale \<open>minting\<close> states what each class contributes
  (its decoder inverts its encoder, and what passed its checks when it was encoded passes them again in the
  form it is decoded in).
\<close>

section \<open>The virtual encoder\<close>

definition claims_encodeWithSigner ::
  "lib \<Rightarrow> int64 \<Rightarrow> any_claims \<Rightarrow> string \<Rightarrow> signer \<Rightarrow> (exn + string) \<times> any_claims" where
  "claims_encodeWithSigner L now c issuerPublicKey sign =
     (case c of
        OperatorC c \<Rightarrow> apsnd OperatorC (OperatorClaims_encodeWithSigner L now c issuerPublicKey sign)
      | AccountC c \<Rightarrow> apsnd AccountC (AccountClaims_encodeWithSigner L now c issuerPublicKey sign)
      | UserC c \<Rightarrow> apsnd UserC (UserClaims_encodeWithSigner L now c issuerPublicKey sign)
      | ActivationC c \<Rightarrow> apsnd ActivationC (ActivationClaims_encodeWithSigner L now c issuerPublicKey sign)
      | RequestC c \<Rightarrow> apsnd RequestC (AuthRequest_encodeWithSigner L now c issuerPublicKey sign)
      | ResponseC c \<Rightarrow> apsnd ResponseC (AuthResponse_encodeWithSigner L now c issuerPublicKey sign)
      | GenericC c \<Rightarrow> apsnd GenericC (GenericClaims_encodeWithSigner L now c issuerPublicKey sign))"

definition claims_encode :: "lib \<Rightarrow> int64 \<Rightarrow> any_claims \<Rightarrow> string \<Rightarrow> (exn + string) \<times> any_claims" where
  "claims_encode L now c seed =
     (case c of
        OperatorC c \<Rightarrow> apsnd OperatorC (OperatorClaims_encode L now c seed)
      | AccountC c \<Rightarrow> apsnd AccountC (AccountClaims_encode L now c seed)
      | UserC c \<Rightarrow> apsnd UserC (UserClaims_encode L now c seed)
      | ActivationC c \<Rightarrow> apsnd ActivationC (ActivationClaims_encode L now c seed)
      | RequestC c \<Rightarrow> apsnd RequestC (AuthRequest_encode L now c seed)
      | ResponseC c \<Rightarrow> apsnd ResponseC (AuthResponse_encode L now c seed)
      | GenericC c \<Rightarrow> apsnd GenericC (GenericClaims_encode L now c seed))"

text \<open>A seed is a signer: the issuer is the public key of the seed.\<close>

lemma claims_encode_signer:
  "claims_encode L now c seed =
     (case FromSeed L seed of
        Inl e \<Rightarrow> (Inl e, c)
      | Inr kp \<Rightarrow> claims_encodeWithSigner L now c (publicString kp) (signerFor kp))"
  by (cases "FromSeed L seed"; cases c)
     (simp_all add: claims_encode_def claims_encodeWithSigner_def OperatorClaims_encode_def
      AccountClaims_encode_def UserClaims_encode_def ActivationClaims_encode_def AuthRequest_encode_def
      AuthResponse_encode_def GenericClaims_encode_def)

section \<open>What a class contributes\<close>

locale minting =
  fixes dec :: "lib \<Rightarrow> string \<Rightarrow> exn + 'c"
    and encode :: "lib \<Rightarrow> int64 \<Rightarrow> 'c \<Rightarrow> string \<Rightarrow> signer \<Rightarrow> (exn + string) \<times> 'c"
    and printed :: "lib \<Rightarrow> 'c \<Rightarrow> json"
    and reread :: "'c \<Rightarrow> 'c"
    and check :: "lib \<Rightarrow> int64 \<Rightarrow> 'c \<Rightarrow> exn + unit"
    and ready :: "'c \<Rightarrow> bool"
    and wrap :: "'c \<Rightarrow> any_claims"
  assumes encoded_decodes: "encode L now c k sign = (Inr token, c') \<Longrightarrow> lib_ok L \<Longrightarrow>
      json_faithful L header_json \<Longrightarrow> json_faithful L (printed L c') \<Longrightarrow> length token \<le> MAX_JWT_SIZE \<Longrightarrow>
      ready c' \<Longrightarrow> dec L token = Inr (reread c')"
    and encoded_checks: "encode L now c k sign = (Inr token, c') \<Longrightarrow> ready c' \<Longrightarrow> check L now' (reread c') = Inr ()"
    and routed: "dec L t = Inr c \<Longrightarrow> decode L t = Inr (wrap c) \<and> verify L t"
    and checked: "claims_validate L now (wrap c) = check L now c"
begin

lemma minted:
  assumes "encode L now c k sign = (Inr token, c')" "lib_ok L" "json_faithful L header_json"
    "json_faithful L (printed L c')" "length token \<le> MAX_JWT_SIZE" "ready c'"
  shows "decode L token = Inr (wrap (reread c')) \<and> verify L token \<and>
    claims_validate L now' (wrap (reread c')) = Inr ()"
  using routed [OF encoded_decodes [OF assms]] encoded_checks [OF assms(1,6)] by (simp add: checked)

end

text \<open>For a class whose decoder always inverts its encoder only the checks are left.\<close>

locale checked_class = claims_class read dec encode printed reread
  for read :: "lib \<Rightarrow> json \<Rightarrow> exn + 'c" and dec encode printed reread +
  fixes check :: "lib \<Rightarrow> int64 \<Rightarrow> 'c \<Rightarrow> exn + unit"
    and ready :: "'c \<Rightarrow> bool"
    and wrap :: "'c \<Rightarrow> any_claims"
  assumes rechecks: "encode L now c k sign = (Inr token, c') \<Longrightarrow> ready c' \<Longrightarrow> check L now' (reread c') = Inr ()"
    and routes: "dec L t = Inr c \<Longrightarrow> decode L t = Inr (wrap c) \<and> verify L t"
    and checks: "claims_validate L now (wrap c) = check L now c"
begin

lemma decode_minted:
  assumes "encode L now c k sign = (Inr token, c')" "lib_ok L" "json_faithful L header_json"
    "json_faithful L (printed L c')" "length token \<le> MAX_JWT_SIZE" "ready c'"
  shows "dec L token = Inr (reread c')"
  using decode_encoded [OF assms(1-5)] .

end

sublocale checked_class \<subseteq> minting dec encode printed reread check ready wrap
  by unfold_locales (rule decode_minted, assumption+, rule rechecks, assumption+, rule routes, assumption, rule checks)

text \<open>A typed decoder that accepts a token has verified it, and \<open>decode\<close> calls it.\<close>

lemma typed_accepts:
  "decodeOperatorClaims L t = Inr oc \<Longrightarrow> decode L t = Inr (OperatorC oc) \<and> verify L t"
  "decodeAccountClaims L t = Inr ac \<Longrightarrow> decode L t = Inr (AccountC ac) \<and> verify L t"
  "decodeUserClaims L t = Inr uc \<Longrightarrow> decode L t = Inr (UserC uc) \<and> verify L t"
  "decodeActivationClaims L t = Inr vc \<Longrightarrow> decode L t = Inr (ActivationC vc) \<and> verify L t"
  "decodeAuthorizationRequestClaims L t = Inr qc \<Longrightarrow> decode L t = Inr (RequestC qc) \<and> verify L t"
  "decodeAuthorizationResponseClaims L t = Inr rc \<Longrightarrow> decode L t = Inr (ResponseC rc) \<and> verify L t"
  using decode_outcome [of L t] by (auto dest!: decode_typed)

lemma typed_checks:
  "claims_validate L now (OperatorC oc) = OperatorClaims_validate L now oc"
  "claims_validate L now (AccountC ac) = AccountClaims_validate L now ac"
  "claims_validate L now (UserC uc) = UserClaims_validate L now uc"
  "claims_validate L now (ActivationC vc) = ActivationClaims_validate L now vc"
  "claims_validate L now (RequestC qc) = AuthRequest_validate L now qc"
  "claims_validate L now (ResponseC rc) = AuthResponse_validate L now rc"
  by (simp_all add: claims_validate_def)

section \<open>The typed classes\<close>

lemmas reread_fields = reread_base_def

lemma UserClaims_report_blocking:
  "isBlocking (UserClaims_report L now c []) False \<longleftrightarrow>
     isBlocking (validatePermissions (u_permissions c) []) False \<or>
     isBlocking (validateLimits L (u_limits c) []) False \<or>
     (case u_issuerAccount c of None \<Rightarrow> False | Some a \<Rightarrow> \<not> IsValidPublicAccountKey L a)"
  unfolding UserClaims_report_def Let_def error_if_blocking
    appending_blocking [OF appending_validateLimits, of L _ "validatePermissions p vr" for p vr]
    appending_blocking [OF appending_validatePermissions, of _ "addTimeChecks now [] e n" for e n]
  by auto

interpretation user_minting:
  checked_class readUser decodeUserClaims UserClaims_encodeWithSigner UserClaims_printed UserClaims_reread
    UserClaims_validate "\<lambda>_. True" UserC
proof
  fix L now c k sign token c' now'
  assume enc: "UserClaims_encodeWithSigner L now c k sign = (Inr token, c')"
  note e = UserClaims_encode_Inr [OF enc]
  have "UserClaims_checkStructure L (UserClaims_reread c') = Inr ()"
    using e(3) by (simp add: UserClaims_checkStructure_Inr UserClaims_reread_def reread_fields)
  moreover have "\<not> isBlocking (UserClaims_report L now' (UserClaims_reread c') []) False"
    using e(4) unfolding UserClaims_report_blocking
    by (simp add: UserClaims_reread_def reread_fields split: option.splits if_splits)
  ultimately show "UserClaims_validate L now' (UserClaims_reread c') = Inr ()"
    by (simp add: UserClaims_validate_def throwFirstBlocking_Inr_iff)
qed (erule typed_accepts, rule typed_checks)

lemma validateOperatorWiring_reread: "validateOperatorWiring L (OperatorClaims_reread c) = validateOperatorWiring L c"
proof -
  have "accountServerURL (OperatorClaims_reread c) = accountServerURL c"
    "operatorServiceURLs (OperatorClaims_reread c) = operatorServiceURLs c"
    "o_signingKeys (OperatorClaims_reread c) = o_signingKeys c"
    "systemAccount (OperatorClaims_reread c) = systemAccount c"
    "assertServerVersion (OperatorClaims_reread c) = assertServerVersion c"
    by (simp_all add: OperatorClaims_reread_def reread_fields)
  then show ?thesis by (intro ext) (simp only: validateOperatorWiring_def)
qed

interpretation operator_minting:
  checked_class readOperator decodeOperatorClaims OperatorClaims_encodeWithSigner OperatorClaims_printed
    OperatorClaims_reread OperatorClaims_validate "\<lambda>_. True" OperatorC
proof
  fix L now c k sign token c' now'
  assume enc: "OperatorClaims_encodeWithSigner L now c k sign = (Inr token, c')"
  note e = OperatorClaims_encode_Inr [OF enc]
  have "OperatorClaims_checkStructure L (OperatorClaims_reread c') = Inr ()"
    using e(3) by (simp add: OperatorClaims_checkStructure_Inr OperatorClaims_reread_def reread_fields)
  moreover have "isBlocking (OperatorClaims_report L t d []) False \<longleftrightarrow>
      isBlocking (validateOperatorWiring L d []) False" for t d
    unfolding OperatorClaims_report_def by (subst appending_blocking [OF appending_validateOperatorWiring]) (simp add: error_if_blocking)
  ultimately show "OperatorClaims_validate L now' (OperatorClaims_reread c') = Inr ()"
    using e(4) by (simp add: OperatorClaims_validate_def throwFirstBlocking_Inr_iff validateOperatorWiring_reread)
qed (erule typed_accepts, rule typed_checks)

interpretation activation_minting:
  checked_class readActivation decodeActivationClaims ActivationClaims_encodeWithSigner
    ActivationClaims_printed ActivationClaims_reread ActivationClaims_validate "\<lambda>_. True" ActivationC
proof
  fix L now c k sign token c' now'
  assume enc: "ActivationClaims_encodeWithSigner L now c k sign = (Inr token, c')"
  note e = ActivationClaims_encode_Inr [OF enc]
  show "ActivationClaims_validate L now' (ActivationClaims_reread c') = Inr ()"
    using e(3,4)
    by (simp add: ActivationClaims_validate_def bindE_Inr_iff throwFirstBlocking_Inr_iff ActivationClaims_report_errors
        ActivationClaims_checkStructure_Inr ActivationClaims_reread_def reread_fields)
qed (erule typed_accepts, rule typed_checks)

interpretation response_minting:
  checked_class readResponse decodeAuthorizationResponseClaims AuthResponse_encodeWithSigner
    AuthResponse_printed AuthResponse_reread AuthResponse_validate "\<lambda>_. True" ResponseC
proof
  fix L now c k sign token c' now'
  assume enc: "AuthResponse_encodeWithSigner L now c k sign = (Inr token, c')"
  note e = AuthResponse_encode_Inr [OF enc]
  show "AuthResponse_validate L now' (AuthResponse_reread c') = Inr ()"
    using e(2,3)
    by (simp add: AuthResponse_validate_def bindE_Inr_iff throwFirstBlocking_Inr_iff AuthResponse_report_errors
        AuthResponse_checkStructure_Inr AuthResponse_reread_def reread_fields)
qed (erule typed_accepts, rule typed_checks)

interpretation account_minting:
  checked_class readAccount decodeAccountClaims AccountClaims_encodeWithSigner AccountClaims_printed
    AccountClaims_reread AccountClaims_validate account_inv AccountC
proof
  fix L now c k sign token c' now'
  assume enc: "AccountClaims_encodeWithSigner L now c k sign = (Inr token, c')" and inv: "account_inv c'"
  note e = AccountClaims_encode_Inr [OF enc]
  have "account_ok L now' (AccountClaims_reread c')"
    using account_ok_reread [OF inv] e(4) unfolding account_report_accepts by blast
  moreover have "AccountClaims_checkStructure L (AccountClaims_reread c') = Inr ()"
    using e(3)
    by (simp add: AccountClaims_checkStructure_Inr AccountClaims_reread_def reread_keys_keep reread_fields)
  ultimately show "AccountClaims_validate L now' (AccountClaims_reread c') = Inr ()"
    by (simp add: AccountClaims_validate_Inr)
qed (erule typed_accepts, rule typed_checks)

text \<open>A request whose protocol number is negative cannot be decoded again.\<close>

definition readable_request :: "request_claims \<Rightarrow> bool" where
  "readable_request c \<longleftrightarrow> 0 \<le> sint (co_protocol (connect c))"

interpretation request_minting:
  minting decodeAuthorizationRequestClaims AuthRequest_encodeWithSigner AuthRequest_printed AuthRequest_reread
    AuthRequest_validate readable_request RequestC
proof
  fix L now c k sign token c' now'
  assume enc: "AuthRequest_encodeWithSigner L now c k sign = (Inr token, c')" and ready: "readable_request c'"
  note e = AuthRequest_encode_Inr [OF enc]
  show "AuthRequest_validate L now' (AuthRequest_reread c') = Inr ()"
    using e(2,3)
    by (simp add: AuthRequest_validate_def bindE_Inr_iff throwFirstBlocking_Inr_iff AuthRequest_report_errors
        AuthRequest_checkStructure_Inr AuthRequest_reread_def reread_fields)
  assume ok: "lib_ok L" "json_faithful L header_json" "json_faithful L (AuthRequest_printed L c')"
    "length token \<le> MAX_JWT_SIZE"
  have ty: "payloadOfType (json_norm (AuthRequest_printed L c')) ''authorization_request'' =
      Inr (json_norm (AuthRequest_printed L c'))"
    unfolding AuthRequest_printed_def by (rule payloadOfType_printed [OF AuthRequest_nats_fields(1)])
  show "decodeAuthorizationRequestClaims L token = Inr (AuthRequest_reread c')"
    unfolding request_class.decode_printed [OF enc ok] readRequest_def ty bindE.simps
      readRequestBody_roundtrip [OF e(2)]
    using ready by (simp add: readable_request_def)
qed (erule typed_accepts, rule typed_checks)

section \<open>Generic claims\<close>

text \<open>
  The decoder of generic claims is reached through \<open>decode\<close> when the data have no type, or one that no
  other decoder is responsible for.
\<close>

definition plain_type :: "generic_claims \<Rightarrow> bool" where
  "plain_type c \<longleftrightarrow>
     (case smap_get (natsRaw c) ''type'' of
        None \<Rightarrow> True
      | Some (JString t) \<Rightarrow> t \<notin> set (''cluster'' # ''server'' # known_types)
      | _ \<Rightarrow> False)"

lemma minted_generic:
  assumes enc: "GenericClaims_encodeWithSigner L now c k sign = (Inr token, c')"
    and "lib_ok L" "json_faithful L header_json" and faithful: "json_faithful L (GenericClaims_printed L c')"
    and "length token \<le> MAX_JWT_SIZE" and plain: "plain_type c'"
  shows "decode L token = Inr (GenericC (GenericClaims_reread c'))" and "verify L token"
proof -
  note e = GenericClaims_encode_Inr [OF enc]
  let ?w = "wirePayload L c' (GenericClaims_nats c')"
  let ?obj = "smap_map json_norm ?w"
  obtain pj where dump: "json_dump L (JObject ?w) = Inr pj"
    and sign: "signAndAssemble L pj (issuer c') sign = Inr token"
    by (rule finishEncode_Inr [OF e(4)])
  have pj: "json_parse L pj = Inr (JObject ?obj)"
    using json_faithfulD [OF faithful [unfolded GenericClaims_printed_def] dump] by simp
  obtain h p s where w: "wire L token h p s JWT_ALGORITHM ?obj"
    by (rule signAndAssemble_wire [OF assms(2,3) sign assms(5) pj])
  have n: "smap_get ?obj ''nats'' = Some (json_norm (JObject (GenericClaims_nats c')))"
    "smap_get ?obj ''type'' = None"
    by (simp_all add: wirePayload_fields)
  have ty: "jget (json_norm (JObject (GenericClaims_nats c'))) ''type'' =
      map_option json_norm (smap_get (natsRaw c') ''type'')"
    by (simp add: GenericClaims_nats_def)
  have "\<exists>ty. tokenType (JObject ?obj) = Inr ty \<and> ty \<notin> set (''cluster'' # ''server'' # known_types)"
    using plain ty n
    by (auto simp: plain_type_def tokenType_def known_types_def split: option.splits json.splits)
  then obtain ty where "tokenType (JObject ?obj) = Inr ty" "ty \<notin> set (''cluster'' # ''server'' # known_types)"
    by blast
  then show "decode L token = Inr (GenericC (GenericClaims_reread c'))"
    using encoded_generic_decodes [OF assms(1-5)] by (simp add: decode_wire [OF w] dispatch_def known_types_def)
  have "payloadVersion ?obj = Inr 2"
  proof (rule payloadVersion_wire)
    show "smap_get ?w ''nats'' = Some (JObject (GenericClaims_nats c'))" "smap_get ?w ''type'' = None"
      by (simp_all add: wirePayload_fields)
    show "is_string v" if "smap_get (GenericClaims_nats c') ''type'' = Some v" for v
      using that plain by (auto simp: GenericClaims_nats_def plain_type_def split: json.splits)
    show "smap_get (GenericClaims_nats c') ''version'' = Some (JInteger (word_of_int JWT_VERSION))"
      by (simp add: GenericClaims_nats_def)
  qed
  from signAndAssemble_opens [OF assms(2,3) sign assms(5) pj this]
  show "verify L token" by (simp add: verify_def stringAt_def wirePayload_fields)
qed

section \<open>All classes\<close>

definition claims_printed :: "lib \<Rightarrow> any_claims \<Rightarrow> json" where
  "claims_printed L c =
     (case c of
        OperatorC c \<Rightarrow> OperatorClaims_printed L c | AccountC c \<Rightarrow> AccountClaims_printed L c
      | UserC c \<Rightarrow> UserClaims_printed L c | ActivationC c \<Rightarrow> ActivationClaims_printed L c
      | RequestC c \<Rightarrow> AuthRequest_printed L c | ResponseC c \<Rightarrow> AuthResponse_printed L c
      | GenericC c \<Rightarrow> GenericClaims_printed L c)"

definition claims_reread :: "any_claims \<Rightarrow> any_claims" where
  "claims_reread c =
     (case c of
        OperatorC c \<Rightarrow> OperatorC (OperatorClaims_reread c) | AccountC c \<Rightarrow> AccountC (AccountClaims_reread c)
      | UserC c \<Rightarrow> UserC (UserClaims_reread c) | ActivationC c \<Rightarrow> ActivationC (ActivationClaims_reread c)
      | RequestC c \<Rightarrow> RequestC (AuthRequest_reread c) | ResponseC c \<Rightarrow> ResponseC (AuthResponse_reread c)
      | GenericC c \<Rightarrow> GenericC (GenericClaims_reread c))"

definition claims_ready :: "any_claims \<Rightarrow> bool" where
  "claims_ready c =
     (case c of AccountC c \<Rightarrow> account_inv c | RequestC c \<Rightarrow> readable_request c
      | GenericC c \<Rightarrow> plain_type c | _ \<Rightarrow> True)"

text \<open>Which encoder made the object.\<close>

lemma encoded_class:
  assumes "claims_encodeWithSigner L now c k sign = (r, c')"
  shows "case c' of
      OperatorC d \<Rightarrow> \<exists>c. OperatorClaims_encodeWithSigner L now c k sign = (r, d)
    | AccountC d \<Rightarrow> \<exists>c. AccountClaims_encodeWithSigner L now c k sign = (r, d)
    | UserC d \<Rightarrow> \<exists>c. UserClaims_encodeWithSigner L now c k sign = (r, d)
    | ActivationC d \<Rightarrow> \<exists>c. ActivationClaims_encodeWithSigner L now c k sign = (r, d)
    | RequestC d \<Rightarrow> \<exists>c. AuthRequest_encodeWithSigner L now c k sign = (r, d)
    | ResponseC d \<Rightarrow> \<exists>c. AuthResponse_encodeWithSigner L now c k sign = (r, d)
    | GenericC d \<Rightarrow> \<exists>c. GenericClaims_encodeWithSigner L now c k sign = (r, d)"
  using assms by (cases c) (auto simp: claims_encodeWithSigner_def apsnd_def map_prod_def split: prod.splits)

lemma minted_accepted:
  assumes enc: "claims_encodeWithSigner L now c k sign = (Inr t, c')"
    and ok: "lib_ok L" "json_faithful L header_json" "json_faithful L (claims_printed L c')"
      "length t \<le> MAX_JWT_SIZE" "claims_ready c'"
  shows "decode L t = Inr (claims_reread c') \<and> verify L t \<and> claims_validate L now' (claims_reread c') = Inr ()"
proof (cases c')
  case (GenericC d)
  then obtain c0 where "GenericClaims_encodeWithSigner L now c0 k sign = (Inr t, d)"
    using encoded_class [OF enc] by auto
  then show ?thesis
    using minted_generic [of L now c0 k sign t d] ok GenericClaims_encode_Inr(3) [of L now c0 k sign t d]
    by (simp add: GenericC claims_printed_def claims_ready_def claims_reread_def claims_validate_def
        GenericClaims_validate_def GenericClaims_checkStructure_def GenericClaims_report_def
        GenericClaims_reread_def reread_fields throwFirstBlocking_Inr_iff error_if_blocking)
qed (use encoded_class [OF enc] ok operator_minting.minted account_minting.minted user_minting.minted
    activation_minting.minted request_minting.minted response_minting.minted in
    \<open>auto simp: claims_printed_def claims_ready_def claims_reread_def\<close>)

section \<open>Inside its times\<close>

definition in_time :: "int64 \<Rightarrow> ValidationOptions \<Rightarrow> any_claims \<Rightarrow> bool" where
  "in_time now opts c \<longleftrightarrow>
     \<not> nbf_overflows c opts \<and> \<not> too_early now c opts \<and> \<not> exp_overflows c opts \<and> \<not> too_late now c opts"

lemma reread_keys_times:
  "expires (fold (reread_key sc) ks c) = expires c" "notBefore (fold (reread_key sc) ks c) = notBefore c"
  by (induction ks arbitrary: c)
     (auto simp: reread_key_def AccountClaims_addSigningKey_def setScope_def Let_def split: option.splits)

lemma reread_names [simp]:
  "issuer (any_base (claims_reread c)) = issuer (any_base c)"
  "subject (any_base (claims_reread c)) = subject (any_base c)"
  "expires (any_base (claims_reread c)) = reread_time (expires (any_base c))"
  "notBefore (any_base (claims_reread c)) = reread_time (notBefore (any_base c))"
  by (cases c; simp add: claims_reread_def base.truncate_def OperatorClaims_reread_def UserClaims_reread_def
      ActivationClaims_reread_def AuthRequest_reread_def AuthResponse_reread_def GenericClaims_reread_def
      AccountClaims_reread_def reread_keys_keep reread_keys_times reread_base_def)+

lemma in_time_reread: "in_time now opts (claims_reread c) \<longleftrightarrow> in_time now opts c"
  by (simp add: in_time_def nbf_overflows_def too_early_def exp_overflows_def too_late_def reread_time_def)

lemma minted_validates:
  assumes "claims_encodeWithSigner L now c k sign = (Inr t, c')"
    and "lib_ok L" "json_faithful L header_json" "json_faithful L (claims_printed L c')"
      "length t \<le> MAX_JWT_SIZE" "claims_ready c'" and "in_time now' opts c'"
  shows "validate L now' t opts = Inr success"
proof -
  have "validateTiming now' (claims_reread c') opts = Inr success"
    using assms(7) in_time_reread [of now' opts c'] by (simp add: validateTiming_cases in_time_def)
  then show ?thesis
    using minted_accepted [OF assms(1-6)]
    by (simp add: validate_def or_failure_def stop_unless_def)
qed

section \<open>Properties\<close>

text \<open>
  C4: What any encoder made of claims that can be read back (an account whose scopes are filed under
  their keys, a request without a negative protocol number, generic data without a type of its own) the
  library accepts: \<open>decode\<close> returns the claims in their reread form, \<open>verify\<close> is true, and
  \<open>validate\<close> reports success with whatever checks are on, at every instant inside the times of the claims.
\<close>

theorem minted_token_accepted:
  assumes "claims_encodeWithSigner L now c k sign = (Inr t, c')"
    and "lib_ok L" and "json_faithful L header_json" and "json_faithful L (claims_printed L c')"
    and "length t \<le> MAX_JWT_SIZE" and "claims_ready c'"
  shows "decode L t = Inr (claims_reread c') \<and> verify L t \<and>
    claims_validate L now' (claims_reread c') = Inr () \<and>
    validate L now' t opts =
      (if in_time now' opts c' then Inr success else validateTiming now' (claims_reread c') opts)"
proof -
  have "validate L now' t opts = validateTiming now' (claims_reread c') opts" if "\<not> in_time now' opts c'"
    using that minted_accepted [OF assms] in_time_reread [of now' opts c']
    by (auto simp: validate_def or_failure_def stop_unless_def validateTiming_cases in_time_def)
  then show ?thesis using minted_accepted [OF assms] minted_validates [OF assms] by simp
qed

lemma minted_token_accepted_witness:
  "validate (demo_lib (demo_wire demo_user_stamped (UserClaims_nats demo_user_stamped))) 7 (demo_token ''A1'')
     strict = Inr success"
proof -
  let ?L = "demo_lib (demo_wire demo_user_stamped (UserClaims_nats demo_user_stamped))"
  have enc: "claims_encodeWithSigner ?L 5 (UserC demo_user) ''A1'' (signerFor (demo_pair ''A1'')) =
      (Inr (demo_token ''A1''), UserC demo_user_stamped)"
    by (simp add: claims_encodeWithSigner_def demo_user_encodes demo_user_stamped_def)
  have "json_faithful ?L (claims_printed ?L (UserC demo_user_stamped))"
    unfolding claims_printed_def any_claims.case UserClaims_printed_def demo_wirePayload by (rule demo_faithful)
  moreover have "claims_ready (UserC demo_user_stamped)" by (simp add: claims_ready_def)
  moreover have "in_time 7 strict (UserC demo_user_stamped)"
    by (simp add: in_time_def nbf_overflows_def too_early_def exp_overflows_def too_late_def base.truncate_def
        demo_user_stamped_def demo_user_def UserClaims_new_def)
  ultimately show ?thesis
    using minted_token_accepted [OF enc demo_lib_ok demo_header _ demo_token_length, of 7 strict] by simp
qed

end
