(* ===== verification/Trust.thy ===== *)
theory Trust
  imports Minting
begin

text \<open>
  The trust protocol as a relation: which chains of tokens can be made by encoding them one after the
  other, an operator first, then an account and a user, each signed by the identity or a signing key of
  the one before. The lemmas show that every chain so issued passes \<open>validateChain\<close> (\<^verbatim>\<open>src/validation.cpp\<close>)
  with all checks on: the checks ask for nothing that issuing does not already guarantee.
\<close>

section \<open>Chains that were issued\<close>

text \<open>The tokens an encoder made of claims that can be read back, as they were when they were signed.\<close>

definition mints :: "lib \<Rightarrow> any_claims \<Rightarrow> string \<Rightarrow> bool" where
  "mints L c t \<longleftrightarrow>
     (\<exists>now c0 k sign. claims_encodeWithSigner L now c0 k sign = (Inr t, c)) \<and> claims_ready c \<and>
     json_faithful L (claims_printed L c) \<and> length t \<le> MAX_JWT_SIZE"

text \<open>
  Issuing is a relation on chains, the claims beside their tokens: an operator starts a chain, and accounts
  and users are added by signing them with a key of the last member, its identity or a signing key. A user
  that a scoped key signs has no permissions of its own, and names no other account.
\<close>

inductive issued :: "lib \<Rightarrow> any_claims list \<Rightarrow> string list \<Rightarrow> bool" for L where
  issued_operator: "mints L (OperatorC o') t \<Longrightarrow> issued L [OperatorC o'] [t]"
| issued_account: "issued L (cs @ [OperatorC o']) ts \<Longrightarrow> mints L (AccountC a) t \<Longrightarrow>
    issuer a \<in> insert (subject o') (set (o_signingKeys o')) \<Longrightarrow>
    issued L ((cs @ [OperatorC o']) @ [AccountC a]) (ts @ [t])"
| issued_user: "issued L (cs @ [AccountC a]) ts \<Longrightarrow> mints L (UserC u) t \<Longrightarrow>
    issuer u \<in> insert (subject a) (set (signingKeys a)) \<Longrightarrow>
    u_issuerAccount u \<in> {None, Some (subject a)} \<Longrightarrow>
    getScope a (issuer u) = None \<or> hasEmptyPermissions u \<Longrightarrow>
    issued L ((cs @ [AccountC a]) @ [UserC u]) (ts @ [t])"

inductive_simps issued_single: "issued L [c] ts"

text \<open>The first letter of a public key is its kind, as nkeys documents.\<close>

definition nkey_prefixes :: "lib \<Rightarrow> bool" where
  "nkey_prefixes L \<longleftrightarrow>
     (\<forall>k. IsValidPublicOperatorKey L k \<longrightarrow> k \<noteq> [] \<and> hd k = CHR ''O'') \<and>
     (\<forall>k. IsValidPublicAccountKey L k \<longrightarrow> k \<noteq> [] \<and> hd k = CHR ''A'') \<and>
     (\<forall>k. IsValidPublicUserKey L k \<longrightarrow> k \<noteq> [] \<and> hd k = CHR ''U'')"

lemma wiring_keys:
  assumes "\<not> isBlocking (validateOperatorWiring L c []) False"
  shows "list_all (IsValidPublicOperatorKey L) (o_signingKeys c)"
proof -
  let ?f = "\<lambda>k. error_if (\<not> IsValidPublicOperatorKey L k) (k @ '' is not an operator public key'')"
  obtain vr where "\<not> isBlocking (fold ?f (o_signingKeys c) vr) False"
    using assms unfolding validateOperatorWiring_def Let_def error_if_blocking by blast
  then show ?thesis
    using appending_fold_blocking [where g = ?f and xs = "o_signingKeys c" and inc = False, OF appending_error_if_fun]
    by (simp add: error_if_blocking list_all_iff)
qed

text \<open>The keys of what was minted.\<close>

lemma mints_keys:
  assumes "mints L c t"
  shows "case c of
      OperatorC d \<Rightarrow> list_all (IsValidPublicOperatorKey L) (subject d # o_signingKeys d)
    | AccountC d \<Rightarrow> list_all (IsValidPublicAccountKey L) (subject d # signingKeys d)
    | UserC d \<Rightarrow> IsValidPublicUserKey L (subject d)
    | _ \<Rightarrow> True"
proof -
  obtain n c0 k sign where "claims_encodeWithSigner L n c0 k sign = (Inr t, c)"
    using assms by (auto simp: mints_def)
  note enc = encoded_class [OF this]
  show ?thesis
  proof (cases c)
    case (OperatorC d)
    then obtain c1 where "OperatorClaims_encodeWithSigner L n c1 k sign = (Inr t, d)" using enc by auto
    note e = OperatorClaims_encode_Inr [OF this]
    have "\<not> isBlocking (validateOperatorWiring L d []) False"
      using e(4) appending_blocking [OF appending_validateOperatorWiring] unfolding OperatorClaims_report_def by blast
    with e(3) show ?thesis by (simp add: OperatorC OperatorClaims_checkStructure_Inr wiring_keys)
  next
    case (AccountC d)
    then obtain c1 where "AccountClaims_encodeWithSigner L n c1 k sign = (Inr t, d)" using enc by auto
    note e = AccountClaims_encode_Inr [OF this]
    have "account_ok L n d" using e(4) unfolding account_report_accepts [symmetric] by blast
    with e(3) show ?thesis by (simp add: AccountC AccountClaims_checkStructure_Inr account_ok_def)
  next
    case (UserC d)
    then obtain c1 where "UserClaims_encodeWithSigner L n c1 k sign = (Inr t, d)" using enc by auto
    note e = UserClaims_encode_Inr [OF this]
    from e(3) show ?thesis by (simp add: UserC UserClaims_checkStructure_Inr)
  qed simp_all
qed

lemma below_by_key:
  assumes "nkey_prefixes L" and "issuer (any_base c) \<in> insert (subject (any_base p)) (set ks)"
  shows "list_all (IsValidPublicOperatorKey L) (subject (any_base p) # ks) \<Longrightarrow>
      IsValidPublicAccountKey L (subject (any_base c)) \<Longrightarrow> below c p"
    and "list_all (IsValidPublicAccountKey L) (subject (any_base p) # ks) \<Longrightarrow>
      IsValidPublicUserKey L (subject (any_base c)) \<Longrightarrow> below c p"
  using assms unfolding nkey_prefixes_def below_def Let_def list_all_iff by force+

text \<open>Being vouched for and being below survive encoding and decoding.\<close>

lemma scope_reread:
  "account_inv a \<Longrightarrow> getScope (AccountClaims_reread a) k = map_option reread_scope (getScope a k)"
  using reread_same_account [of a] by (simp add: same_account_def)

lemma keys_reread: "account_inv a \<Longrightarrow> set (signingKeys (AccountClaims_reread a)) = set (signingKeys a)"
  using reread_same_account [of a] by (simp add: same_account_def)

lemma vouched_keys_reread:
  "claims_ready p \<Longrightarrow> set (vouched_keys (claims_reread p)) = set (vouched_keys p)"
  by (cases p)
     (simp_all add: vouched_keys_def claims_reread_def claims_ready_def keys_reread OperatorClaims_reread_def
       reread_base_def)

lemma user_issuer_reread [simp]: "issuer (UserClaims_reread u) = issuer u"
  by (simp add: UserClaims_reread_def reread_base_def)

lemma scope_broken_reread:
  "claims_ready p \<Longrightarrow> scope_broken (claims_reread c) (claims_reread p) = scope_broken c p"
  by (cases c; cases p)
     (simp_all add: scope_broken_def claims_reread_def claims_ready_def scope_reread reread_keeps_empty)

lemma child_account_reread:
  "child_account (claims_reread c) = child_account c \<or> child_account (claims_reread c) = None"
  by (cases c)
     (simp_all add: child_account_def claims_reread_def UserClaims_reread_def AuthResponse_reread_def
       reread_base_def)

lemma vouched_reread:
  assumes "vouched c p" and "claims_ready p"
  shows "vouched (claims_reread c) (claims_reread p)"
  using assms(1) child_account_reread [of c]
  by (auto simp: vouched_def vouched_keys_reread [OF assms(2)] scope_broken_reread [OF assms(2)])

lemma below_reread: "below (claims_reread c) (claims_reread p) \<longleftrightarrow> below c p"
  by (simp add: below_def)

section \<open>Issued chains validate\<close>

lemma list_all2_snoc: "list_all2 P cs ts \<Longrightarrow> P c t \<Longrightarrow> list_all2 P (cs @ [c]) (ts @ [t])"
  by (simp add: list_all2_appendI)

lemma issued_minted: "issued L cs ts \<Longrightarrow> list_all2 (mints L) cs ts"
proof (induction rule: issued.induct)
  case (issued_operator o' t)
  then show ?case by simp
next
  case issued_account
  then show ?case by (intro list_all2_snoc)
next
  case issued_user
  then show ?case by (intro list_all2_snoc)
qed

lemma issued_last: "issued L (cs @ [p]) ts \<Longrightarrow> \<exists>t. mints L p t"
  by (drule issued_minted) (auto simp: list_all2_append1 list_all2_Cons1)

lemma link_snoc:
  assumes "\<And>n. Suc n < length (cs @ [p]) \<Longrightarrow> Q ((cs @ [p]) ! Suc n) ((cs @ [p]) ! n)" and "Q c p"
    and "Suc n < length ((cs @ [p]) @ [c])"
  shows "Q (((cs @ [p]) @ [c]) ! Suc n) (((cs @ [p]) @ [c]) ! n)"
proof (cases "Suc n < length (cs @ [p])")
  case True
  then have "((cs @ [p]) @ [c]) ! Suc n = (cs @ [p]) ! Suc n" "((cs @ [p]) @ [c]) ! n = (cs @ [p]) ! n"
    by (simp_all only: nth_append Suc_lessD if_True)
  then show ?thesis using assms(1) [OF True] by simp
next
  case False
  then have "n = length cs" using assms(3) by simp
  then show ?thesis using assms(2) by (simp add: nth_append)
qed

lemma issued_links:
  assumes "nkey_prefixes L"
  shows "issued L cs ts \<Longrightarrow> Suc n < length cs \<Longrightarrow> vouched (cs ! Suc n) (cs ! n) \<and> below (cs ! Suc n) (cs ! n)"
proof (induction arbitrary: n rule: issued.induct)
  case (issued_operator o' t)
  then show ?case by simp
next
  case (issued_account cs o' ts a t)
  obtain t' where "mints L (OperatorC o') t'" using issued_last issued_account.hyps(1) by blast
  then have "vouched (AccountC a) (OperatorC o') \<and> below (AccountC a) (OperatorC o')"
    using issued_account.hyps(2,3) mints_keys [of L "OperatorC o'"] mints_keys [of L "AccountC a"]
      below_by_key(1) [OF assms, of "AccountC a" "OperatorC o'" "o_signingKeys o'"]
    by (auto simp: vouched_def vouched_keys_def child_account_def scope_broken_def base.truncate_def)
  from link_snoc [where Q = "\<lambda>c p. vouched c p \<and> below c p", OF issued_account.IH this issued_account.prems]
  show ?case by blast
next
  case (issued_user cs a ts u t)
  obtain t' where "mints L (AccountC a) t'" using issued_last issued_user.hyps(1) by blast
  then have "vouched (UserC u) (AccountC a) \<and> below (UserC u) (AccountC a)"
    using issued_user.hyps(2-5) mints_keys [of L "AccountC a"] mints_keys [of L "UserC u"]
      below_by_key(2) [OF assms, of "UserC u" "AccountC a" "signingKeys a"]
    by (auto simp: vouched_def vouched_keys_def child_account_def scope_broken_def base.truncate_def)
  from link_snoc [where Q = "\<lambda>c p. vouched c p \<and> below c p", OF issued_user.IH this issued_user.prems]
  show ?case by blast
qed

lemma minted_decode_chain:
  assumes "list_all2 (mints L) cs ts" and "lib_ok L" "json_faithful L header_json"
    and "list_all (in_time now opts) cs"
  shows "decode_chain L now opts i ts = Inr (Inr (map claims_reread cs))"
  using assms(1,4)
proof (induction arbitrary: i rule: list_all2_induct)
  case (Cons c cs t ts)
  from Cons.hyps(1) obtain n c0 k sign where enc: "claims_encodeWithSigner L n c0 k sign = (Inr t, c)"
    and m: "json_faithful L (claims_printed L c)" "length t \<le> MAX_JWT_SIZE" "claims_ready c"
    by (auto simp: mints_def)
  have "decode L t = Inr (claims_reread c)"
    using minted_accepted [OF enc assms(2,3) m] by blast
  moreover have "validate L now t opts = Inr success"
    by (rule minted_validates [OF enc assms(2,3) m]) (use Cons.prems in simp)
  ultimately show ?case using Cons.IH Cons.prems by simp
qed simp

lemma valid_link_chain: "valid (link_chain i cs) \<Longrightarrow> link_chain i cs = success"
  by (induction i cs rule: link_chain.induct) (auto simp: Let_def split: if_splits)

section \<open>A concrete environment\<close>

text \<open>Payloads are printed as their subjects; the parser knows the payloads it is given.\<close>

definition trust_lib :: "(string \<times> json) list \<Rightarrow> lib" where
  "trust_lib ps = (demo_lib JNull)
     \<lparr>json_parse := \<lambda>s. if s = ''H'' then Inr header_json
                     else case map_of ps s of Some j \<Rightarrow> Inr (json_norm j) | None \<Rightarrow> Inl (Json_exn 101),
      json_dump := \<lambda>v. Inr (if v = header_json then ''H''
                            else case jget v ''sub'' of Some (JString s) \<Rightarrow> s | _ \<Rightarrow> ''P'')\<rparr>"

definition trust_wire :: "('a) base_scheme \<Rightarrow> json smap \<Rightarrow> json" where
  "trust_wire c nats = JObject (withJti (subject c) (withNats (basePayload c) nats))"

definition trust_token :: "string \<Rightarrow> string \<Rightarrow> string" where
  "trust_token sbj k =
     (let input = base64url_encode (bytes_of ''H'') @ ''.'' @ base64url_encode (bytes_of sbj)
      in input @ ''.'' @ base64url_encode (demo_sig k (bytes_of input)))"

lemma trust_dump:
  assumes "smap_get p ''sub'' = Some (JString s)"
  shows "json_dump (trust_lib ps) (JObject p) = Inr s"
proof -
  have "jget header_json ''sub'' = None" by (simp add: header_json_def smap_get_of)
  with assms have "JObject p \<noteq> header_json" by (metis jget.simps(1) option.distinct(1))
  then show ?thesis by (simp add: trust_lib_def assms)
qed

lemma trust_get:
  "smap_get (withNats (basePayload c) nats) ''sub'' = Some (JString (subject c))"
  "smap_get (withJti s (withNats (basePayload c) nats)) ''sub'' = Some (JString (subject c))"
  by (simp_all add: withNats_def withJti_def basePayload_fields)

lemma trust_wirePayload: "JObject (wirePayload (trust_lib ps) c nats) = trust_wire c nats"
  by (simp add: wirePayload_def trust_wire_def trust_dump [OF trust_get(1)] Let_def)

lemma trust_finish:
  assumes "k \<noteq> []"
  shows "finishEncode (trust_lib ps) k (signerFor (demo_pair k)) (basePayload c) nats =
    Inr (trust_token (subject c) k)"
proof -
  have "createHeader (trust_lib ps) = Inr ''H''"
    by (simp add: createHeader_def dump_json_def trust_lib_def)
  moreover have "FromPublicKey (trust_lib ps) k = Inr (demo_pair k)"
    using assms by (simp add: trust_lib_def demo_lib_def)
  ultimately show ?thesis
    by (simp add: finishEncode_def dump_json_def trust_dump [OF trust_get(1)] trust_dump [OF trust_get(2)]
        signAndAssemble_def signerFor_def demo_pair_def trust_token_def Let_def)
qed

lemma trust_lib_ok: "map_of ps [] = None \<Longrightarrow> lib_ok (trust_lib ps)"
  by (auto simp: lib_ok_def trust_lib_def demo_lib_def demo_pair_def demo_sig_def split: if_splits)

lemma trust_header: "json_faithful (trust_lib ps) header_json"
  by (simp add: json_faithful_def trust_lib_def)

lemma trust_prefixes: "nkey_prefixes (trust_lib ps)"
proof -
  have "take (Suc 0) k = [c] \<longleftrightarrow> k \<noteq> [] \<and> hd k = c" for k :: string and c by (cases k) auto
  then show ?thesis by (simp add: nkey_prefixes_def trust_lib_def demo_lib_def starts_with_def)
qed

lemma trust_token_length: "length s < 1000 \<Longrightarrow> length (trust_token s k) \<le> MAX_JWT_SIZE"
  by (simp add: trust_token_def Let_def encode_length demo_sig_def MAX_JWT_SIZE_def)

text \<open>An operator, its account with a scoped signing key, and a user that key signed.\<close>

definition demo_scoped_user :: user_claims where
  "demo_scoped_user = demo_issued\<lparr>issuer := ''A3'', issuedAt := 5\<rparr>"

definition trust_demo :: lib where
  "trust_demo = trust_lib
     [(''O1'', trust_wire demo_operator_stamped (OperatorClaims_nats demo_operator_stamped)),
      (''A1'', trust_wire demo_account_stamped (AccountClaims_nats demo_account_stamped)),
      (''U1'', trust_wire demo_scoped_user (UserClaims_nats demo_scoped_user))]"

lemma trust_demo_faithful:
  assumes "(subject c, trust_wire c nats) \<in> set
     [(''O1'', trust_wire demo_operator_stamped (OperatorClaims_nats demo_operator_stamped)),
      (''A1'', trust_wire demo_account_stamped (AccountClaims_nats demo_account_stamped)),
      (''U1'', trust_wire demo_scoped_user (UserClaims_nats demo_scoped_user))]"
  shows "json_faithful trust_demo (JObject (wirePayload trust_demo c nats))"
proof -
  have "json_dump trust_demo (trust_wire c nats) = Inr (subject c)"
    unfolding trust_demo_def trust_wire_def by (rule trust_dump [OF trust_get(2)])
  moreover have "json_parse trust_demo (subject c) = Inr (json_norm (trust_wire c nats))"
    using assms by (auto simp: trust_demo_def trust_lib_def)
  ultimately show ?thesis
    unfolding trust_demo_def trust_wirePayload by (simp add: json_faithful_def)
qed

lemma trust_demo_keys [simp]:
  "IsValidPublicOperatorKey trust_demo k = starts_with k ''O''"
  "IsValidPublicAccountKey trust_demo k = starts_with k ''A''"
  "IsValidPublicUserKey trust_demo k = starts_with k ''U''"
  by (simp_all add: trust_demo_def trust_lib_def demo_lib_def)

lemma trust_demo_finish:
  "k \<noteq> [] \<Longrightarrow> finishEncode trust_demo k (signerFor (demo_pair k)) (basePayload c) nats =
     Inr (trust_token (subject c) k)"
  unfolding trust_demo_def by (rule trust_finish)

lemma trust_operator: "mints trust_demo (OperatorC demo_operator_stamped) (trust_token ''O1'' ''O1'')"
proof -
  have sbj: "subject demo_operator_stamped = ''O1''"
    by (simp add: demo_operator_stamped_def demo_operator_def OperatorClaims_new_def)
  have "checkIssuerKind trust_demo ''O1'' ''O'' ''Operator'' = Inr ()"
    by (simp add: checkIssuerKind_Inr_iff kind_check_def starts_with_def)
  moreover have "OperatorClaims_checkStructure trust_demo demo_operator_stamped = Inr ()"
    by (simp add: OperatorClaims_checkStructure_Inr demo_operator_stamped_def demo_operator_def
        OperatorClaims_new_def starts_with_def)
  moreover have "OperatorClaims_report trust_demo 5 demo_operator_stamped [] = []"
    by (simp add: OperatorClaims_report_def demo_operator_stamped_def demo_operator_def
        OperatorClaims_new_def addTimeChecks_def validateOperatorWiring_def error_if_def Let_def)
  ultimately have "OperatorClaims_encodeWithSigner trust_demo 5 demo_operator ''O1'' (signerFor (demo_pair ''O1'')) =
      (Inr (trust_token ''O1'' ''O1''), demo_operator_stamped)"
    by (simp add: OperatorClaims_encodeWithSigner_def OperatorClaims_validate_def trust_demo_finish sbj
        flip: demo_operator_stamped_def)
  then have "claims_encodeWithSigner trust_demo 5 (OperatorC demo_operator) ''O1'' (signerFor (demo_pair ''O1'')) =
      (Inr (trust_token ''O1'' ''O1''), OperatorC demo_operator_stamped)"
    by (simp add: claims_encodeWithSigner_def)
  moreover have "json_faithful trust_demo (claims_printed trust_demo (OperatorC demo_operator_stamped))"
    unfolding claims_printed_def any_claims.case OperatorClaims_printed_def
    by (rule trust_demo_faithful) (simp add: sbj)
  ultimately show ?thesis
    unfolding mints_def using trust_token_length [of "''O1''"] by (auto simp: claims_ready_def)
qed

lemma trust_account: "mints trust_demo (AccountC demo_account_stamped) (trust_token ''A1'' ''O1'')"
proof -
  have sbj: "subject demo_account_stamped = ''A1''"
    by (simp add: demo_account_stamped_def demo_account_def setScope_def AccountClaims_new_def)
  have "checkIssuerKind trust_demo ''O1'' ''OA'' ''Account'' = Inr ()"
    by (simp add: checkIssuerKind_Inr_iff kind_check_def starts_with_def)
  moreover have "AccountClaims_validate trust_demo 5 demo_account_stamped = Inr ()"
    by (simp add: AccountClaims_validate_Inr AccountClaims_checkStructure_Inr account_ok_def demo_account_stamped_def
        demo_account_def setScope_def AccountClaims_new_def new_scope_def starts_with_def tiers_ok_def
        unlimited_account_def exports_ok_def imports_ok_def counts_ok_def within_def validatePermissions_def
        no_permissions_def no_permission_def validateExternalAuthorization_def no_authorization_def
        validateInfo_def error_if_def MaxInfoLength_def Let_def)
  ultimately have "AccountClaims_encodeWithSigner trust_demo 5 demo_account ''O1'' (signerFor (demo_pair ''O1'')) =
      (Inr (trust_token ''A1'' ''O1''), demo_account_stamped)"
    by (simp add: AccountClaims_encodeWithSigner_def trust_demo_finish sbj Let_def flip: demo_account_stamped_def)
  then have "claims_encodeWithSigner trust_demo 5 (AccountC demo_account) ''O1'' (signerFor (demo_pair ''O1'')) =
      (Inr (trust_token ''A1'' ''O1''), AccountC demo_account_stamped)"
    by (simp add: claims_encodeWithSigner_def)
  moreover have "json_faithful trust_demo (claims_printed trust_demo (AccountC demo_account_stamped))"
    unfolding claims_printed_def any_claims.case AccountClaims_printed_def
    by (rule trust_demo_faithful) (simp add: sbj)
  moreover have "account_inv demo_account_stamped"
    using demo_account_inv account_inv_cong [of demo_account_stamped demo_account]
    by (simp add: demo_account_stamped_def)
  ultimately show ?thesis
    unfolding mints_def using trust_token_length [of "''A1''"] by (auto simp: claims_ready_def)
qed

lemma trust_user: "mints trust_demo (UserC demo_scoped_user) (trust_token ''U1'' ''A3'')"
proof -
  have f: "subject demo_scoped_user = ''U1''" "issuer demo_scoped_user = ''A3''"
    "u_issuerAccount demo_scoped_user = Some ''A1''"
    by (simp_all add: demo_scoped_user_def demo_issued_def setName_def setIssuerAccount_def setScoped_def
        UserClaims_new_def)
  have "checkIssuerKind trust_demo ''A3'' ''A'' ''User'' = Inr ()"
    by (simp add: checkIssuerKind_Inr_iff kind_check_def starts_with_def)
  moreover have "UserClaims_checkStructure trust_demo demo_scoped_user = Inr ()"
    by (simp add: UserClaims_checkStructure_Inr f starts_with_def)
  moreover have "UserClaims_report trust_demo 5 demo_scoped_user [] = []"
    by (simp add: UserClaims_report_def demo_scoped_user_def demo_issued_def setName_def setIssuerAccount_def
        setScoped_def UserClaims_new_def addTimeChecks_def validatePermissions_def no_permissions_def
        no_permission_def validateLimits_def error_if_def starts_with_def)
  ultimately have "UserClaims_encodeWithSigner trust_demo 5 demo_issued ''A3'' (signerFor (demo_pair ''A3'')) =
      (Inr (trust_token ''U1'' ''A3''), demo_scoped_user)"
    by (simp add: UserClaims_encodeWithSigner_def UserClaims_validate_def trust_demo_finish f Let_def
        flip: demo_scoped_user_def)
  then have "claims_encodeWithSigner trust_demo 5 (UserC demo_issued) ''A3'' (signerFor (demo_pair ''A3'')) =
      (Inr (trust_token ''U1'' ''A3''), UserC demo_scoped_user)"
    by (simp add: claims_encodeWithSigner_def)
  moreover have "json_faithful trust_demo (claims_printed trust_demo (UserC demo_scoped_user))"
    unfolding claims_printed_def any_claims.case UserClaims_printed_def
    by (rule trust_demo_faithful) (simp add: f)
  ultimately show ?thesis
    unfolding mints_def using trust_token_length [of "''U1''"] by (auto simp: claims_ready_def)
qed

abbreviation trust_claims :: "any_claims list" where
  "trust_claims \<equiv> [OperatorC demo_operator_stamped, AccountC demo_account_stamped, UserC demo_scoped_user]"

abbreviation trust_tokens :: "string list" where
  "trust_tokens \<equiv> [trust_token ''O1'' ''O1'', trust_token ''A1'' ''O1'', trust_token ''U1'' ''A3'']"

lemma trust_issued: "issued trust_demo trust_claims trust_tokens"
proof -
  have f: "issuer demo_account_stamped = ''O1''" "subject demo_operator_stamped = ''O1''"
    "subject demo_account_stamped = ''A1''" "signingKeys demo_account_stamped = [''A3'']"
    "issuer demo_scoped_user = ''A3''" "u_issuerAccount demo_scoped_user = Some ''A1''"
    "hasEmptyPermissions demo_scoped_user"
    by (simp_all add: demo_account_stamped_def demo_account_def setScope_def AccountClaims_new_def new_scope_def
        demo_operator_stamped_def demo_operator_def OperatorClaims_new_def demo_scoped_user_def demo_issued_def
        setName_def setIssuerAccount_def setScoped_def UserClaims_new_def hasEmptyPermissions_def
        no_permissions_def no_permission_def permission_empty_def)
  have 1: "issued trust_demo ([] @ [OperatorC demo_operator_stamped]) [trust_token ''O1'' ''O1'']"
    using issued_operator [OF trust_operator] by simp
  have 2: "issued trust_demo ([OperatorC demo_operator_stamped] @ [AccountC demo_account_stamped])
      [trust_token ''O1'' ''O1'', trust_token ''A1'' ''O1'']"
    using issued_account [OF 1 trust_account] by (simp add: f)
  from issued_user [OF 2 trust_user] show ?thesis by (simp add: f)
qed

section \<open>Properties\<close>

text \<open>
  C3: Every chain that was issued validates. Start with an operator's token, add the token of an account
  signed by the operator's key or one of its signing keys, then that of a user signed by the account's key
  or one of its signing keys, scoped or not: \<open>validateChain\<close> accepts the chain with all checks on (issuers,
  account names, scopes, kinds of keys, signatures, times), at every instant inside the times of its
  members, whenever the public keys carry the prefix of their kind.
\<close>

theorem issued_chain_validates:
  assumes "issued L cs ts" and "lib_ok L" and "json_faithful L header_json" and "nkey_prefixes L"
    and "list_all (in_time now opts) cs"
  shows "validateChain L now ts opts = Inr success"
proof -
  let ?ds = "map claims_reread cs"
  note m = issued_minted [OF assms(1)]
  have ready: "claims_ready c" if "c \<in> set cs" for c
    using that m by (auto simp: list_all2_conv_all_nth in_set_conv_nth mints_def)
  have links: "vouched (?ds ! Suc n) (?ds ! n) \<and> below (?ds ! Suc n) (?ds ! n)" if "Suc n < length ?ds" for n
    using that issued_links [OF assms(4,1), of n] vouched_reread [of "cs ! Suc n" "cs ! n"] ready [of "cs ! n"]
    by (simp add: below_reread)
  have "valid (link_chain 1 ?ds)" unfolding link_chain_valid using links by blast
  then have "link_chain 1 ?ds = success" by (rule valid_link_chain)
  moreover have "ts \<noteq> []" using assms(1) by cases auto
  ultimately show ?thesis
    by (simp add: validateChain_def minted_decode_chain [OF m assms(2,3,5)])
qed

lemma issued_chain_validates_witness: "validateChain trust_demo 7 trust_tokens strict = Inr success"
proof (rule issued_chain_validates [OF trust_issued])
  show "lib_ok trust_demo" unfolding trust_demo_def by (rule trust_lib_ok) simp
  show "json_faithful trust_demo header_json" unfolding trust_demo_def by (rule trust_header)
  show "nkey_prefixes trust_demo" unfolding trust_demo_def by (rule trust_prefixes)
  show "list_all (in_time 7 strict) trust_claims"
    by (simp add: in_time_def nbf_overflows_def too_early_def exp_overflows_def too_late_def base.truncate_def
        demo_operator_stamped_def demo_operator_def OperatorClaims_new_def demo_account_stamped_def
        demo_account_def setScope_def AccountClaims_new_def demo_scoped_user_def demo_issued_def setName_def
        setIssuerAccount_def setScoped_def UserClaims_new_def)
qed

end
