(* ===== verification/WellFormed.thy ===== *)
theory WellFormed
  imports Trust
begin

text \<open>
  What a decoder returns is well formed, whatever was on the wire: the objects that leave \<open>decode\<close>
  (\<^verbatim>\<open>src/jwt.cpp\<close>) are such that they can be encoded and decoded again. So a token can be decoded
  and signed anew without leaving what the encoders and decoders agree on.
\<close>

section \<open>Requests\<close>

lemma uintField_le:
  assumes "uintField j k d m = Inr u" and "d \<le> m"
  shows "u \<le> m"
  using assms by (auto simp: uintField_def Let_def not_less split: option.splits json.splits if_splits)

lemma protocol_range:
  assumes "u \<le> (2 ^ 31 - 1 :: uint64)"
  shows "0 \<le> sint (ucast u :: int32)"
proof -
  have le: "uint u \<le> 2 ^ 31 - 1" using assms by (simp add: word_le_def)
  have ge: "0 \<le> uint u" by simp
  have "uint (ucast u :: int32) = uint u"
    using le ge by (simp add: unsigned_ucast_eq take_bit_int_eq_self)
  moreover have "signed_take_bit 31 (uint u) = uint u"
    by (rule signed_take_bit_int_eq_self) (use le ge in linarith)+
  ultimately show ?thesis using ge by (simp add: sint_uint)
qed

lemma connectOpts_protocol:
  assumes "connectOptsFromJson j = Inr c"
  shows "0 \<le> sint (co_protocol c)"
proof -
  obtain proto where "uintField j ''protocol'' 0 (2 ^ 31 - 1) = Inr proto" "co_protocol c = ucast proto"
    using assms unfolding connectOptsFromJson_def
    apply (elim bindE_InrE)
    apply (drule Inr_inject)
    apply hypsubst
    apply simp
    done
  then show ?thesis using uintField_le protocol_range by (metis word_zero_le)
qed

lemma readRequest_connect:
  assumes "readRequestBody L p = Inr c"
  shows "objectOr no_options connectOptsFromJson (index_json p ''nats'') ''connect_opts'' = Inr (connect c)"
  using assms unfolding readRequestBody_def Let_def
  apply (elim bindE_InrE)
  apply (drule Inr_inject)
  apply hypsubst
  apply simp
  done

lemma decoded_request_readable:
  assumes "decodeAuthorizationRequestClaims L t = Inr c"
  shows "readable_request c"
proof -
  obtain env where env: "decodeEnvelope L t = Inr env" "readRequest L (payload env) = Inr c"
    by (rule request_class.decoded_authentic [OF assms])
  from env(2) obtain p where "readRequestBody L p = Inr c" unfolding readRequest_def by (rule bindE_InrE)
  then have "objectOr no_options connectOptsFromJson (index_json p ''nats'') ''connect_opts'' = Inr (connect c)"
    by (rule readRequest_connect)
  then obtain v where "(case v of None \<Rightarrow> Inr no_options | Some x \<Rightarrow> connectOptsFromJson x) = Inr (connect c)"
    unfolding objectOr_def by (rule bindE_InrE)
  then have "connect c = no_options \<or> (\<exists>x. connectOptsFromJson x = Inr (connect c))"
    by (cases v) auto
  then have "0 \<le> sint (co_protocol (connect c))"
    using connectOpts_protocol by (auto simp: no_options_def)
  then show ?thesis by (simp add: readable_request_def)
qed

section \<open>Signing anew\<close>

text \<open>What an encoder does to its object.\<close>

definition stamped :: "string \<Rightarrow> int64 \<Rightarrow> any_claims \<Rightarrow> any_claims" where
  "stamped k now c =
     (case c of
        OperatorC c \<Rightarrow> OperatorC (c\<lparr>issuer := k, issuedAt := now\<rparr>)
      | AccountC c \<Rightarrow> AccountC (c\<lparr>issuer := k, issuedAt := now\<rparr>)
      | UserC c \<Rightarrow> UserC (c\<lparr>issuer := k, issuedAt := now\<rparr>)
      | ActivationC c \<Rightarrow> ActivationC (c\<lparr>issuer := k, issuedAt := now\<rparr>)
      | RequestC c \<Rightarrow> RequestC (c\<lparr>issuer := k, issuedAt := now\<rparr>)
      | ResponseC c \<Rightarrow> ResponseC (c\<lparr>issuer := k, issuedAt := now\<rparr>)
      | GenericC c \<Rightarrow> GenericC (c\<lparr>issuer := k, issuedAt := now\<rparr>))"

lemma encoded_stamped:
  assumes "claims_encodeWithSigner L now c k sign = (Inr t, c')"
  shows "c' = stamped k now c"
  using assms OperatorClaims_encode_Inr(1) AccountClaims_encode_Inr(1) UserClaims_encode_Inr(1)
    ActivationClaims_encode_Inr(1) AuthRequest_encode_Inr(1) AuthResponse_encode_Inr(1) GenericClaims_encode_Inr(1)
  by (cases c) (auto simp: claims_encodeWithSigner_def stamped_def apsnd_def map_prod_def split: prod.splits)

lemma ready_stamped [simp]: "claims_ready (stamped k now c) = claims_ready c"
  by (cases c) (simp_all add: claims_ready_def stamped_def account_inv_def readable_request_def plain_type_def)

lemma decoded_ready:
  assumes "decode L t = Inr c" and "case c of GenericC g \<Rightarrow> plain_type g | _ \<Rightarrow> True"
  shows "claims_ready c"
proof (cases c)
  case (AccountC a)
  then have "decodeAccountClaims L t = Inr a" using decode_parts [OF assms(1)] by simp
  then show ?thesis using decodeAccountClaims_sound(4) by (simp add: AccountC claims_ready_def)
next
  case (RequestC q)
  then have "decodeAuthorizationRequestClaims L t = Inr q" using decode_parts [OF assms(1)] by simp
  then show ?thesis using decoded_request_readable by (simp add: RequestC claims_ready_def)
qed (use assms(2) in \<open>simp_all add: claims_ready_def\<close>)

section \<open>Properties\<close>

text \<open>
  C18: Whatever \<open>decode\<close> returns is well formed. An account has its maps in key order, every scope filed under
  its own key and that key among the signing keys, tiers or flat JetStream limits but not both, sampling
  rates the wire can carry, and encoding it would change none of its keys, revocations, imports, exports
  and authorization; the protocol number of a request is not negative; generic claims have a subject.
\<close>

theorem decoded_claims_well_formed:
  "case decode L t of
     Inl e \<Rightarrow> True
   | Inr r \<Rightarrow>
       (case r of
          AccountC a \<Rightarrow> account_inv a \<and> tiers_exclusive (a_limits a) \<and>
            list_all readable_export (acc_exports a) \<and> same_account a (AccountClaims_reread a) \<and>
            (getScope a k = None \<or> k \<in> set (signingKeys a))
        | RequestC q \<Rightarrow> 0 \<le> sint (co_protocol (connect q))
        | GenericC g \<Rightarrow> subject g \<noteq> []
        | _ \<Rightarrow> True)"
proof (cases "decode L t")
  case (Inr r)
  note parts = decode_parts [OF Inr]
  show ?thesis
  proof (cases r)
    case (AccountC a)
    then have "decodeAccountClaims L t = Inr a" using parts by simp
    note s = decodeAccountClaims_sound(4-6) [OF this]
    have "getScope a k = None \<or> k \<in> set (signingKeys a)"
      using s(1) by (cases "smap_get (scopes a) k") (auto simp: account_inv_def getScope_def)
    then show ?thesis
      using s reread_same_account [OF s(1)] by (simp add: Inr AccountC list_all_iff)
  next
    case (RequestC q)
    then have "decodeAuthorizationRequestClaims L t = Inr q" using parts by simp
    then show ?thesis using decoded_request_readable by (simp add: Inr RequestC readable_request_def)
  next
    case (GenericC g)
    then have g: "decodeGeneric L t = Inr g" using parts by simp
    obtain h p s alg obj where "openGeneric L (parts_of h p s) alg (JObject obj) = Inr g"
      by (rule decodeGeneric_Inr [OF g])
    then have "subject g \<noteq> []" by (rule openGeneric_Inr)
    then show ?thesis by (simp add: Inr GenericC)
  qed (simp_all add: Inr)
qed simp

text \<open>
  C19: A token can be signed anew. Decode a token of any class (a generic one if its data have no type of
  their own), hand what was decoded to its encoder under another key and at another time: if a token comes
  out, \<open>decode\<close> returns the same claims with the new issuer and time in their reread form, \<open>verify\<close> is true
  and the checks pass at every time. Nothing a decoder lets through breaks an encoder's promise.
\<close>

theorem resigned_token_accepted:
  assumes "decode L t = Inr c" and "case c of GenericC g \<Rightarrow> plain_type g | _ \<Rightarrow> True"
    and "fst (claims_encodeWithSigner L now c k sign) = Inr t'"
    and "lib_ok L" and "json_faithful L header_json"
    and "json_faithful L (claims_printed L (stamped k now c))" and "length t' \<le> MAX_JWT_SIZE"
  shows "decode L t' = Inr (claims_reread (stamped k now c)) \<and> verify L t' \<and>
    claims_validate L now' (claims_reread (stamped k now c)) = Inr ()"
proof -
  obtain c' where enc: "claims_encodeWithSigner L now c k sign = (Inr t', c')"
    using assms(3) by (metis prod.collapse)
  have "claims_ready (stamped k now c)" using decoded_ready [OF assms(1,2)] by simp
  then show ?thesis
    using minted_accepted [OF enc assms(4,5) _ assms(7), of now'] assms(6) by (simp add: encoded_stamped [OF enc])
qed

lemma demo_resigned:
  fixes r defines "r \<equiv> OperatorClaims_reread demo_operator_stamped"
  shows "decode trust_demo (trust_token ''O1'' ''O1'') = Inr (OperatorC r)"
    and "fst (claims_encodeWithSigner trust_demo 5 (OperatorC r) ''O1'' (signerFor (demo_pair ''O1''))) =
      Inr (trust_token ''O1'' ''O1'')"
    and "json_faithful trust_demo (claims_printed trust_demo (stamped ''O1'' 5 (OperatorC r)))"
proof -
  obtain n c0 k sign where "claims_encodeWithSigner trust_demo n c0 k sign =
      (Inr (trust_token ''O1'' ''O1''), OperatorC demo_operator_stamped)"
    and f: "json_faithful trust_demo (claims_printed trust_demo (OperatorC demo_operator_stamped))"
      "length (trust_token ''O1'' ''O1'') \<le> MAX_JWT_SIZE" "claims_ready (OperatorC demo_operator_stamped)"
    using trust_operator by (auto simp: mints_def)
  from minted_accepted [OF this(1) _ _ f] show "decode trust_demo (trust_token ''O1'' ''O1'') = Inr (OperatorC r)"
    using trust_lib_ok trust_header by (simp add: trust_demo_def r_def claims_reread_def)
  have r: "r\<lparr>issuer := ''O1'', issuedAt := 5\<rparr> = r" "subject r = ''O1''" "basePayload r = basePayload demo_operator_stamped"
    "OperatorClaims_nats r = OperatorClaims_nats demo_operator_stamped" "o_signingKeys r = []"
    "accountServerURL r = []" "operatorServiceURLs r = []" "systemAccount r = []" "assertServerVersion r = []"
    "expires r = 0" "notBefore r = 0" "issuer r = ''O1''" "issuedAt r = 5"
    unfolding r_def by code_simp+
  have "checkIssuerKind trust_demo ''O1'' ''O'' ''Operator'' = Inr ()"
    by (simp add: checkIssuerKind_Inr_iff kind_check_def starts_with_def)
  moreover have "OperatorClaims_checkStructure trust_demo r = Inr ()"
    by (simp add: OperatorClaims_checkStructure_Inr starts_with_def r)
  moreover have "OperatorClaims_report trust_demo 5 r [] = []"
    by (simp add: OperatorClaims_report_def r addTimeChecks_def validateOperatorWiring_def error_if_def Let_def)
  ultimately show "fst (claims_encodeWithSigner trust_demo 5 (OperatorC r) ''O1'' (signerFor (demo_pair ''O1''))) =
      Inr (trust_token ''O1'' ''O1'')"
    using trust_demo_finish [of "''O1''" r "OperatorClaims_nats r"]
    by (simp add: claims_encodeWithSigner_def OperatorClaims_encodeWithSigner_def OperatorClaims_validate_def r)
  have "claims_printed trust_demo (stamped ''O1'' 5 (OperatorC r)) =
      claims_printed trust_demo (OperatorC demo_operator_stamped)"
    by (simp add: stamped_def r claims_printed_def OperatorClaims_printed_def wirePayload_def)
  with f(1) show "json_faithful trust_demo (claims_printed trust_demo (stamped ''O1'' 5 (OperatorC r)))" by simp
qed

lemma resigned_token_accepted_witness:
  "verify trust_demo (trust_token ''O1'' ''O1'') \<and>
   decode trust_demo (trust_token ''O1'' ''O1'') =
     Inr (claims_reread (stamped ''O1'' 5 (OperatorC (OperatorClaims_reread demo_operator_stamped))))"
  using resigned_token_accepted [OF demo_resigned(1) _ demo_resigned(2) _ _ demo_resigned(3)]
    trust_lib_ok trust_header trust_token_length [of "''O1''"] by (simp add: trust_demo_def)

end
