(* ===== verification/Loops.thy ===== *)
theory Loops
  imports Prelude
begin

text \<open>
  Loops the way C++ runs them: an index of type \<^verbatim>\<open>std::size_t\<close> that wraps, elements that are read by
  index, positions that \<^verbatim>\<open>std::string::find\<close> returns, and a body that may throw or leave the loop. Nothing
  makes such a loop end by itself, and a read past the end is undefined behaviour: \<open>cpp_while\<close> is a partial
  function, \<open>None\<close> where the loop runs for ever, and the checked operations give \<open>UndefinedBehaviour\<close>
  where the program would leave its memory.

  The locale \<open>bounded_loop\<close> is the rule by which \<open>IndexLoops\<close> shows that the loops of the program end,
  never read outside, and return what the recursions in the other theories return.
\<close>

section \<open>The loop\<close>

text \<open>A round of a loop ends with the next state, or leaves it by \<open>break\<close> or \<open>return\<close> with a value.\<close>

datatype ('s, 'r) outcome = Continue 's | Leave 'r

text \<open>\<open>while (cond) body; after\<close>\<close>

partial_function (option) cpp_while ::
  "('s \<Rightarrow> bool) \<Rightarrow> ('s \<Rightarrow> exn + ('s, 'r) outcome) \<Rightarrow> ('s \<Rightarrow> exn + 'r) \<Rightarrow> 's \<Rightarrow> (exn + 'r) option" where
  "cpp_while cond body after s =
     (if cond s
      then (case body s of
              Inl e \<Rightarrow> Some (Inl e)
            | Inr oc \<Rightarrow> (case oc of Leave r \<Rightarrow> Some (Inr r) | Continue s' \<Rightarrow> cpp_while cond body after s'))
      else Some (after s))"

text \<open>Code after a loop whose result it uses.\<close>

definition then_run :: "(exn + 'a) option \<Rightarrow> ('a \<Rightarrow> (exn + 'b) option) \<Rightarrow> (exn + 'b) option" where
  "then_run m f =
     (case m of None \<Rightarrow> None | Some r \<Rightarrow> (case r of Inl e \<Rightarrow> Some (Inl e) | Inr x \<Rightarrow> f x))"

lemma then_run_simps [simp]:
  "then_run (Some (Inr x)) f = f x" "then_run (Some (Inl e)) f = Some (Inl e)" "then_run None f = None"
  by (simp_all add: then_run_def)

text \<open>
  A loop that ends: under the invariant \<open>inv\<close>, which every round keeps, \<open>yields\<close> is what the loop still has
  to return, and \<open>left\<close> bounds the rounds.
\<close>

locale bounded_loop =
  fixes cond :: "'s \<Rightarrow> bool"
    and body :: "'s \<Rightarrow> exn + ('s, 'r) outcome"
    and after :: "'s \<Rightarrow> exn + 'r"
    and inv :: "'s \<Rightarrow> bool"
    and left :: "'s \<Rightarrow> nat"
    and yields :: "'s \<Rightarrow> exn + 'r"
  assumes round: "inv s \<Longrightarrow> cond s \<Longrightarrow>
      (case body s of
         Inl e \<Rightarrow> yields s = Inl e
       | Inr oc \<Rightarrow> (case oc of
           Leave r \<Rightarrow> yields s = Inr r
         | Continue s' \<Rightarrow> inv s' \<and> left s' < left s \<and> yields s' = yields s))"
    and over: "inv s \<Longrightarrow> \<not> cond s \<Longrightarrow> after s = yields s"
begin

lemma ends: "inv s \<Longrightarrow> cpp_while cond body after s = Some (yields s)"
proof (induction "left s" arbitrary: s rule: less_induct)
  case less
  show ?case
  proof (cases "cond s")
    case True
    then show ?thesis
      using round [OF less.prems True] less.hyps
      by (subst cpp_while.simps) (auto split: sum.splits outcome.splits)
  next
    case False
    then show ?thesis using over [OF less.prems False] by (simp add: cpp_while.simps)
  qed
qed

end

section \<open>Sizes and positions\<close>

type_synonym size_t = "64 word"

definition vsize :: "'a list \<Rightarrow> size_t" where
  "vsize xs = word_of_nat (length xs)"

definition npos :: size_t where
  "npos = - 1"

text \<open>\<open>xs[i]\<close>, \<open>xs.back()\<close>, and reading the \<open>n\<close> elements from \<open>xs.data() + off\<close> on.\<close>

definition read_at :: "'a list \<Rightarrow> size_t \<Rightarrow> exn + 'a" where
  "read_at xs i =
     (if unat i < length xs then Inr (xs ! unat i) else Inl (UndefinedBehaviour ''index out of range''))"

definition read_back :: "'a list \<Rightarrow> exn + 'a" where
  "read_back xs = (if xs = [] then Inl (UndefinedBehaviour ''back of an empty vector'') else Inr (last xs))"

definition read_range :: "'a list \<Rightarrow> size_t \<Rightarrow> size_t \<Rightarrow> exn + 'a list" where
  "read_range xs off n =
     (if unat off + unat n \<le> length xs then Inr (take (unat n) (drop (unat off) xs))
      else Inl (UndefinedBehaviour ''range out of bounds''))"

text \<open>\<open>s.find(c, pos)\<close> and \<open>s.substr(pos, n)\<close>.\<close>

definition find_pos :: "string \<Rightarrow> char \<Rightarrow> size_t \<Rightarrow> size_t" where
  "find_pos s c pos =
     (if unat pos \<le> length s
      then (case find_from c s (unat pos) of None \<Rightarrow> npos | Some k \<Rightarrow> word_of_nat k)
      else npos)"

definition substr_at :: "string \<Rightarrow> size_t \<Rightarrow> size_t \<Rightarrow> exn + string" where
  "substr_at s pos n =
     (if unat pos \<le> length s then Inr (take (unat n) (drop (unat pos) s)) else Inl StdOutOfRange)"

text \<open>No \<^verbatim>\<open>std::string\<close> and no \<^verbatim>\<open>std::vector\<close> is longer than \<^verbatim>\<open>PTRDIFF_MAX\<close>.\<close>

abbreviation addressable :: "'a list \<Rightarrow> bool" where
  "addressable xs \<equiv> length xs < 2 ^ 63"

section \<open>Arithmetic without wrap-around\<close>

lemma unat_vsize: "length xs < 2 ^ 64 \<Longrightarrow> unat (vsize xs) = length xs"
  by (simp add: vsize_def unat_of_nat take_bit_nat_eq_self)

lemma unat_plus: "unat (i :: size_t) + unat k < 2 ^ 64 \<Longrightarrow> unat (i + k) = unat i + unat k"
  by (simp add: unat_word_ariths)

lemma unat_minus: "k \<le> (i :: size_t) \<Longrightarrow> unat (i - k) = unat i - unat k"
  by (rule unat_sub)

lemma unat_npos: "unat npos = 2 ^ 64 - 1"
  by (simp add: npos_def unsigned_minus_1_eq_mask mask_eq_exp_minus_1)

lemma unat_index: "k < 2 ^ 64 \<Longrightarrow> unat (word_of_nat k :: size_t) = k"
  by (simp add: unat_of_nat take_bit_nat_eq_self)

lemma npos_neq: "k < 2 ^ 63 \<Longrightarrow> (word_of_nat k :: size_t) \<noteq> npos"
  using unat_index [of k] unat_npos by auto

section \<open>Indices inside a list\<close>

text \<open>Inside or at the end of a list that fits into memory.\<close>

definition inside :: "'a list \<Rightarrow> size_t \<Rightarrow> bool" where
  "inside xs i \<longleftrightarrow> addressable xs \<and> unat i \<le> length xs"

lemma inside_less: "inside xs i \<Longrightarrow> i < vsize xs \<longleftrightarrow> unat i < length xs"
  by (simp add: inside_def word_less_nat_alt unat_vsize)

lemma inside_plus: "inside xs i \<Longrightarrow> unat k < 2 ^ 63 \<Longrightarrow> unat (i + k) = unat i + unat k"
  by (rule unat_plus) (simp add: inside_def)

lemma inside_plus_less:
  "inside xs i \<Longrightarrow> unat k < 2 ^ 63 \<Longrightarrow> i + k < vsize xs \<longleftrightarrow> unat i + unat k < length xs"
  using inside_plus [of xs i k] by (simp add: inside_def word_less_nat_alt unat_vsize)

lemma inside_step:
  "inside xs i \<Longrightarrow> unat k < 2 ^ 63 \<Longrightarrow> unat i + unat k \<le> length xs \<Longrightarrow> inside xs (i + k)"
  using inside_plus [of xs i k] by (simp add: inside_def)

lemma inside_start: "addressable xs \<Longrightarrow> inside xs 0"
  by (simp add: inside_def)

lemma read_in: "unat i < length xs \<Longrightarrow> read_at xs i = Inr (xs ! unat i)"
  by (simp add: read_at_def)

lemma drop_at: "n < length xs \<Longrightarrow> drop n xs = xs ! n # drop (Suc n) xs"
  by (simp add: Cons_nth_drop_Suc)

lemma inside_rest:
  assumes "inside xs i" and "unat k < 2 ^ 63"
  shows "vsize xs - i = k \<longleftrightarrow> length xs = unat i + unat k" and "0 < vsize xs - i \<longleftrightarrow> unat i < length xs"
proof -
  have "i \<le> vsize xs" using assms(1) by (simp add: inside_def word_le_nat_alt unat_vsize)
  then have "unat (vsize xs - i) = length xs - unat i"
    using assms(1) by (simp add: unat_sub inside_def unat_vsize)
  then show "vsize xs - i = k \<longleftrightarrow> length xs = unat i + unat k" "0 < vsize xs - i \<longleftrightarrow> unat i < length xs"
    using assms(1) by (auto simp: inside_def word_less_nat_alt word_unat_eq_iff)
qed

end
