(* ===== verification/IndexLoops.thy ===== *)
theory IndexLoops
  imports Loops Base64Url Subjects
begin

text \<open>
  The index loops of the program as they are written: the codec of \<^verbatim>\<open>src/base64url.cpp\<close>, \<open>splitOn\<close> and
  \<open>subjectIsContainedIn\<close> of \<^verbatim>\<open>src/subject_utils.hpp\<close>, and \<open>cleanSubject\<close> of \<^verbatim>\<open>src/jwt_utils.cpp\<close>. Indices and
  positions are \<^verbatim>\<open>std::size_t\<close>, every read is checked, and the loop is the partial function of \<open>Loops\<close>.

  Each section interprets \<open>bounded_loop\<close>; the properties say that these functions end on every input that
  fits into memory, never read out of bounds, and return what the recursions of the model return.
\<close>

section \<open>Base64url, encoding\<close>

definition encode_cond :: "byte list \<Rightarrow> size_t \<times> string \<Rightarrow> bool" where
  "encode_cond data st = (case st of (i, result) \<Rightarrow> i + 2 < vsize data)"

definition encode_body :: "byte list \<Rightarrow> size_t \<times> string \<Rightarrow> exn + (size_t \<times> string, string) outcome" where
  "encode_body data st =
     (case st of (i, result) \<Rightarrow>
        bindE (read_at data i) (\<lambda>a.
        bindE (read_at data (i + 1)) (\<lambda>b.
        bindE (read_at data (i + 2)) (\<lambda>c.
        let t = triple a b c
        in Inr (Continue (i + 3,
             result @ [sextet_char 18 t, sextet_char 12 t, sextet_char 6 t, sextet_char 0 t]))))))"

text \<open>The remaining one or two bytes.\<close>

definition encode_after :: "byte list \<Rightarrow> size_t \<times> string \<Rightarrow> exn + string" where
  "encode_after data st =
     (case st of (i, result) \<Rightarrow>
        if i < vsize data
        then bindE (read_at data i) (\<lambda>a.
          let remaining = push_bit 16 (ucast a) :: uint32;
              result1 = result @ [sextet_char 18 remaining]
          in if i + 1 < vsize data
             then bindE (read_at data (i + 1)) (\<lambda>b.
               let remaining1 = remaining OR push_bit 8 (ucast b)
               in Inr (result1 @ [sextet_char 12 remaining1, sextet_char 6 remaining1]))
             else Inr (result1 @ [sextet_char 12 remaining]))
        else Inr result)"

definition base64url_encode_code :: "byte list \<Rightarrow> (exn + string) option" where
  "base64url_encode_code data =
     (if data = [] then Some (Inr [])
      else cpp_while (encode_cond data) (encode_body data) (encode_after data) (0, []))"

lemma first_sextet: "sextet_char 18 (push_bit 16 (ucast a) OR push_bit 8 (ucast (b :: byte))) =
    sextet_char 18 (push_bit 16 (ucast (a :: byte)))"
proof -
  have "drop_bit 18 (push_bit 16 (ucast a) OR push_bit 8 (ucast b) :: uint32) = drop_bit 18 (push_bit 16 (ucast a))"
    by (rule bit_word_eqI) (auto simp: bit_simps dest: bit_imp_le_length)
  then show ?thesis by (simp add: sextet_char_def)
qed

definition encode_left :: "byte list \<Rightarrow> size_t \<times> string \<Rightarrow> nat" where
  "encode_left data st = length data - unat (fst st)"

definition encode_yields :: "byte list \<Rightarrow> size_t \<times> string \<Rightarrow> exn + string" where
  "encode_yields data st = Inr (snd st @ base64url_encode (drop (unat (fst st)) data))"

interpretation encode_loop: bounded_loop "encode_cond data" "encode_body data" "encode_after data"
  "\<lambda>st. inside data (fst st)" "encode_left data" "encode_yields data" for data
proof
  fix st :: "size_t \<times> string"
  obtain i result where st: "st = (i, result)" by (cases st)
  assume "inside data (fst st)"
  then have i: "inside data i" by (simp add: st)
  let ?n = "unat i"
  note plus = inside_plus [OF i, of 1, simplified] inside_plus [OF i, of 2, simplified]
    inside_plus [OF i, of 3, simplified]
  {
    assume "encode_cond data st"
    then have n: "?n + 2 < length data"
      using inside_plus_less [OF i, of 2] by (simp add: encode_cond_def st)
    then have d: "drop ?n data = data ! ?n # data ! Suc ?n # data ! Suc (Suc ?n) # drop (?n + 3) data"
      using drop_at [of ?n data] drop_at [of "Suc ?n" data] drop_at [of "Suc (Suc ?n)" data]
      by (simp add: numeral_3_eq_3)
    have "inside data (i + 3)" using inside_step [OF i, of 3] n by simp
    then show "case encode_body data st of
        Inl e \<Rightarrow> encode_yields data st = Inl e
      | Inr oc \<Rightarrow> (case oc of
          Leave r \<Rightarrow> encode_yields data st = Inr r
        | Continue s' \<Rightarrow> inside data (fst s') \<and> encode_left data s' < encode_left data st \<and>
            encode_yields data s' = encode_yields data st)"
      using n by (simp add: encode_body_def st read_in plus encode_left_def encode_yields_def d Let_def)
  next
    assume "\<not> encode_cond data st"
    then have n: "\<not> ?n + 2 < length data"
      using inside_plus_less [OF i, of 2] by (simp add: encode_cond_def st)
    have "length data = ?n \<or> length data = ?n + 1 \<or> length data = ?n + 2" using n i by (auto simp: inside_def)
    then show "encode_after data st = encode_yields data st"
      using inside_less [OF i] inside_plus_less [OF i, of 1] drop_at [of ?n data] drop_at [of "Suc ?n" data]
      by (auto simp: encode_after_def st encode_yields_def read_in plus first_sextet Let_def)
  }
qed

lemma encode_ends: "addressable data \<Longrightarrow> base64url_encode_code data = Some (Inr (base64url_encode data))"
  using encode_loop.ends [of data "(0, [])"]
  by (simp add: base64url_encode_code_def encode_yields_def inside_def)

section \<open>Base64url, decoding\<close>

definition decode_cond :: "string \<Rightarrow> size_t \<times> byte list \<Rightarrow> bool" where
  "decode_cond input st = (case st of (i, result) \<Rightarrow> i + 3 < vsize input)"

definition decode_body :: "string \<Rightarrow> size_t \<times> byte list \<Rightarrow> exn + (size_t \<times> byte list, byte list) outcome" where
  "decode_body input st =
     (case st of (i, result) \<Rightarrow>
        bindE (read_at input i) (\<lambda>w.
        bindE (read_at input (i + 1)) (\<lambda>x.
        bindE (read_at input (i + 2)) (\<lambda>y.
        bindE (read_at input (i + 3)) (\<lambda>z.
        let a = decode_lookup w; b = decode_lookup x; c = decode_lookup y; d = decode_lookup z
        in if a = 0xFF \<or> b = 0xFF \<or> c = 0xFF \<or> d = 0xFF then Inl bad_character
           else let q = quad a b c d
                in Inr (Continue (i + 4, result @ [octet 16 q, octet 8 q, octet 0 q])))))))"

text \<open>The remaining characters; a single one is an error.\<close>

definition decode_after :: "string \<Rightarrow> size_t \<times> byte list \<Rightarrow> exn + byte list" where
  "decode_after input st =
     (case st of (i, result) \<Rightarrow>
        let remaining = vsize input - i
        in if 0 < remaining
           then if remaining = 1 then Inl bad_length
                else
                  bindE (read_at input i) (\<lambda>w.
                  bindE (read_at input (i + 1)) (\<lambda>x.
                  let a = decode_lookup w; b = decode_lookup x
                  in if a = 0xFF \<or> b = 0xFF then Inl bad_character
                     else
                       let partial = push_bit 18 (ucast a) OR push_bit 12 (ucast b);
                           result1 = result @ [octet 16 partial]
                       in if remaining = 3
                          then bindE (read_at input (i + 2)) (\<lambda>y.
                            let c = decode_lookup y
                            in if c = 0xFF then Inl bad_character
                               else Inr (result1 @ [octet 8 (partial OR push_bit 6 (ucast c))]))
                          else Inr result1))
           else Inr result)"

definition base64url_decode_code :: "string \<Rightarrow> (exn + byte list) option" where
  "base64url_decode_code input =
     (if input = [] then Some (Inr [])
      else cpp_while (decode_cond input) (decode_body input) (decode_after input) (0, []))"

definition decode_left :: "string \<Rightarrow> size_t \<times> byte list \<Rightarrow> nat" where
  "decode_left input st = length input - unat (fst st)"

definition decode_yields :: "string \<Rightarrow> size_t \<times> byte list \<Rightarrow> exn + byte list" where
  "decode_yields input st = bindE (base64url_decode (drop (unat (fst st)) input)) (\<lambda>bs. Inr (snd st @ bs))"

interpretation decode_loop: bounded_loop "decode_cond input" "decode_body input" "decode_after input"
  "\<lambda>st. inside input (fst st)" "decode_left input" "decode_yields input" for input
proof
  fix st :: "size_t \<times> byte list"
  obtain i result where st: "st = (i, result)" by (cases st)
  assume "inside input (fst st)"
  then have i: "inside input i" by (simp add: st)
  let ?n = "unat i"
  note plus = inside_plus [OF i, of 1, simplified] inside_plus [OF i, of 2, simplified]
    inside_plus [OF i, of 3, simplified] inside_plus [OF i, of 4, simplified]
  {
    assume "decode_cond input st"
    then have n: "?n + 3 < length input"
      using inside_plus_less [OF i, of 3] by (simp add: decode_cond_def st)
    then have d: "drop ?n input =
        input ! ?n # input ! Suc ?n # input ! Suc (Suc ?n) # input ! (?n + 3) # drop (?n + 4) input"
      using drop_at [of ?n input] drop_at [of "Suc ?n" input] drop_at [of "Suc (Suc ?n)" input]
        drop_at [of "?n + 3" input] by (simp add: numeral_3_eq_3 eval_nat_numeral)
    have "inside input (i + 4)" and "length input - (?n + 4) < length input - ?n"
      using inside_step [OF i, of 4] n by simp_all
    then show "case decode_body input st of
        Inl e \<Rightarrow> decode_yields input st = Inl e
      | Inr oc \<Rightarrow> (case oc of
          Leave r \<Rightarrow> decode_yields input st = Inr r
        | Continue s' \<Rightarrow> inside input (fst s') \<and> decode_left input s' < decode_left input st \<and>
            decode_yields input s' = decode_yields input st)"
      using n by (simp add: decode_body_def st read_in plus decode_left_def decode_yields_def d Let_def bindE_assoc)
  next
    assume "\<not> decode_cond input st"
    then have n: "\<not> ?n + 3 < length input"
      using inside_plus_less [OF i, of 3] by (simp add: decode_cond_def st)
    have "length input = ?n \<or> length input = ?n + 1 \<or> length input = ?n + 2 \<or> length input = ?n + 3"
      using n i by (auto simp: inside_def)
    then show "decode_after input st = decode_yields input st"
      using inside_rest [OF i, of 1] inside_rest [OF i, of 3]
        drop_at [of ?n input] drop_at [of "Suc ?n" input] drop_at [of "Suc (Suc ?n)" input]
      by (elim disjE) (simp_all add: decode_after_def st decode_yields_def read_in plus Let_def)
  }
qed

lemma decode_ends: "addressable input \<Longrightarrow> base64url_decode_code input = Some (base64url_decode input)"
  using decode_loop.ends [of input "(0, [])"]
  by (cases "input = []"; cases "base64url_decode input")
     (simp_all add: base64url_decode_code_def decode_yields_def inside_def)

section \<open>Splitting\<close>

definition split_body :: "string \<Rightarrow> char \<Rightarrow> size_t \<times> string list \<Rightarrow>
    exn + (size_t \<times> string list, string list) outcome" where
  "split_body s sep st =
     (case st of (pos, out) \<Rightarrow>
        let next = find_pos s sep pos
        in if next = npos
           then bindE (substr_at s pos npos) (\<lambda>t. Inr (Leave (out @ [t])))
           else bindE (substr_at s pos (next - pos)) (\<lambda>t. Inr (Continue (next + 1, out @ [t]))))"

definition splitOn_code :: "string \<Rightarrow> char \<Rightarrow> (exn + string list) option" where
  "splitOn_code s sep = cpp_while (\<lambda>_. True) (split_body s sep) (\<lambda>(pos, out). Inr out) (0, [])"

text \<open>What \<open>find\<close> and the two calls of \<open>substr\<close> return at a position of the string.\<close>

lemma find_pos_cases:
  assumes "inside s pos"
  obtains (none) "find_char c (drop (unat pos) s) = None" "find_pos s c pos = npos"
      "substr_at s pos npos = Inr (drop (unat pos) s)"
  | (some) k where "find_char c (drop (unat pos) s) = Some k" "find_pos s c pos \<noteq> npos"
      "unat (find_pos s c pos) = unat pos + k" "unat (find_pos s c pos - pos) = k"
      "unat pos + k < length s" "inside s (find_pos s c pos + 1)"
      "unat (find_pos s c pos + 1) = Suc (unat pos + k)"
      "substr_at s pos (find_pos s c pos - pos) = Inr (take k (drop (unat pos) s))"
proof (cases "find_char c (drop (unat pos) s)")
  case None
  have "length s < 2 ^ 64" using assms by (simp add: inside_def)
  then have "length s - unat pos < 2 ^ 64" by (rule le_less_trans [OF diff_le_self])
  then show ?thesis
    using None none assms by (simp add: find_pos_def find_from_def substr_at_def inside_def unat_npos)
next
  case (Some k)
  have k: "unat pos + k < length s" using find_char_SomeD(3) [OF Some] by simp
  let ?next = "find_pos s c pos"
  have eq: "?next = word_of_nat (unat pos + k)"
    using assms Some by (simp add: find_pos_def find_from_def inside_def)
  have u: "unat ?next = unat pos + k"
    unfolding eq by (rule unat_index) (use assms k in \<open>simp add: inside_def\<close>)
  have ne: "?next \<noteq> npos"
    unfolding eq by (rule npos_neq) (use assms k in \<open>simp add: inside_def\<close>)
  have m: "unat (?next - pos) = k"
    using u by (subst unat_minus) (simp_all add: word_le_nat_alt)
  have n: "unat (?next + 1) = Suc (unat pos + k)"
    using u k assms by (subst unat_plus) (simp_all add: inside_def)
  show ?thesis
    by (rule some [OF Some ne u m k _ n])
      (use n k m assms in \<open>simp_all add: inside_def substr_at_def\<close>)
qed

definition split_left :: "string \<Rightarrow> size_t \<times> string list \<Rightarrow> nat" where
  "split_left s st = Suc (length s) - unat (fst st)"

definition split_yields :: "string \<Rightarrow> char \<Rightarrow> size_t \<times> string list \<Rightarrow> exn + string list" where
  "split_yields s sep st = Inr (snd st @ splitOn (drop (unat (fst st)) s) sep)"

interpretation split_loop: bounded_loop "\<lambda>_. True" "split_body s sep" "\<lambda>(pos, out). Inr out"
  "\<lambda>st. inside s (fst st)" "split_left s" "split_yields s sep" for s sep
proof
  fix st :: "size_t \<times> string list"
  obtain pos out where st: "st = (pos, out)" by (cases st)
  assume "inside s (fst st)"
  then have i: "inside s pos" by (simp add: st)
  show "case split_body s sep st of
      Inl e \<Rightarrow> split_yields s sep st = Inl e
    | Inr oc \<Rightarrow> (case oc of
        Leave r \<Rightarrow> split_yields s sep st = Inr r
      | Continue s' \<Rightarrow> inside s (fst s') \<and> split_left s s' < split_left s st \<and>
          split_yields s sep s' = split_yields s sep st)"
    using i
  proof (cases rule: find_pos_cases [where c = sep])
    case none
    then show ?thesis
      by (simp add: split_body_def st split_yields_def splitOn.simps [of "drop (unat pos) s"])
  next
    case (some k)
    then show ?thesis
      by (simp add: split_body_def st split_yields_def split_left_def splitOn.simps [of "drop (unat pos) s"]
          add.commute diff_less_mono2 Let_def)
  qed
qed simp

lemma split_ends: "addressable s \<Longrightarrow> splitOn_code s sep = Some (Inr (splitOn s sep))"
  using split_loop.ends [of s "(0, [])" sep] by (simp add: splitOn_code_def split_yields_def inside_def)

section \<open>Cleaning a subject\<close>

definition clean_cond :: "string \<Rightarrow> size_t \<times> size_t \<Rightarrow> bool" where
  "clean_cond subject st = (case st of (pos, index) \<Rightarrow> pos \<le> vsize subject)"

definition clean_body :: "string \<Rightarrow> size_t \<times> size_t \<Rightarrow> exn + (size_t \<times> size_t, string) outcome" where
  "clean_body subject st =
     (case st of (pos, index) \<Rightarrow>
        let next = find_pos subject CHR ''.'' pos
        in bindE (substr_at subject pos (if next = npos then npos else next - pos)) (\<lambda>tok.
             if tok = ''*'' \<or> tok = ''>''
             then (if index = 0 then Inr (Leave ''_'')
                   else bindE (substr_at subject 0 (pos - 1)) (\<lambda>t. Inr (Leave t)))
             else if next = npos then Inr (Leave subject)
             else Inr (Continue (next + 1, index + 1))))"

definition cleanSubject_code :: "string \<Rightarrow> (exn + string) option" where
  "cleanSubject_code subject =
     cpp_while (clean_cond subject) (clean_body subject) (\<lambda>_. Inr subject) (0, 0)"

definition clean_inv :: "string \<Rightarrow> size_t \<times> size_t \<Rightarrow> bool" where
  "clean_inv subject st \<longleftrightarrow> inside subject (fst st) \<and> unat (snd st) \<le> unat (fst st)"

definition clean_left :: "string \<Rightarrow> size_t \<times> size_t \<Rightarrow> nat" where
  "clean_left subject st = Suc (length subject) - unat (fst st)"

definition clean_yields :: "string \<Rightarrow> size_t \<times> size_t \<Rightarrow> exn + string" where
  "clean_yields subject st = Inr (clean_loop subject (unat (fst st)) (unat (snd st)))"

interpretation clean_loop: bounded_loop "clean_cond subject" "clean_body subject" "\<lambda>_. Inr subject"
  "clean_inv subject" "clean_left subject" "clean_yields subject" for subject
proof
  fix st :: "size_t \<times> size_t"
  obtain pos index where st: "st = (pos, index)" by (cases st)
  assume "clean_inv subject st"
  then have i: "inside subject pos" and le: "unat index \<le> unat pos" by (simp_all add: st clean_inv_def)
  have le_size: "unat pos \<le> length subject" using i by (simp add: inside_def)
  have zero: "index = 0 \<longleftrightarrow> unat index = 0" by (simp add: unat_eq_zero)
  have prev: "substr_at subject 0 (pos - 1) = Inr (substr subject 0 (unat pos - 1))" if "index \<noteq> 0"
  proof -
    have "0 < unat pos" using that le by (simp add: unat_eq_zero [symmetric])
    then have "unat (pos - 1) = unat pos - 1" by (subst unat_minus) (simp_all add: word_le_nat_alt)
    then show ?thesis by (simp add: substr_at_def substr_def)
  qed
  note loop = clean_loop.simps [of subject "unat pos" "unat index"] clean_loop.simps [of subject "unat pos" 0]
  show "case clean_body subject st of
      Inl e \<Rightarrow> clean_yields subject st = Inl e
    | Inr oc \<Rightarrow> (case oc of
        Leave r \<Rightarrow> clean_yields subject st = Inr r
      | Continue s' \<Rightarrow> clean_inv subject s' \<and> clean_left subject s' < clean_left subject st \<and>
          clean_yields subject s' = clean_yields subject st)"
    using i
  proof (cases rule: find_pos_cases [where c = "CHR ''.''"])
    case none
    then show ?thesis
      using prev le_size zero
      by (simp add: clean_body_def st clean_yields_def loop find_from_def)
  next
    case (some k)
    have "unat index + 1 < 2 ^ 64" using le le_size i by (simp add: inside_def)
    then have "unat (index + 1) = Suc (unat index)" by (subst unat_plus) simp_all
    moreover have "length subject - (unat pos + k) < Suc (length subject) - unat pos"
      using le_size by linarith
    ultimately show ?thesis
      using some prev le_size zero le
      by (simp add: clean_body_def st clean_yields_def loop find_from_def substr_def clean_inv_def clean_left_def
          diff_less_mono2 Let_def)
  qed
next
  fix st :: "size_t \<times> size_t"
  assume "clean_inv subject st" and "\<not> clean_cond subject st"
  then show "Inr subject = clean_yields subject st"
    by (auto simp: clean_inv_def inside_def clean_cond_def word_le_nat_alt unat_vsize split: prod.splits)
qed

lemma clean_ends: "addressable subject \<Longrightarrow> cleanSubject_code subject = Some (Inr (cleanSubject subject))"
  using clean_loop.ends [of subject "(0, 0)"]
  by (simp add: cleanSubject_code_def cleanSubject_def clean_yields_def clean_inv_def inside_def)

section \<open>Containment\<close>

definition contained_cond :: "string list \<Rightarrow> size_t \<Rightarrow> bool" where
  "contained_cond otherArr i = (i < vsize otherArr)"

definition contained_body :: "string list \<Rightarrow> string list \<Rightarrow> size_t \<Rightarrow> exn + (size_t, bool) outcome" where
  "contained_body myArr otherArr i =
     bindE (read_at otherArr i) (\<lambda>tok.
       if i = vsize otherArr - 1 \<and> tok = ''>'' then Inr (Leave True)
       else bindE (read_at myArr i) (\<lambda>my.
         if tok \<noteq> my \<and> tok \<noteq> ''*'' then Inr (Leave False) else Inr (Continue (i + 1))))"

definition contained_code :: "string list \<Rightarrow> string list \<Rightarrow> (exn + bool) option" where
  "contained_code myArr otherArr =
     then_run (Some (if vsize otherArr < vsize myArr
                     then bindE (read_back otherArr) (\<lambda>t. Inr (t \<noteq> ''>'')) else Inr False)) (\<lambda>too_long.
       if too_long then Some (Inr False)
       else if vsize myArr < vsize otherArr then Some (Inr False)
       else cpp_while (contained_cond otherArr) (contained_body myArr otherArr) (\<lambda>_. Inr True) 0)"

definition subjectIsContainedIn_code :: "string \<Rightarrow> string \<Rightarrow> (exn + bool) option" where
  "subjectIsContainedIn_code s other =
     then_run (splitOn_code other CHR ''.'') (\<lambda>otherArr.
     then_run (splitOn_code s CHR ''.'') (\<lambda>myArr.
       contained_code myArr otherArr))"

definition contained_inv :: "string list \<Rightarrow> string list \<Rightarrow> size_t \<Rightarrow> bool" where
  "contained_inv myArr otherArr i \<longleftrightarrow> length otherArr \<le> length myArr \<and> length otherArr < 2 ^ 64 \<and>
     unat i \<le> length otherArr"

interpretation contained_loop: bounded_loop "contained_cond otherArr" "contained_body myArr otherArr" "\<lambda>_. Inr True"
  "contained_inv myArr otherArr" "\<lambda>i. length otherArr - unat i"
  "\<lambda>i. Inr (contained_loop myArr otherArr (unat i))" for myArr otherArr
proof
  fix i
  assume inv: "contained_inv myArr otherArr i"
  then have len: "length otherArr < 2 ^ 64" "length otherArr \<le> length myArr" by (simp_all add: contained_inv_def)
  {
    assume "contained_cond otherArr i"
    then have i: "unat i < length otherArr"
      using len by (simp add: contained_cond_def word_less_nat_alt unat_vsize)
    then have "1 \<le> vsize otherArr" using len by (simp add: word_le_nat_alt unat_vsize)
    then have index: "i = vsize otherArr - 1 \<longleftrightarrow> unat i = length otherArr - 1"
      using len by (simp add: word_unat_eq_iff unat_minus unat_vsize)
    have step: "contained_body myArr otherArr i =
        (if unat i = length otherArr - 1 \<and> otherArr ! unat i = ''>'' then Inr (Leave True)
         else if otherArr ! unat i \<noteq> myArr ! unat i \<and> otherArr ! unat i \<noteq> ''*'' then Inr (Leave False)
         else Inr (Continue (i + 1)))"
      unfolding contained_body_def read_in [OF i] read_in [OF less_le_trans [OF i len(2)]] bindE.simps index ..
    have loop: "contained_loop myArr otherArr (unat i) =
        (if unat i = length otherArr - 1 \<and> otherArr ! unat i = ''>'' then True
         else if otherArr ! unat i \<noteq> myArr ! unat i \<and> otherArr ! unat i \<noteq> ''*'' then False
         else contained_loop myArr otherArr (Suc (unat i)))"
      using i by (subst contained_loop.simps) (simp only: Let_def if_True)
    have succ: "unat (i + 1) = Suc (unat i)" using i len by (subst unat_plus) simp_all
    have less: "length otherArr - Suc (unat i) < length otherArr - unat i" using i by linarith
    let ?go = "contained_loop myArr otherArr (Suc (unat i))"
    have "case (if F then Inr (Leave True) else if G then Inr (Leave False) else Inr (Continue (i + 1))) of
        Inl e \<Rightarrow> Inr (if F then True else if G then False else ?go) = Inl e
      | Inr oc \<Rightarrow> (case oc of
          Leave r \<Rightarrow> Inr (if F then True else if G then False else ?go) = Inr r
        | Continue s' \<Rightarrow> contained_inv myArr otherArr s' \<and>
            length otherArr - unat s' < length otherArr - unat i \<and>
            Inr (contained_loop myArr otherArr (unat s')) = Inr (if F then True else if G then False else ?go))" for F G
      using i len less by (cases F; cases G) (simp_all add: contained_inv_def succ)
    then show "case contained_body myArr otherArr i of
        Inl e \<Rightarrow> Inr (contained_loop myArr otherArr (unat i)) = Inl e
      | Inr oc \<Rightarrow> (case oc of
          Leave r \<Rightarrow> Inr (contained_loop myArr otherArr (unat i)) = Inr r
        | Continue s' \<Rightarrow> contained_inv myArr otherArr s' \<and>
            length otherArr - unat s' < length otherArr - unat i \<and>
            Inr (contained_loop myArr otherArr (unat s')) = Inr (contained_loop myArr otherArr (unat i)))"
      unfolding step loop .
  next
    assume "\<not> contained_cond otherArr i"
    then have "\<not> unat i < length otherArr"
      using len by (simp add: contained_cond_def word_less_nat_alt unat_vsize)
    then show "Inr True = Inr (contained_loop myArr otherArr (unat i))"
      by (simp add: contained_loop.simps [of myArr otherArr "unat i"])
  }
qed

lemma length_splitOn: "length (splitOn s sep) \<le> Suc (length s)"
  by (induction s) (simp_all add: splitOn_Cons)

lemma contained_ends:
  assumes "addressable s" and "addressable other"
  shows "subjectIsContainedIn_code s other = Some (Inr (subjectIsContainedIn s other))"
proof -
  let ?my = "splitOn s CHR ''.''"
  let ?other = "splitOn other CHR ''.''"
  have len: "length ?my < 2 ^ 64" "length ?other < 2 ^ 64"
    using assms length_splitOn [of s] length_splitOn [of other] by (force intro: le_less_trans)+
  have final: "read_back ?other = Inr (last ?other)" by (simp add: read_back_def)
  have "contained_code ?my ?other = Some (Inr (subjectIsContainedIn s other))"
    using contained_loop.ends [of ?my ?other 0] len
    by (simp add: contained_code_def subjectIsContainedIn_def final contained_inv_def word_less_nat_alt unat_vsize Let_def)
  then show ?thesis by (simp add: subjectIsContainedIn_code_def split_ends [OF assms(1)] split_ends [OF assms(2)])
qed

section \<open>Properties\<close>

text \<open>
  C13: The codec's loops. Encoding every byte vector and decoding every string that fit into memory ends: the
  64-bit index never wraps, nothing is read outside the input, and the result, or the error, is the one of
  the recursions over the rest of the input that the other properties are about.
\<close>

theorem codec_loops_end:
  assumes "length data < 2 ^ 63" and "length input < 2 ^ 63"
  shows "base64url_encode_code data = Some (Inr (base64url_encode data)) \<and>
    base64url_decode_code input = Some (base64url_decode input)"
  using encode_ends [OF assms(1)] decode_ends [OF assms(2)] by simp

lemma codec_loops_end_witness:
  "base64url_encode_code [77, 97] = Some (Inr (base64url_encode [77, 97])) \<and>
   base64url_decode_code ''TW=='' = Some (base64url_decode ''TW=='')"
  by (rule codec_loops_end) simp_all

text \<open>
  C29: The loops over subjects. \<open>splitOn\<close> (a \<^verbatim>\<open>while (true)\<close> over the positions \<open>find\<close> returns), \<open>cleanSubject\<close> and
  \<open>subjectIsContainedIn\<close> end on all strings that fit into memory. No position passes the end of the string, so
  no \<open>substr\<close> throws; the tokens of both subjects are indexed inside their vectors, and \<open>back()\<close> is never
  called on an empty one; the results are those of the recursions over tokens.
\<close>

theorem subject_loops_end:
  assumes "length s < 2 ^ 63" and "length other < 2 ^ 63"
  shows "splitOn_code s sep = Some (Inr (splitOn s sep)) \<and>
    cleanSubject_code s = Some (Inr (cleanSubject s)) \<and>
    subjectIsContainedIn_code s other = Some (Inr (subjectIsContainedIn s other))"
  using split_ends [OF assms(1)] clean_ends [OF assms(1)] contained_ends [OF assms] by simp

lemma subject_loops_end_witness:
  "splitOn_code ''a.b'' CHR ''.'' = Some (Inr (splitOn ''a.b'' CHR ''.'')) \<and>
   cleanSubject_code ''a.b'' = Some (Inr (cleanSubject ''a.b'')) \<and>
   subjectIsContainedIn_code ''a.b'' ''a.>'' = Some (Inr (subjectIsContainedIn ''a.b'' ''a.>''))"
  by (rule subject_loops_end) simp_all

end
