(* ===== verification/HashLoops.thy ===== *)
theory HashLoops
  imports IndexLoops Sha2
begin

text \<open>
  The loops of the two hashes and of base32 in \<^verbatim>\<open>src/jwt_utils.cpp\<close> as they are written: offsets of type
  \<^verbatim>\<open>std::size_t\<close> that are subtracted from the size, a pointer into the message, a buffer of two blocks, and
  shifts by an \<^verbatim>\<open>int\<close>. The loop over blocks is shown to end once, in the locale \<open>block_loop\<close>, for both hashes.
\<close>

section \<open>Hashes\<close>

text \<open>
  The loop over full blocks and the code after it, the same in \<open>digest\<close> and \<open>sha256\<close> but for the size \<open>B\<close>
  of a block, the compression and the way the state is printed. The buffer for the last bytes has two
  blocks; \<open>copy_n\<close> and \<open>block[rem] = 0x80\<close> write \<open>rem + 1\<close> bytes of it.
\<close>

definition block_cond :: "size_t \<Rightarrow> byte list \<Rightarrow> 'h \<times> size_t \<Rightarrow> bool" where
  "block_cond B msg st = (case st of (h, off) \<Rightarrow> B \<le> vsize msg - off)"

definition block_body ::
  "('h \<Rightarrow> byte list \<Rightarrow> 'h) \<Rightarrow> size_t \<Rightarrow> byte list \<Rightarrow> 'h \<times> size_t \<Rightarrow> exn + ('h \<times> size_t, byte list) outcome" where
  "block_body compress B msg st =
     (case st of (h, off) \<Rightarrow> bindE (read_range msg off B) (\<lambda>blk. Inr (Continue (compress h blk, off + B))))"

definition block_after ::
  "('h \<Rightarrow> byte list \<Rightarrow> uint64 \<Rightarrow> 'h) \<Rightarrow> size_t \<Rightarrow> ('h \<Rightarrow> byte list) \<Rightarrow> byte list \<Rightarrow> 'h \<times> size_t \<Rightarrow> exn + byte list" where
  "block_after finish B print msg st =
     (case st of (h, off) \<Rightarrow>
        let rem = vsize msg - off
        in bindE (read_range msg off rem) (\<lambda>rest.
           bindE (throw_if (2 * B \<le> rem) (UndefinedBehaviour ''write past the block'')) (\<lambda>_.
             Inr (print (finish h rest (vsize msg * 8))))))"

definition print512 :: "uint64 list \<Rightarrow> byte list" where
  "print512 h = concat (map (\<lambda>i. map (\<lambda>b. ucast (drop_bit (56 - 8 * b) (h ! i))) [0..<8]) [0..<4])"

definition print256 :: "uint32 list \<Rightarrow> byte list" where
  "print256 h = concat (map (\<lambda>i. map (\<lambda>b. ucast (drop_bit (24 - 8 * b) (h ! i))) [0..<4]) [0..<8])"

definition digest512_256_code :: "byte list \<Rightarrow> (exn + byte list) option" where
  "digest512_256_code msg =
     cpp_while (block_cond 128 msg) (block_body compress512 128 msg) (block_after finish512 128 print512 msg)
       (H512_256, 0)"

definition sha256_code :: "byte list \<Rightarrow> (exn + byte list) option" where
  "sha256_code msg =
     cpp_while (block_cond 64 msg) (block_body compress256 64 msg) (block_after finish256 64 print256 msg)
       (H256, 0)"

text \<open>What the loop still has to return.\<close>

definition digest_yields ::
  "('h \<Rightarrow> byte list \<Rightarrow> 'h \<times> byte list) \<Rightarrow> ('h \<Rightarrow> byte list \<Rightarrow> uint64 \<Rightarrow> 'h) \<Rightarrow> ('h \<Rightarrow> byte list) \<Rightarrow>
     byte list \<Rightarrow> 'h \<times> size_t \<Rightarrow> exn + byte list" where
  "digest_yields absorb finish print msg st =
     Inr (print (case absorb (fst st) (drop (unat (snd st)) msg) of (h, rest) \<Rightarrow>
       finish h rest (word_of_nat (length msg) * 8)))"

locale block_loop = block_hash compress absorb finish B L
  for compress :: "'h \<Rightarrow> byte list \<Rightarrow> 'h" and absorb finish and B L :: nat +
  fixes size_B :: size_t and print :: "'h \<Rightarrow> byte list"
  assumes size_B: "unat size_B = B" and small: "B < 2 ^ 32"
begin

lemma rest_of:
  assumes "inside msg off"
  shows "unat (vsize msg - off) = length msg - unat off" and "size_B \<le> vsize msg - off \<longleftrightarrow> B \<le> length msg - unat off"
    and "2 * size_B \<le> vsize msg - off \<longleftrightarrow> 2 * B \<le> length msg - unat off"
proof -
  have "off \<le> vsize msg" using assms by (simp add: inside_def word_le_nat_alt unat_vsize)
  then show u: "unat (vsize msg - off) = length msg - unat off"
    using assms by (simp add: unat_minus inside_def unat_vsize)
  then show "size_B \<le> vsize msg - off \<longleftrightarrow> B \<le> length msg - unat off" by (simp add: word_le_nat_alt size_B)
  have "size_B + size_B = 2 * size_B" by simp
  then have "unat (2 * size_B) = 2 * B"
    using small unat_plus [of size_B size_B] by (simp add: size_B)
  with u show "2 * size_B \<le> vsize msg - off \<longleftrightarrow> 2 * B \<le> length msg - unat off" by (simp add: word_le_nat_alt)
qed

lemma block_round:
  assumes "inside msg off" and "B \<le> length msg - unat off"
  shows "block_body compress size_B msg (h, off) =
      Inr (Continue (compress h (take B (drop (unat off) msg)), off + size_B))"
    and "inside msg (off + size_B)" and "unat (off + size_B) = unat off + B"
proof -
  have B: "unat size_B < 2 ^ 63" using small by (simp add: size_B)
  have le: "unat off + B \<le> length msg" using assms sizes by linarith
  show "block_body compress size_B msg (h, off) =
      Inr (Continue (compress h (take B (drop (unat off) msg)), off + size_B))"
    using le by (simp add: block_body_def read_range_def size_B)
  show "inside msg (off + size_B)" using inside_step [OF assms(1) B] le by (simp add: size_B)
  show "unat (off + size_B) = unat off + B" using inside_plus [OF assms(1) B] by (simp add: size_B)
qed

end

sublocale block_loop \<subseteq> bounded_loop "block_cond size_B msg" "block_body compress size_B msg"
  "block_after finish size_B print msg" "\<lambda>st. inside msg (snd st)" "\<lambda>st. length msg - unat (snd st)" "digest_yields absorb finish print msg"
  for msg
proof
  fix st :: "'h \<times> size_t"
  obtain h off where st: "st = (h, off)" by (cases st)
  assume "inside msg (snd st)"
  then have i: "inside msg off" by (simp add: st)
  let ?rest = "drop (unat off) msg"
  {
    assume "block_cond size_B msg st"
    then have B: "B \<le> length msg - unat off" by (simp add: block_cond_def st rest_of [OF i])
    have "absorb h ?rest = absorb (compress h (take B ?rest)) (drop (unat off + B) msg)"
      using B by (subst absorb) (simp add: add.commute)
    moreover have "length msg - (unat off + B) < length msg - unat off" using B sizes by linarith
    ultimately show "case block_body compress size_B msg st of
        Inl e \<Rightarrow> digest_yields absorb finish print msg st = Inl e
      | Inr oc \<Rightarrow> (case oc of
          Leave r \<Rightarrow> digest_yields absorb finish print msg st = Inr r
        | Continue s' \<Rightarrow> inside msg (snd s') \<and> length msg - unat (snd s') < length msg - unat (snd st) \<and>
            digest_yields absorb finish print msg s' = digest_yields absorb finish print msg st)"
      using block_round [OF i B] by (simp add: st digest_yields_def)
  next
    assume "\<not> block_cond size_B msg st"
    then have B: "\<not> B \<le> length msg - unat off" by (simp add: block_cond_def st rest_of [OF i])
    then have "absorb h ?rest = (h, ?rest)" by (subst absorb) simp
    moreover have "read_range msg off (vsize msg - off) = Inr ?rest"
      using i by (simp add: read_range_def rest_of inside_def)
    moreover have "\<not> 2 * size_B \<le> vsize msg - off" using B by (simp add: rest_of [OF i])
    moreover have "vsize msg * 8 = word_of_nat (length msg) * 8" by (simp add: vsize_def)
    ultimately show "block_after finish size_B print msg st = digest_yields absorb finish print msg st"
      by (simp add: st block_after_def digest_yields_def Let_def)
  }
qed

interpretation loop512: block_loop compress512 absorb512 finish512 128 16 128 print512
  by unfold_locales simp_all

interpretation loop256: block_loop compress256 absorb256 finish256 64 8 64 print256
  by unfold_locales simp_all

lemma hashes_end:
  assumes "addressable msg"
  shows "digest512_256_code msg = Some (Inr (digest512_256 msg))" and "sha256_code msg = Some (Inr (sha256 msg))"
  using loop512.ends [of msg "(H512_256, 0)"] loop256.ends [of msg "(H256, 0)"] assms
  by (simp_all add: digest512_256_code_def sha256_code_def digest_yields_def inside_def
      digest512_256_def sha256_def print512_def print256_def Let_def split: prod.splits)

section \<open>Base32\<close>

text \<open>Shifts of a 32-bit value by an \<open>int\<close>.\<close>

definition shift_right :: "uint32 \<Rightarrow> int \<Rightarrow> exn + uint32" where
  "shift_right w n =
     (if 0 \<le> n \<and> n < 32 then Inr (drop_bit (nat n) w) else Inl (UndefinedBehaviour ''shift out of range''))"

definition shift_left :: "uint32 \<Rightarrow> int \<Rightarrow> exn + uint32" where
  "shift_left w n =
     (if 0 \<le> n \<and> n < 32 then Inr (push_bit (nat n) w) else Inl (UndefinedBehaviour ''shift out of range''))"

text \<open>\<open>while (bits >= 5) { bits -= 5; out.push_back(\<dots>); }\<close>\<close>

definition drain_body :: "uint32 \<Rightarrow> int \<times> string \<Rightarrow> exn + (int \<times> string, int \<times> string) outcome" where
  "drain_body buffer st =
     (case st of (bits, out) \<Rightarrow>
        bindE (shift_right buffer (bits - 5)) (\<lambda>w. Inr (Continue (bits - 5, out @ [base32_char w]))))"

definition drain_code :: "uint32 \<Rightarrow> int \<times> string \<Rightarrow> (exn + (int \<times> string)) option" where
  "drain_code buffer = cpp_while (\<lambda>st. 5 \<le> fst st) (drain_body buffer) Inr"

text \<open>The loop over the bytes, and the last character.\<close>

fun base32_loop_code :: "uint32 \<Rightarrow> int \<Rightarrow> string \<Rightarrow> byte list \<Rightarrow> (exn + string) option" where
  "base32_loop_code buffer bits out [] =
     (if 0 < bits then Some (bindE (shift_left buffer (5 - bits)) (\<lambda>w. Inr (out @ [base32_char w])))
      else Some (Inr out))"
| "base32_loop_code buffer bits out (byte # bytes) =
     (let buffer1 = push_bit 8 buffer OR ucast byte
      in then_run (drain_code buffer1 (bits + 8, out)) (\<lambda>(bits1, out1). base32_loop_code buffer1 bits1 out1 bytes))"

definition pad_code :: "string \<Rightarrow> (exn + string) option" where
  "pad_code = cpp_while (\<lambda>out. vsize out mod 8 \<noteq> 0) (\<lambda>out. Inr (Continue (out @ ''=''))) Inr"

definition base32StdPadded_code :: "byte list \<Rightarrow> (exn + string) option" where
  "base32StdPadded_code bytes = then_run (base32_loop_code 0 0 [] bytes) pad_code"

definition computeJti_code :: "string \<Rightarrow> (exn + string) option" where
  "computeJti_code payloadJsonWithoutJti =
     then_run (digest512_256_code (bytes_of payloadJsonWithoutJti)) (base32_loop_code 0 0 [])"

definition drain_yields :: "uint32 \<Rightarrow> int \<times> string \<Rightarrow> exn + (int \<times> string)" where
  "drain_yields buffer st =
     (case drain buffer (nat (fst st)) of (cs, bits) \<Rightarrow> Inr (int bits, snd st @ cs))"

interpretation drain_loop: bounded_loop "\<lambda>st. 5 \<le> fst st" "drain_body buffer" Inr
  "\<lambda>st. 0 \<le> fst st \<and> fst st < 37" "\<lambda>st. nat (fst st)" "drain_yields buffer" for buffer
proof
  fix st :: "int \<times> string"
  obtain bits out where st: "st = (bits, out)" by (cases st)
  assume "0 \<le> fst st \<and> fst st < 37"
  then have b: "0 \<le> bits" "bits < 37" by (simp_all add: st)
  note d = drain.simps [of buffer "nat bits"]
  {
    assume "5 \<le> fst st"
    then have "5 \<le> bits" "5 \<le> nat bits" "nat bits - 5 = nat (bits - 5)" using b by (simp_all add: st)
    then show "case drain_body buffer st of
        Inl e \<Rightarrow> drain_yields buffer st = Inl e
      | Inr oc \<Rightarrow> (case oc of
          Leave r \<Rightarrow> drain_yields buffer st = Inr r
        | Continue s' \<Rightarrow> (0 \<le> fst s' \<and> fst s' < 37) \<and> nat (fst s') < nat (fst st) \<and>
            drain_yields buffer s' = drain_yields buffer st)"
      using b by (auto simp: st drain_body_def shift_right_def drain_yields_def d split: prod.splits)
  next
    assume "\<not> 5 \<le> fst st"
    then have "\<not> 5 \<le> nat bits" by (simp add: st)
    then show "Inr st = drain_yields buffer st" using b by (simp add: st drain_yields_def d)
  }
qed

lemma drain_bits: "drain buffer bits = (cs, bits') \<Longrightarrow> bits' < 5"
  by (induction buffer bits arbitrary: cs rule: drain.induct)
     (subst (asm) (2) drain.simps, auto split: if_splits prod.splits)

lemma base32_loop_ends:
  "bits < 5 \<Longrightarrow> base32_loop_code buffer (int bits) out bytes = Some (Inr (out @ base32_loop buffer bits bytes))"
proof (induction bytes arbitrary: buffer bits out)
  case Nil
  then show ?case by (simp add: shift_left_def nat_diff_distrib')
next
  case (Cons byte bytes)
  let ?b = "push_bit 8 buffer OR ucast byte"
  obtain cs bits' where d: "drain ?b (bits + 8) = (cs, bits')" by (cases "drain ?b (bits + 8)")
  have "drain_code ?b (int bits + 8, out) = Some (Inr (int bits', out @ cs))"
    using drain_loop.ends [of "(int bits + 8, out)" ?b] Cons.prems d
    by (simp add: drain_code_def drain_yields_def nat_add_distrib)
  then show ?case using Cons.IH [OF drain_bits [OF d]] d by (simp add: Let_def)
qed

interpretation pad_loop: bounded_loop "\<lambda>out. vsize out mod 8 \<noteq> 0" "\<lambda>out. Inr (Continue (out @ ''=''))" Inr
  "\<lambda>out. length out + (8 - length out mod 8) mod 8 < 2 ^ 64" "\<lambda>out. (8 - length out mod 8) mod 8"
  "\<lambda>out. Inr (pad8 out)"
proof
  fix out :: string
  assume len: "length out + (8 - length out mod 8) mod 8 < 2 ^ 64"
  then have "length out < 2 ^ 64" by linarith
  then have "unat (vsize out mod 8) = length out mod 8" by (simp add: unat_mod_distrib unat_vsize)
  then have size: "vsize out mod 8 = 0 \<longleftrightarrow> length out mod 8 = 0" by (metis unat_eq_zero)
  {
    assume "vsize out mod 8 \<noteq> 0"
    then have ne: "length out mod 8 \<noteq> 0" by (simp add: size)
    have step: "Suc ((8 - length (out @ ''='') mod 8) mod 8) = (8 - length out mod 8) mod 8"
      using ne by (auto simp: mod_Suc Suc_diff_Suc)
    have "length (out @ ''='') + (8 - length (out @ ''='') mod 8) mod 8 < 2 ^ 64"
      using step len by (simp only: length_append list.size)
    moreover have "(8 - length (out @ ''='') mod 8) mod 8 < (8 - length out mod 8) mod 8" using step by linarith
    moreover have "pad8 (out @ ''='') = pad8 out" using ne by (simp add: pad8.simps [of out])
    ultimately show "case Inr (Continue (out @ ''='')) of
        Inl e \<Rightarrow> Inr (pad8 out) = Inl e
      | Inr oc \<Rightarrow> (case oc of
          Leave r \<Rightarrow> Inr (pad8 out) = Inr r
        | Continue s' \<Rightarrow> length s' + (8 - length s' mod 8) mod 8 < 2 ^ 64 \<and>
            (8 - length s' mod 8) mod 8 < (8 - length out mod 8) mod 8 \<and> Inr (pad8 s') = Inr (pad8 out))"
      by (simp only: sum.case outcome.case simp_thms)
  next
    assume "\<not> vsize out mod 8 \<noteq> 0"
    then show "Inr out = Inr (pad8 out)" by (simp add: size pad8.simps [of out])
  }
qed

lemma base32_ends:
  assumes "length bytes < 2 ^ 60"
  shows "base32StdPadded_code bytes = Some (Inr (base32StdPadded bytes))"
proof -
  let ?out = "base32_loop 0 0 bytes"
  have "length ?out = (8 * length bytes + 4) div 5" by (rule length_base32_loop)
  moreover have "(8 - length ?out mod 8) mod 8 < 8" by simp
  moreover have "(8 * length bytes + 4) div 5 \<le> 8 * length bytes + 4" by (rule div_le_dividend)
  moreover have "8 * length bytes + 12 < 2 ^ 64" using assms by simp
  ultimately have "length ?out + (8 - length ?out mod 8) mod 8 < 2 ^ 64" by linarith
  then show ?thesis
    using pad_loop.ends [of ?out] base32_loop_ends [of 0 0 "[]" bytes]
    by (simp add: base32StdPadded_code_def pad_code_def base32StdPadded_def)
qed

section \<open>Properties\<close>

text \<open>
  C15: The loops of the hashes and of base32. Both digests of every message that fits into memory, the claim id
  of every payload and the base32 text of every shorter vector are computed in finitely many steps: the
  unsigned difference of size and offset never wraps, every block lies inside the message, the last bytes fit
  into the buffer of two blocks, every shift is within the width of the word, and the results are those of
  the recursions the standards are proved of.
\<close>

theorem hash_loops_end:
  assumes "length msg < 2 ^ 63" and "length payload < 2 ^ 63" and "length bytes < 2 ^ 60"
  shows "digest512_256_code msg = Some (Inr (digest512_256 msg)) \<and>
    sha256_code msg = Some (Inr (sha256 msg)) \<and>
    computeJti_code payload = Some (Inr (computeJti payload)) \<and>
    base32StdPadded_code bytes = Some (Inr (base32StdPadded bytes))"
proof (intro conjI)
  show "digest512_256_code msg = Some (Inr (digest512_256 msg))" "sha256_code msg = Some (Inr (sha256 msg))"
    using hashes_end [OF assms(1)] .
  show "computeJti_code payload = Some (Inr (computeJti payload))"
    using hashes_end(1) [of "bytes_of payload"] assms(2) base32_loop_ends [of 0 0 "[]"]
    by (simp add: computeJti_code_def computeJti_def)
  show "base32StdPadded_code bytes = Some (Inr (base32StdPadded bytes))" by (rule base32_ends [OF assms(3)])
qed

lemma hash_loops_end_witness:
  "digest512_256_code [1] = Some (Inr (digest512_256 [1])) \<and> sha256_code [1] = Some (Inr (sha256 [1])) \<and>
   computeJti_code ''{}'' = Some (Inr (computeJti ''{}'')) \<and>
   base32StdPadded_code [102] = Some (Inr (base32StdPadded [102]))"
  by (rule hash_loops_end) simp_all

end
