(* ===== verification/ProgramLoops.thy ===== *)
theory ProgramLoops
  imports Loops Validation CmdArgs
begin

text \<open>
  Two more loops over indices as they are written: the loop over \<open>argv\<close> in \<^verbatim>\<open>src/tools/cmd_args.hpp\<close>, which
  looks ahead and moves its own index, in \<open>int\<close> arithmetic whose overflow is undefined; and the two loops of
  \<open>validateChain\<close> in \<^verbatim>\<open>src/validation.cpp\<close> over the tokens and over adjacent claims.
\<close>

section \<open>The command line\<close>

text \<open>\<open>argv[i]\<close> for an \<open>int\<close>, and sums of \<open>int\<close>.\<close>

definition arg_at :: "string list \<Rightarrow> int \<Rightarrow> exn + string" where
  "arg_at argv i =
     (if 0 \<le> i \<and> i < int (length argv) then Inr (argv ! nat i)
      else Inl (UndefinedBehaviour ''argv out of range''))"

definition add_int :: "int \<Rightarrow> int \<Rightarrow> exn + int" where
  "add_int a b =
     (if - (2 ^ 31) \<le> a + b \<and> a + b < 2 ^ 31 then Inr (a + b) else Inl (UndefinedBehaviour ''int overflow''))"

text \<open>The value after an option without one of its own, and the index of the last argument used.\<close>

definition value_code :: "string list \<Rightarrow> int \<Rightarrow> exn + (string \<times> int)" where
  "value_code argv i =
     bindE (add_int i 2) (\<lambda>i2.
     bindE (if i2 < int (length argv)
            then bindE (add_int i 1) (\<lambda>i1. bindE (arg_at argv i1) (\<lambda>a. Inr (a = ''='')))
            else Inr False) (\<lambda>assigned.
       if assigned then bindE (arg_at argv i2) (\<lambda>v. Inr (v, i2))
       else
         bindE (add_int i 1) (\<lambda>i1.
         bindE (if i1 < int (length argv)
                then bindE (arg_at argv i1) (\<lambda>a. Inr (\<not> dash a \<and> a \<noteq> ''=''))
                else Inr False) (\<lambda>plain.
           if plain then bindE (arg_at argv i1) (\<lambda>v. Inr (v, i1)) else Inr (''true'', i)))))"

definition long_code :: "string \<Rightarrow> string list \<Rightarrow> int \<Rightarrow> cmd_args \<Rightarrow> exn + (cmd_args \<times> int)" where
  "long_code rest argv i r =
     (case find_char CHR ''='' rest of
        Some eq \<Rightarrow> Inr (put (trim (substr rest 0 eq)) (or_true (trim (drop (eq + 1) rest))) r, i)
      | None \<Rightarrow> bindE (value_code argv i) (\<lambda>(v, i'). Inr (put (trim rest) v r, i')))"

definition short_code :: "string \<Rightarrow> string list \<Rightarrow> int \<Rightarrow> cmd_args \<Rightarrow> exn + (cmd_args \<times> int)" where
  "short_code s argv i r =
     (case find_char CHR ''='' s of
        Some (Suc n) \<Rightarrow> Inr (put [hd s] (or_true (drop (Suc n + 1) s)) r, i)
      | _ \<Rightarrow>
          if 1 < length s then Inr (fold (\<lambda>ch. put [ch] ''true'') s r, i)
          else bindE (value_code argv i) (\<lambda>(v, i'). Inr (put s v r, i')))"

definition parse_body :: "string list \<Rightarrow> int \<times> cmd_args \<Rightarrow> exn + (int \<times> cmd_args, cmd_args) outcome" where
  "parse_body argv st =
     (case st of (i, r) \<Rightarrow>
        bindE (arg_at argv i) (\<lambda>arg.
        bindE (if starts_with arg ''--'' then long_code (drop 2 arg) argv i r
               else if 2 \<le> length arg \<and> arg ! 0 = CHR ''-'' \<and> arg ! 1 \<noteq> CHR ''-''
               then short_code (drop 1 arg) argv i r
               else Inr (r\<lparr>positional := positional r @ [trim arg]\<rparr>, i)) (\<lambda>(r', i').
        bindE (add_int i' 1) (\<lambda>i''. Inr (Continue (i'', r'))))))"

definition parse_code :: "string list \<Rightarrow> (exn + cmd_args) option" where
  "parse_code argv =
     cpp_while (\<lambda>(i, r). i < int (length argv)) (parse_body argv) (\<lambda>(i, r). Inr r)
       (1, \<lparr>options = [], positional = []\<rparr>)"

lemma value_at:
  assumes "0 \<le> i" and "i < int (length argv)" and "length argv \<le> 2 ^ 31 - 2"
  obtains v i' where "value_code argv i = Inr (v, i')" "i \<le> i'" "i' < int (length argv)"
    "next_value (drop (nat i + 1) argv) = (v, drop (nat i' + 1) argv)"
proof -
  let ?n = "nat i"
  have add: "add_int i 1 = Inr (i + 1)" "add_int i 2 = Inr (i + 2)" using assms by (simp_all add: add_int_def)
  have at: "arg_at argv (i + 1) = Inr (argv ! Suc ?n)" if "Suc ?n < length argv"
    using that assms(1) by (auto simp: arg_at_def nat_add_distrib)
  have at2: "arg_at argv (i + 2) = Inr (argv ! Suc (Suc ?n))" if "Suc (Suc ?n) < length argv"
    using that assms(1) by (auto simp: arg_at_def nat_add_distrib)
  have lt: "i + 1 < int (length argv) \<longleftrightarrow> ?n + 1 < length argv" "i + 2 < int (length argv) \<longleftrightarrow> ?n + 2 < length argv"
    using assms(1) by linarith+
  have nats: "nat (i + 1) = ?n + 1" "nat (i + 2) = ?n + 2" using assms(1) by (simp_all add: nat_add_distrib)
  consider (none) "\<not> ?n + 1 < length argv" | (one) "?n + 1 < length argv" "\<not> ?n + 2 < length argv"
    | (two) "?n + 2 < length argv" by linarith
  then show ?thesis
  proof cases
    case none
    then show ?thesis
      using that [of "''true''" i] assms by (simp add: value_code_def add lt next_value_def)
  next
    case one
    then have "drop (?n + 1) argv = [argv ! (?n + 1)]" using drop_at [of "?n + 1" argv] by simp
    then show ?thesis
      using that [of "''true''" i] that [of "argv ! (?n + 1)" "i + 1"] one assms
      by (cases "\<not> dash (argv ! (?n + 1)) \<and> argv ! (?n + 1) \<noteq> ''=''")
         (simp_all add: value_code_def add lt at nats next_value_def)
  next
    case two
    then have "drop (?n + 1) argv = argv ! (?n + 1) # argv ! (?n + 2) # drop (?n + 3) argv"
      using drop_at [of "?n + 1" argv] drop_at [of "?n + 2" argv] by (simp add: numeral_3_eq_3)
    then show ?thesis
      using that [of "''true''" i] that [of "argv ! (?n + 1)" "i + 1"] that [of "argv ! (?n + 2)" "i + 2"] two assms
        drop_at [of "?n + 2" argv]
      by (cases "argv ! (?n + 1) = ''=''"; cases "dash (argv ! (?n + 1))")
         (simp_all add: value_code_def add lt at at2 nats next_value_def numeral_3_eq_3)
  qed
qed

lemma long_code_step:
  assumes "0 \<le> i" and "i < int (length argv)" and "length argv \<le> 2 ^ 31 - 2"
  obtains r' i' where "long_code rest argv i r = Inr (r', i')" "i \<le> i'" "i' < int (length argv)"
    "long_option rest (drop (nat i + 1) argv) r = (r', drop (nat i' + 1) argv)"
proof -
  obtain v i' where "value_code argv i = Inr (v, i')" "i \<le> i'" "i' < int (length argv)"
    "next_value (drop (nat i + 1) argv) = (v, drop (nat i' + 1) argv)"
    by (rule value_at [OF assms])
  then show ?thesis
    using that assms(2) by (cases "find_char CHR ''='' rest") (simp_all add: long_code_def long_option_def)
qed

lemma short_code_step:
  assumes "0 \<le> i" and "i < int (length argv)" and "length argv \<le> 2 ^ 31 - 2"
  obtains r' i' where "short_code s argv i r = Inr (r', i')" "i \<le> i'" "i' < int (length argv)"
    "short_option s (drop (nat i + 1) argv) r = (r', drop (nat i' + 1) argv)"
proof -
  obtain v i' where v: "value_code argv i = Inr (v, i')" "i \<le> i'" "i' < int (length argv)"
    "next_value (drop (nat i + 1) argv) = (v, drop (nat i' + 1) argv)"
    by (rule value_at [OF assms])
  show ?thesis
  proof (cases "\<exists>n. find_char CHR ''='' s = Some (Suc n)")
    case True
    then show ?thesis using that assms(2) by (auto simp: short_code_def short_option_def)
  next
    case False
    then have "short_code s argv i r =
        (if 1 < length s then Inr (fold (\<lambda>ch. put [ch] ''true'') s r, i)
         else bindE (value_code argv i) (\<lambda>(v, i'). Inr (put s v r, i')))"
      and "short_option s (drop (nat i + 1) argv) r =
        (if 1 < length s then (fold (\<lambda>ch. put [ch] ''true'') s r, drop (nat i + 1) argv)
         else (let (v, args') = next_value (drop (nat i + 1) argv) in (put s v r, args')))"
      by (auto simp: short_code_def short_option_def split: option.splits nat.splits)
    then show ?thesis using that v assms(2) by (cases "1 < length s") simp_all
  qed
qed

interpretation parse_loop: bounded_loop "\<lambda>(i, r). i < int (length argv)" "parse_body argv" "\<lambda>(i, r). Inr r"
  "\<lambda>st. 1 \<le> fst st \<and> length argv \<le> 2 ^ 31 - 2" "\<lambda>st. nat (int (length argv) - fst st)"
  "\<lambda>st. Inr (parse_loop (drop (nat (fst st)) argv) (snd st))" for argv
proof
  fix st :: "int \<times> cmd_args"
  obtain i r where st: "st = (i, r)" by (cases st)
  assume "1 \<le> fst st \<and> length argv \<le> 2 ^ 31 - 2"
  then have i: "1 \<le> i" and len: "length argv \<le> 2 ^ 31 - 2" by (simp_all add: st)
  {
    assume "case st of (i, r) \<Rightarrow> i < int (length argv)"
    then have lt: "i < int (length argv)" by (simp add: st)
    have pos: "0 \<le> i" using i by simp
    let ?arg = "argv ! nat i"
    let ?args = "drop (nat i + 1) argv"
    have d: "drop (nat i) argv = ?arg # ?args" using drop_at [of "nat i" argv] lt i by simp
    obtain r' i' where step: "(if starts_with ?arg ''--'' then long_code (drop 2 ?arg) argv i r
        else if 2 \<le> length ?arg \<and> ?arg ! 0 = CHR ''-'' \<and> ?arg ! 1 \<noteq> CHR ''-''
        then short_code (drop 1 ?arg) argv i r
        else Inr (r\<lparr>positional := positional r @ [trim ?arg]\<rparr>, i)) = Inr (r', i')"
      and le: "i \<le> i'" "i' < int (length argv)"
      and ps: "parse_step ?arg ?args r = (r', drop (nat i' + 1) argv)"
    proof -
      consider (long) "starts_with ?arg ''--''"
        | (short) "\<not> starts_with ?arg ''--''" "2 \<le> length ?arg \<and> ?arg ! 0 = CHR ''-'' \<and> ?arg ! 1 \<noteq> CHR ''-''"
        | (plain) "\<not> starts_with ?arg ''--''" "\<not> (2 \<le> length ?arg \<and> ?arg ! 0 = CHR ''-'' \<and> ?arg ! 1 \<noteq> CHR ''-'')"
        by blast
      then show ?thesis
      proof cases
        case long
        then show ?thesis
          using long_code_step [OF pos lt len, of "drop 2 ?arg" r] that by (simp add: parse_step_def) blast
      next
        case short
        then show ?thesis
          using short_code_step [OF pos lt len, of "drop 1 ?arg" r] that by (simp add: parse_step_def) blast
      next
        case plain
        then show ?thesis
          using that [of "r\<lparr>positional := positional r @ [trim ?arg]\<rparr>" i] lt by (simp only: parse_step_def if_False)
      qed
    qed
    have "add_int i' 1 = Inr (i' + 1)" using le len pos by (simp add: add_int_def)
    moreover have "arg_at argv i = Inr ?arg" using lt pos by (simp add: arg_at_def)
    ultimately have body: "parse_body argv st = Inr (Continue (i' + 1, r'))"
      unfolding parse_body_def st prod.case by (simp only: bindE.simps step prod.case)
    have "nat (i' + 1) = nat i' + 1" using le pos by (simp add: nat_add_distrib)
    then have "parse_loop (drop (nat i) argv) r = parse_loop (drop (nat (i' + 1)) argv) r'"
      unfolding d parse_loop.simps(2) ps by simp
    moreover have "nat (int (length argv) - (i' + 1)) < nat (int (length argv) - i)" using le by linarith
    ultimately show "case parse_body argv st of
        Inl e \<Rightarrow> Inr (parse_loop (drop (nat (fst st)) argv) (snd st)) = Inl e
      | Inr oc \<Rightarrow> (case oc of
          Leave x \<Rightarrow> Inr (parse_loop (drop (nat (fst st)) argv) (snd st)) = Inr x
        | Continue s' \<Rightarrow> (1 \<le> fst s' \<and> length argv \<le> 2 ^ 31 - 2) \<and>
            nat (int (length argv) - fst s') < nat (int (length argv) - fst st) \<and>
            Inr (parse_loop (drop (nat (fst s')) argv) (snd s')) = Inr (parse_loop (drop (nat (fst st)) argv) (snd st)))"
      using le i len unfolding body by (simp add: st)
  next
    assume "\<not> (case st of (i, r) \<Rightarrow> i < int (length argv))"
    then have "drop (nat i) argv = []" by (simp add: st)
    then show "(case st of (i, r) \<Rightarrow> Inr r) = Inr (parse_loop (drop (nat (fst st)) argv) (snd st))" by (simp add: st)
  }
qed

lemma parse_ends: "length argv \<le> 2 ^ 31 - 2 \<Longrightarrow> parse_code argv = Some (Inr (parse argv))"
  using parse_loop.ends [of "(1, \<lparr>options = [], positional = []\<rparr>)" argv]
  by (simp add: parse_code_def parse_def drop_Suc)

section \<open>Chains\<close>

text \<open>Validating and decoding every token; the state is \<open>i\<close> and \<open>claimsChain\<close>.\<close>

definition decode_chain_body ::
  "lib \<Rightarrow> int64 \<Rightarrow> ValidationOptions \<Rightarrow> string list \<Rightarrow> size_t \<times> any_claims list \<Rightarrow>
     exn + (size_t \<times> any_claims list, ValidationResult + any_claims list) outcome" where
  "decode_chain_body L now opts jwts st =
     (case st of (i, claimsChain) \<Rightarrow>
        bindE (read_at jwts i) (\<lambda>t.
        bindE (validate L now t opts) (\<lambda>r.
          if \<not> valid r
          then Inr (Leave (Inl (failure
                 (''JWT at index '' @ nat_to_string (unat i) @ '' failed validation: '' @ error_text r))))
          else case decode L t of
                 Inl e \<Rightarrow>
                   (if is_cpp_exception e
                    then Inr (Leave (Inl (failure
                           (''Failed to decode JWT at index '' @ nat_to_string (unat i) @ '': '' @ exn_what L e))))
                    else Inl e)
               | Inr c \<Rightarrow> Inr (Continue (i + 1, claimsChain @ [c])))))"

definition decode_chain_code ::
  "lib \<Rightarrow> int64 \<Rightarrow> ValidationOptions \<Rightarrow> string list \<Rightarrow> (exn + (ValidationResult + any_claims list)) option" where
  "decode_chain_code L now opts jwts =
     cpp_while (\<lambda>(i, cs). i < vsize jwts) (decode_chain_body L now opts jwts) (\<lambda>(i, cs). Inr (Inr cs)) (0, [])"

text \<open>Every claims object against the one before it.\<close>

definition link_body :: "any_claims list \<Rightarrow> size_t \<Rightarrow> exn + (size_t, ValidationResult) outcome" where
  "link_body claimsChain i =
     bindE (read_at claimsChain i) (\<lambda>child.
     bindE (read_at claimsChain (i - 1)) (\<lambda>parent.
       let r = validateIssuerChain child parent
       in if \<not> valid r
          then Inr (Leave (failure
                 (''Chain validation failed at index '' @ nat_to_string (unat i) @ '': '' @ error_text r)))
          else
            let h = validateKeyHierarchy child parent
            in if \<not> valid h
               then Inr (Leave (failure
                      (''Hierarchy validation failed at index '' @ nat_to_string (unat i) @ '': '' @ error_text h)))
               else Inr (Continue (i + 1))))"

definition link_code :: "any_claims list \<Rightarrow> (exn + ValidationResult) option" where
  "link_code claimsChain =
     cpp_while (\<lambda>i. i < vsize claimsChain) (link_body claimsChain) (\<lambda>_. Inr success) 1"

definition validateChain_code ::
  "lib \<Rightarrow> int64 \<Rightarrow> string list \<Rightarrow> ValidationOptions \<Rightarrow> (exn + ValidationResult) option" where
  "validateChain_code L now jwts opts =
     (if jwts = [] then Some (Inr (failure ''Empty JWT chain''))
      else then_run (decode_chain_code L now opts jwts) (\<lambda>d.
        case d of
          Inl f \<Rightarrow> Some (Inr f)
        | Inr cs \<Rightarrow> if checkIssuerChain opts \<and> 1 < vsize cs then link_code cs else Some (Inr success)))"

definition decode_chain_yields ::
  "lib \<Rightarrow> int64 \<Rightarrow> ValidationOptions \<Rightarrow> string list \<Rightarrow> size_t \<times> any_claims list \<Rightarrow>
     exn + (ValidationResult + any_claims list)" where
  "decode_chain_yields L now opts jwts st =
     bindE (decode_chain L now opts (unat (fst st)) (drop (unat (fst st)) jwts)) (\<lambda>d.
       Inr (case d of Inl f \<Rightarrow> Inl f | Inr cs \<Rightarrow> Inr (snd st @ cs)))"

lemma append_decoded:
  "(case (case d of Inl f \<Rightarrow> Inl f | Inr ds \<Rightarrow> Inr (c # ds)) of Inl f \<Rightarrow> Inl f | Inr ds \<Rightarrow> Inr (cs @ ds)) =
   (case d of Inl f \<Rightarrow> Inl f | Inr ds \<Rightarrow> Inr ((cs @ [c]) @ ds))"
  by (cases d) simp_all

interpretation decode_chain_loop: bounded_loop "\<lambda>(i, cs). i < vsize jwts" "decode_chain_body L now opts jwts"
  "\<lambda>(i, cs). Inr (Inr cs)" "\<lambda>st. inside jwts (fst st)" "\<lambda>st. length jwts - unat (fst st)"
  "decode_chain_yields L now opts jwts" for L now opts jwts
proof
  fix st :: "size_t \<times> any_claims list"
  obtain i cs where st: "st = (i, cs)" by (cases st)
  assume "inside jwts (fst st)"
  then have i: "inside jwts i" by (simp add: st)
  {
    assume "case st of (i, cs) \<Rightarrow> i < vsize jwts"
    then have lt: "unat i < length jwts" using inside_less [OF i] by (simp add: st)
    let ?t = "jwts ! unat i"
    let ?rest = "decode_chain L now opts (Suc (unat i)) (drop (Suc (unat i)) jwts)"
    have succ: "unat (i + 1) = Suc (unat i)" using inside_plus [OF i, of 1] by simp
    have y: "decode_chain_yields L now opts jwts st =
        bindE (decode_chain L now opts (unat i) (?t # drop (Suc (unat i)) jwts)) (\<lambda>d.
          Inr (case d of Inl f \<Rightarrow> Inl f | Inr ds \<Rightarrow> Inr (cs @ ds)))"
      unfolding decode_chain_yields_def st fst_conv snd_conv drop_at [OF lt] ..
    have body: "decode_chain_body L now opts jwts st =
        bindE (validate L now ?t opts) (\<lambda>r.
          if \<not> valid r
          then Inr (Leave (Inl (failure
                 (''JWT at index '' @ nat_to_string (unat i) @ '' failed validation: '' @ error_text r))))
          else case decode L ?t of
                 Inl e \<Rightarrow>
                   (if is_cpp_exception e
                    then Inr (Leave (Inl (failure
                           (''Failed to decode JWT at index '' @ nat_to_string (unat i) @ '': '' @ exn_what L e))))
                    else Inl e)
               | Inr c \<Rightarrow> Inr (Continue (i + 1, cs @ [c])))"
      unfolding decode_chain_body_def st prod.case read_in [OF lt] bindE.simps ..
    have "inside jwts (i + 1)" using inside_step [OF i, of 1] lt by simp
    moreover have "length jwts - unat (i + 1) < length jwts - unat i" unfolding succ using lt by linarith
    moreover have "decode_chain_yields L now opts jwts (i + 1, cs @ [c]) =
        bindE (bindE ?rest (\<lambda>rest. Inr (case rest of Inl f \<Rightarrow> Inl f | Inr ds \<Rightarrow> Inr (c # ds)))) (\<lambda>d.
          Inr (case d of Inl f \<Rightarrow> Inl f | Inr ds \<Rightarrow> Inr (cs @ ds)))" for c
      unfolding decode_chain_yields_def fst_conv snd_conv succ bindE_assoc bindE.simps append_decoded ..
    ultimately show "case decode_chain_body L now opts jwts st of
        Inl e \<Rightarrow> decode_chain_yields L now opts jwts st = Inl e
      | Inr oc \<Rightarrow> (case oc of
          Leave x \<Rightarrow> decode_chain_yields L now opts jwts st = Inr x
        | Continue s' \<Rightarrow> inside jwts (fst s') \<and> length jwts - unat (fst s') < length jwts - unat (fst st) \<and>
            decode_chain_yields L now opts jwts s' = decode_chain_yields L now opts jwts st)"
      unfolding body y
      by (cases "validate L now ?t opts"; cases "decode L ?t") (simp_all add: st)
  next
    assume "\<not> (case st of (i, cs) \<Rightarrow> i < vsize jwts)"
    then have "drop (unat i) jwts = []" using inside_less [OF i] by (simp add: st)
    then show "(case st of (i, cs) \<Rightarrow> Inr (Inr cs)) = decode_chain_yields L now opts jwts st"
      by (simp add: st decode_chain_yields_def)
  }
qed

lemma decode_chain_ends: "addressable jwts \<Longrightarrow> decode_chain_code L now opts jwts = Some (decode_chain L now opts 0 jwts)"
proof -
  assume "addressable jwts"
  then have "decode_chain_code L now opts jwts = Some (decode_chain_yields L now opts jwts (0, []))"
    unfolding decode_chain_code_def by (intro decode_chain_loop.ends) (simp add: inside_def)
  moreover have "decode_chain_yields L now opts jwts (0, []) = decode_chain L now opts 0 jwts"
    by (cases "decode_chain L now opts 0 jwts") (auto simp: decode_chain_yields_def split: sum.split)
  ultimately show ?thesis by simp
qed

lemma decode_chain_length: "decode_chain L now opts i ts = Inr (Inr cs) \<Longrightarrow> length cs = length ts"
  using decode_chain_decodes(1) by (metis list_all2_lengthD)

interpretation link_loop: bounded_loop "\<lambda>i. i < vsize cs" "link_body cs" "\<lambda>_. Inr success"
  "\<lambda>i. inside cs i \<and> 0 < unat i" "\<lambda>i. length cs - unat i"
  "\<lambda>i. Inr (link_chain (unat i) (drop (unat i - 1) cs))" for cs
proof
  fix i
  assume inv: "inside cs i \<and> 0 < unat i"
  then have i: "inside cs i" and pos: "0 < unat i" by simp_all
  have prev: "unat (i - 1) = unat i - 1" using pos by (subst unat_minus) (simp_all add: word_le_nat_alt)
  {
    assume "i < vsize cs"
    then have lt: "unat i < length cs" using inside_less [OF i] by simp
    have lt': "unat (i - 1) < length cs" using lt by (simp add: prev)
    let ?parent = "cs ! (unat i - 1)"
    let ?child = "cs ! unat i"
    have succ: "unat (i + 1) = Suc (unat i)" using inside_plus [OF i, of 1] by simp
    have d: "drop (unat i - 1) cs = ?parent # ?child # drop (Suc (unat i)) cs"
      using drop_at [of "unat i - 1" cs] drop_at [OF lt] lt pos by simp
    have d': "drop (unat (i + 1) - 1) cs = ?child # drop (Suc (unat i)) cs"
      using drop_at [OF lt] by (simp add: succ)
    have body: "link_body cs i =
       (let r = validateIssuerChain ?child ?parent
        in if \<not> valid r
           then Inr (Leave (failure
                  (''Chain validation failed at index '' @ nat_to_string (unat i) @ '': '' @ error_text r)))
           else
             let h = validateKeyHierarchy ?child ?parent
             in if \<not> valid h
                then Inr (Leave (failure
                       (''Hierarchy validation failed at index '' @ nat_to_string (unat i) @ '': '' @ error_text h)))
                else Inr (Continue (i + 1)))"
      unfolding link_body_def read_in [OF lt] read_in [OF lt'] bindE.simps prev ..
    have "inside cs (i + 1)" using inside_step [OF i, of 1] lt by simp
    moreover have "length cs - unat (i + 1) < length cs - unat i" unfolding succ using lt by linarith
    moreover have "link_chain (unat (i + 1)) (drop (unat (i + 1) - 1) cs) =
        link_chain (unat i + 1) (?child # drop (Suc (unat i)) cs)"
      unfolding d' by (simp add: succ)
    ultimately show "case link_body cs i of
        Inl e \<Rightarrow> Inr (link_chain (unat i) (drop (unat i - 1) cs)) = Inl e
      | Inr oc \<Rightarrow> (case oc of
          Leave x \<Rightarrow> Inr (link_chain (unat i) (drop (unat i - 1) cs)) = Inr x
        | Continue s' \<Rightarrow> (inside cs s' \<and> 0 < unat s') \<and> length cs - unat s' < length cs - unat i \<and>
            Inr (link_chain (unat s') (drop (unat s' - 1) cs)) = Inr (link_chain (unat i) (drop (unat i - 1) cs)))"
      unfolding body d link_chain.simps(1) Let_def
      by (cases "valid (validateIssuerChain ?child ?parent)"; cases "valid (validateKeyHierarchy ?child ?parent)")
         (simp_all add: succ)
  next
    assume "\<not> i < vsize cs"
    then have "length cs = unat i" using inside_less [OF i] i by (simp add: inside_def)
    then have "drop (unat i - 1) cs = [cs ! (unat i - 1)]" using drop_at [of "unat i - 1" cs] pos by simp
    then show "Inr success = Inr (link_chain (unat i) (drop (unat i - 1) cs))" by simp
  }
qed

lemma chain_ends:
  assumes "addressable jwts"
  shows "validateChain_code L now jwts opts = Some (validateChain L now jwts opts)"
proof (cases "decode_chain L now opts 0 jwts")
  case (Inl e)
  then show ?thesis
    by (simp add: validateChain_code_def validateChain_def decode_chain_ends [OF assms])
next
  case (Inr d)
  show ?thesis
  proof (cases d)
    case (Inl f)
    then show ?thesis
      by (simp add: validateChain_code_def validateChain_def decode_chain_ends [OF assms] Inr)
  next
    case d: (Inr cs)
    then have len: "length cs = length jwts" using Inr decode_chain_length by blast
    then have "vsize cs = vsize jwts" and fits: "addressable cs" using assms by (simp_all add: vsize_def)
    then have more: "1 < vsize cs \<longleftrightarrow> 1 < length cs"
      using assms len by (simp add: word_less_nat_alt unat_vsize)
    have "1 < length cs \<Longrightarrow> link_code cs = Some (Inr (link_chain 1 cs))"
      using link_loop.ends [of cs 1] fits by (simp add: link_code_def inside_def)
    then show ?thesis
      by (simp add: validateChain_code_def validateChain_def decode_chain_ends [OF assms] Inr d more)
  qed
qed

section \<open>Properties\<close>

text \<open>
  C23: The loops over the command line and over chains. Parsing \<open>argv\<close> ends for every command line of up to
  \<open>2 ^ 31 - 2\<close> arguments: the index, which an option with a value moves on, passes no argument twice and reads
  none past the end, and no \<open>int\<close> overflows. \<open>validateChain\<close> ends for every vector of tokens: \<open>claimsChain[i]\<close> and
  \<open>claimsChain[i - 1]\<close> are inside the vector. Both return what the recursions of the model return.
\<close>

theorem program_loops_end:
  assumes "length argv \<le> 2 ^ 31 - 2" and "length jwts < 2 ^ 63"
  shows "parse_code argv = Some (Inr (parse argv)) \<and>
    validateChain_code L now jwts opts = Some (validateChain L now jwts opts)"
  using parse_ends [OF assms(1)] chain_ends [OF assms(2)] by simp

lemma program_loops_end_witness:
  "parse_code [''jwt'', ''--out'', ''='', ''o.jwt''] = Some (Inr (parse [''jwt'', ''--out'', ''='', ''o.jwt''])) \<and>
   validateChain_code demo_chain_lib 7 [demo_token ''O1''] strict =
     Some (validateChain demo_chain_lib 7 [demo_token ''O1''] strict)"
  by (rule program_loops_end) simp_all

end
