(* ===== verification/Spec2Isabelle.thy ===== *)
theory Spec2Isabelle
  imports Base64Url Sha2 Results Subjects Tags Envelope Permissions ClaimsBase UserClaims
    OperatorClaims ActivationClaims AccountProps GenericClaims AuthResponse Decode Validation
    Creds CmdArgs ToolMain AccountAccepts Minting Trust WellFormed
    IndexLoops HashLoops ProgramLoops
begin

text \<open>
  A model of the library \<^verbatim>\<open>nats-jwt-cpp\<close> (JSON web tokens of NATS) and of its command line tool, with
  the theorems that make them correct. Definitions are translated from the C++ files under \<^verbatim>\<open>src/\<close>, in
  the order the code has them and under its names; paths below are relative to that directory.

  \<^bold>\<open>The program.\<close> A token is three base64url chunks \<^verbatim>\<open>header.payload.signature\<close>; the payload is a JSON
  object that names an issuer and a subject, both public nkeys, and the signature is the issuer's. An
  operator vouches for accounts, an account for users, either directly or through signing keys; a signing
  key of an account may have a scope, a template of permissions for the users it signs. Each class of
  claims has a constructor and setters, a report (\<open>validate(ValidationResults&)\<close>), an encoder that stamps
  issuer and time, checks the object, serializes and signs it, and a decoder. Every typed decoder goes
  through \<open>decodeEnvelope\<close>, which checks the header, the version and the signature and migrates payloads
  of version 1. Above the classes are \<open>decode\<close> (dispatch on the type of the payload), \<open>verify\<close>, the
  validation of tokens and chains, the credential files, and the tool.

  \<^bold>\<open>Theories\<close>, each after those it uses:

  \<^item> \<open>Prelude\<close>: machine integers, the exceptions as one datatype \<open>exn\<close>, sequencing \<open>bindE\<close> of steps of
    type \<open>exn + 'a\<close>, the parts of \<^verbatim>\<open>std::string\<close> in use. \<open>StdMap\<close>: \<^verbatim>\<open>std::map\<close> with string keys (locales
    \<open>string_map\<close>, \<open>ordered_map\<close>). \<open>Json\<close>: JSON values and accessors, the strict field readers and
    \<open>guardJson\<close> of \<^verbatim>\<open>src/jwt_utils.hpp\<close>; the record \<open>lib\<close> of what is not in the repository; locale
    \<open>json_codec\<close> for a writer and its reader.
  \<^item> \<open>Base64Url\<close> (\<^verbatim>\<open>src/base64url.cpp\<close>), \<open>Sha2\<close> (both hashes and base32 of \<^verbatim>\<open>src/jwt_utils.cpp\<close>; locale
    \<open>block_hash\<close>): round trips, canonicity, equality with the standard's definition.
  \<^item> \<open>Results\<close> (\<^verbatim>\<open>include/jwt/validation_results.hpp\<close>; locale \<open>reporter\<close>), \<open>Subjects\<close>
    (\<^verbatim>\<open>src/subject_utils.hpp\<close>), \<open>Tags\<close> (\<^verbatim>\<open>src/claims.cpp\<close>): closed forms of what passes.
  \<^item> \<open>Envelope\<close> (\<^verbatim>\<open>src/jwt_utils.cpp\<close>): parsing, signing, verification, \<open>decodeEnvelope\<close>, \<open>migrateV1\<close>. Its
    lemmas are about the relation \<open>wire\<close> (a token consists of these chunks, with this algorithm and this
    payload) and \<open>authentic\<close> (the signature verifies under the issuer by the rule of the version).
  \<^item> \<open>Permissions\<close> (\<^verbatim>\<open>include/jwt/permissions.hpp\<close>, \<^verbatim>\<open>src/scope_serialization.hpp\<close>).
  \<^item> \<open>ClaimsBase\<close> (\<^verbatim>\<open>include/jwt/claims.hpp\<close> and the parts each \<^verbatim>\<open>*_claims.cpp\<close> repeats): the record \<open>base\<close>
    that every class extends; the locales \<open>claims_decoder\<close> (a decoder that reads an authenticated
    payload), \<open>claims_encoder\<close>, and \<open>claims_class\<close> (decoding inverts encoding).
  \<^item> \<open>UserClaims\<close>, \<open>OperatorClaims\<close>, \<open>ActivationClaims\<close>, \<open>GenericClaims\<close>, \<open>AuthRequest\<close>, \<open>AuthResponse\<close>
    and \<open>AccountData\<close>, \<open>AccountState\<close>, \<open>AccountChecks\<close>, \<open>AccountClaims\<close>, \<open>AccountProps\<close>: the classes, each
    with its record, setters, checks, encoder and decoder, and an interpretation of the locales on them.
    Round trips, what a report contains, the invariant of accounts, revocations against the set of
    revoked (key, issue time) pairs they stand for, sealed authorization requests.
  \<^item> \<open>Decode\<close> (\<^verbatim>\<open>src/jwt.cpp\<close>), \<open>Validation\<close> (\<^verbatim>\<open>src/validation.cpp\<close>), \<open>Creds\<close> (\<^verbatim>\<open>src/creds.cpp\<close> and
    \<open>formatUserConfig\<close>), \<open>CmdArgs\<close> and \<open>ToolMain\<close> (\<^verbatim>\<open>src/tools/\<close>): the composition. Whatever is decoded is
    authenticated, what an accepted chain guarantees, an issued user is one its account vouches for, a
    token the tool wrote is one it verifies, and how every run of the tool ends.
  \<^item> \<open>AccountAccepts\<close>: the checks of an account in closed form, without the running state, the clock and the
    order of its lists. \<open>Minting\<close> (the virtual encoders of \<^verbatim>\<open>include/jwt/claims.hpp\<close>; locales \<open>minting\<close> and
    \<open>checked_class\<close>, interpreted for each class): what an encoder made is decoded, verified and validated.
  \<^item> \<open>Trust\<close>: the chains that can be made by encoding, as the inductive relation \<open>issued\<close>; all of them pass
    \<open>validateChain\<close>. Together with \<open>validated_chain\<close> in \<open>Validation\<close> this is what the checks of a chain
    guarantee and what they let through. \<open>WellFormed\<close>: what a decoder returns satisfies the invariant of its
    class, whatever was on the wire, and can be signed anew.
  \<^item> \<open>Loops\<close> (partial function \<open>cpp_while\<close>, locale \<open>bounded_loop\<close>), \<open>IndexLoops\<close>, \<open>HashLoops\<close> and
    \<open>ProgramLoops\<close>: the loops over indices and positions once more, as they are written, in \<^verbatim>\<open>std::size_t\<close> that
    wraps and \<^verbatim>\<open>int\<close> whose overflow is undefined, with every read checked: codec, splitting and cleaning of
    subjects, containment, hashes, base32, \<^verbatim>\<open>argv\<close> and chains. Each ends, never reads outside, and returns what
    the recursion of the same name without \<open>_code\<close> returns.

  \<^bold>\<open>Conventions.\<close> A throwing function returns \<open>exn + 'a\<close>, the exception on the left; the constructors of
  \<open>exn\<close> are the library's own errors, the exceptions of nlohmann::json and nkeys, \<^verbatim>\<open>std::out_of_range\<close>, and
  undefined behaviour (an overflow of \<^verbatim>\<open>int64_t\<close>) as a value of its own that no handler catches.
  \<^verbatim>\<open>std::int64_t\<close> is a 64-bit word read with \<open>sint\<close>, \<^verbatim>\<open>std::uint32_t\<close> and \<^verbatim>\<open>std::uint8_t\<close> are words, so
  conversions and sums wrap as written. A method that changes its object returns the changed object; so
  does an encoder, which changes issuer and issue time although it is const. Accessors that return
  references are updates of record fields. Four \<^verbatim>\<open>int\<close> counters of dots, wildcards and references (in
  \<open>countTokenWildcards\<close>, \<open>validateRenamingSubject\<close> and \<open>validateOperatorWiring\<close>) are natural numbers: they stay
  below the length of one string and leave 31 bits only for strings of more than \<open>2 ^ 31\<close> characters. Loops are recursions that end; there is no fuel anywhere. That the
  loops over indices end in the program too is a theorem of its own: in \<open>IndexLoops\<close>, \<open>HashLoops\<close> and
  \<open>ProgramLoops\<close> a loop that does not end is \<open>None\<close>, and they return \<open>Some\<close> on everything that fits into memory
  (fewer than \<open>2 ^ 63\<close> elements, as \<^verbatim>\<open>PTRDIFF_MAX\<close> bounds strings and vectors; \<open>2 ^ 60\<close> bytes where the padded
  base32 text must fit too; \<open>2 ^ 31 - 2\<close> arguments, as \<^verbatim>\<open>argc\<close> is an \<^verbatim>\<open>int\<close> that the index passes by one).

  \<^bold>\<open>Parameters.\<close> The record \<open>lib\<close> holds the parser and printer of nlohmann::json, the key checks, seeds,
  signatures and sealed boxes of nkeys, \<^verbatim>\<open>inet_pton\<close> and the text of \<^verbatim>\<open>std::out_of_range\<close>; the record
  \<open>tool_env\<close> holds which paths can be written, indented printing and the version of the build; the
  argument \<open>now\<close> is the clock. Theorems about encoding assume \<open>json_faithful\<close> of the two values that are
  printed (what is printed for the value parses to it) and \<open>lib_ok\<close> (the empty text is no JSON, and a
  verified signature has 64 bytes); \<open>Trust\<close> also assumes \<open>nkey_prefixes\<close> (the first letter of a public key is
  its kind). \<open>demo_lib\<close> in \<open>Envelope\<close> and \<open>trust_demo\<close> in \<open>Trust\<close> are instances for which the witnesses
  evaluate; everything about what decoders accept holds without any hypothesis on \<open>lib\<close>.

  \<^bold>\<open>Not modelled.\<close> The getters of the single classes (each reads one field of the record) and the constants for
  connection types, which nothing in the library compares; failures of a write after the file was opened, which the tool does
  not check; tests, the interoperability drivers and the
  packaging (they only call the library), and the build files.
\<close>

end
